(* ===== verification/Prelude.thy ===== *)
theory Prelude
  imports Main "HOL-Library.Multiset" "HOL-Library.List_Lexorder" "HOL-Library.Char_ord"
    "HOL-Library.Product_Lexorder" "HOL-Library.AList"
begin

text \<open>
  Shared vocabulary of the development: Go errors as values, Go maps as association lists with
  distinct keys, the stable slice sort of the standard library with the order interface its
  callers rely on, and the collections of rewrite rules the component theories add to.
\<close>

named_theorems go_simps \<open>unfolding rules of the small Go helpers\<close>
named_theorems store_simps \<open>behaviour of the storage operations\<close>

section \<open>Errors\<close>

text \<open>
  An \<open>error\<close> value of the program is a package-level sentinel (compared by identity with
  \<open>errors.Is\<close>), a fresh \<open>errors.New\<close> text, the error of a context or of a library, or a
  \<open>fmt.Errorf\<close> with one \<open>%w\<close> verb: the text before it, the wrapped error, the text after it.
\<close>

datatype gerror =
    ErrInvalidEvent
  | ErrNotFound
  | ErrBridgeNotFound
  | ErrNew string
  | ErrCtx string
  | ErrLib string
  | ErrWrap string gerror string

primrec err_text :: "gerror \<Rightarrow> string" where
  "err_text ErrInvalidEvent = ''invalid event''"
| "err_text ErrNotFound = ''not found''"
| "err_text ErrBridgeNotFound = ''otelbridge: deployment not found''"
| "err_text (ErrNew t) = t"
| "err_text (ErrCtx t) = t"
| "err_text (ErrLib t) = t"
| "err_text (ErrWrap pre e suf) = pre @ err_text e @ suf"

fun errors_is :: "gerror \<Rightarrow> gerror \<Rightarrow> bool" where
  "errors_is (ErrWrap pre e suf) target = (ErrWrap pre e suf = target \<or> errors_is e target)"
| "errors_is e target = (e = target)"

lemma errors_is_refl [simp]: "errors_is e e"
  by (cases e) auto

lemma errors_is_wrap [simp]:
  "errors_is (ErrWrap pre e suf) ErrNotFound = errors_is e ErrNotFound"
  "errors_is (ErrWrap pre e suf) ErrBridgeNotFound = errors_is e ErrBridgeNotFound"
  "errors_is (ErrWrap pre e suf) ErrInvalidEvent = errors_is e ErrInvalidEvent"
  by simp_all

type_synonym 'a result = "gerror + 'a"

section \<open>Go maps\<close>

text \<open>
  A Go map is an association list whose keys are distinct; \<open>m[k]\<close> is \<^term>\<open>map_of m k\<close>,
  \<open>m[k] = v\<close> is \<^term>\<open>AList.update k v m\<close> and \<open>delete(m, k)\<close> is \<^term>\<open>AList.delete k m\<close>.
  The language leaves the order in which \<open>range\<close> visits a map open: every function that
  ranges over one takes the visiting order as an argument, a function that permutes the list
  of values.
\<close>

type_synonym ('k, 'v) gomap = "('k \<times> 'v) list"

definition gomap_ok :: "('k, 'v) gomap \<Rightarrow> bool" where
  "gomap_ok m \<longleftrightarrow> distinct (map fst m)"

definition permutes_values :: "('a list \<Rightarrow> 'a list) \<Rightarrow> bool" where
  "permutes_values rng \<longleftrightarrow> (\<forall>xs. mset (rng xs) = mset xs)"

lemma permutes_valuesD: "permutes_values rng \<Longrightarrow> mset (rng xs) = mset xs"
  by (simp add: permutes_values_def)

lemma permutes_values_set: "permutes_values rng \<Longrightarrow> set (rng xs) = set xs"
  by (metis permutes_valuesD set_mset_mset)

lemma permutes_values_distinct: "permutes_values rng \<Longrightarrow> distinct (rng xs) = distinct xs"
  using permutes_valuesD mset_eq_imp_distinct_iff by blast

lemma permutes_values_filter:
  "permutes_values rng \<Longrightarrow> mset (filter P (rng xs)) = mset (filter P xs)"
  by (simp add: permutes_valuesD)

lemma permutes_values_id [simp]: "permutes_values (\<lambda>xs. xs)" "permutes_values rev"
  by (simp_all add: permutes_values_def)

lemma gomap_ok_Nil [simp]: "gomap_ok []"
  by (simp add: gomap_ok_def)

lemma gomap_ok_update [simp]: "gomap_ok m \<Longrightarrow> gomap_ok (AList.update k v m)"
  by (simp add: gomap_ok_def distinct_update)

lemma gomap_ok_delete [simp]: "gomap_ok m \<Longrightarrow> gomap_ok (AList.delete k m)"
  by (simp add: gomap_ok_def distinct_delete)

lemma map_of_update [simp]: "map_of (AList.update k v m) = (map_of m)(k \<mapsto> v)"
  by (simp add: update_conv')

lemma map_of_delete [simp]: "map_of (AList.delete k m) = (map_of m)(k := None)"
  by (simp add: delete_conv')

lemma gomap_ok_in_set: "gomap_ok m \<Longrightarrow> (k, v) \<in> set m \<longleftrightarrow> map_of m k = Some v"
  by (simp add: gomap_ok_def)

lemma gomap_values:
  assumes "gomap_ok m"
  shows "set (map snd m) = ran (map_of m)"
  using assms by (simp add: gomap_ok_def ran_distinct)

lemma gomap_inj_values:
  assumes "gomap_ok m" and "\<And>k v. map_of m k = Some v \<Longrightarrow> f v = k"
  shows "distinct (map snd m)" and "inj_on f (set (map snd m))"
proof -
  have f: "map (f \<circ> snd) m = map fst m"
    using assms by (auto simp: gomap_ok_in_set [symmetric])
  from assms(1) have d: "distinct (map f (map snd m))"
    by (simp add: gomap_ok_def f)
  from d show "distinct (map snd m)"
    by (rule iffD1 [OF distinct_map, THEN conjunct1])
  from d show "inj_on f (set (map snd m))"
    by (rule iffD1 [OF distinct_map, THEN conjunct2])
qed

section \<open>Stable slice sort\<close>

text \<open>
  \<open>sort.SliceStable(xs, lt)\<close> rearranges a slice so that it is sorted by \<open>lt\<close> and equal
  elements keep their order. Both facts determine the result for a strict weak order, so the
  library's block insertion and merging are represented by plain insertion.
\<close>

primrec insert_stable :: "('a \<Rightarrow> 'a \<Rightarrow> bool) \<Rightarrow> 'a \<Rightarrow> 'a list \<Rightarrow> 'a list" where
  "insert_stable lt x [] = [x]"
| "insert_stable lt x (y # ys) =
     (if lt y x then y # insert_stable lt x ys else x # y # ys)"

primrec slice_stable :: "('a \<Rightarrow> 'a \<Rightarrow> bool) \<Rightarrow> 'a list \<Rightarrow> 'a list" where
  "slice_stable lt [] = []"
| "slice_stable lt (x # xs) = insert_stable lt x (slice_stable lt xs)"

text \<open>
  The interface between a comparator and the code that sorts with it: the comparator is the
  strict order of a key in a linear order. Everything a caller needs about the sorted slice
  follows once.
\<close>

locale slice_order =
  fixes lt :: "'a \<Rightarrow> 'a \<Rightarrow> bool"
    and key :: "'a \<Rightarrow> 'k::linorder"
  assumes lt_iff: "lt x y \<longleftrightarrow> key x < key y"
begin

lemma insert_stable_insort: "insert_stable lt x ys = insort_key key x ys"
  by (induction ys) (auto simp: lt_iff)

lemma slice_stable_sort: "slice_stable lt xs = sort_key key xs"
  by (induction xs) (simp_all add: insert_stable_insort)

lemma slice_stable_mset: "mset (slice_stable lt xs) = mset xs"
  by (simp add: slice_stable_sort)

lemma slice_stable_set: "set (slice_stable lt xs) = set xs"
  by (simp add: slice_stable_sort)

lemma slice_stable_length: "length (slice_stable lt xs) = length xs"
  by (simp add: slice_stable_sort)

lemma slice_stable_sorted: "sorted (map key (slice_stable lt xs))"
  by (simp add: slice_stable_sort)

lemma slice_stable_perm:
  assumes "mset xs = mset ys" and "inj_on key (set xs)"
  shows "slice_stable lt xs = slice_stable lt ys"
  using assms by (simp add: slice_stable_sort sort_key_eq_sort_key)

lemma slice_stable_hd:
  assumes "xs \<noteq> []"
  shows "hd (slice_stable lt xs) \<in> set xs"
    and "\<And>x. x \<in> set xs \<Longrightarrow> key (hd (slice_stable lt xs)) \<le> key x"
proof -
  let ?ys = "slice_stable lt xs"
  have ne: "?ys \<noteq> []"
    using assms slice_stable_length [of xs] by auto
  then obtain z zs where ys: "?ys = z # zs"
    by (cases ?ys) auto
  show "hd ?ys \<in> set xs"
    using ne slice_stable_set [of xs] hd_in_set by blast
  show "key (hd ?ys) \<le> key x" if "x \<in> set xs" for x
    using that slice_stable_sorted [of xs] slice_stable_set [of xs] ys by auto
qed

end

section \<open>Newest first\<close>

text \<open>
  Every listing of the program is ordered newest first: by descending instant, then by an
  ascending tie breaker. The order is a type, so that the library's facts on sorting apply.
\<close>

datatype 'a newest = Newest (newest_at: int) (newest_tie: 'a)

instantiation newest :: (linorder) linorder
begin

definition less_eq_newest :: "'a newest \<Rightarrow> 'a newest \<Rightarrow> bool" where
  "less_eq_newest x y \<longleftrightarrow>
     newest_at y < newest_at x \<or> newest_at x = newest_at y \<and> newest_tie x \<le> newest_tie y"

definition less_newest :: "'a newest \<Rightarrow> 'a newest \<Rightarrow> bool" where
  "less_newest x y \<longleftrightarrow>
     newest_at y < newest_at x \<or> newest_at x = newest_at y \<and> newest_tie x < newest_tie y"

instance
  by standard (auto simp: less_eq_newest_def less_newest_def newest.expand)

end

lemma newest_le_iff [simp]: "Newest t a \<le> Newest u b \<longleftrightarrow> u < t \<or> t = u \<and> a \<le> b"
  by (simp add: less_eq_newest_def)

lemma newest_less_iff [simp]: "Newest t a < Newest u b \<longleftrightarrow> u < t \<or> t = u \<and> a < b"
  by (simp add: less_newest_def)

end
