(* ===== verification/Go_Strings.thy ===== *)
theory Go_Strings
  imports Prelude
begin

text \<open>
  The operations of Go's \<open>strings\<close> package that the program uses. A Go string is its sequence
  of UTF-8 bytes, one \<^typ>\<open>char\<close> each, so lengths, indices and slices count bytes.
\<close>

section \<open>Prefixes, splitting and joining\<close>

definition has_prefix :: "string \<Rightarrow> string \<Rightarrow> bool" where
  "has_prefix p s \<longleftrightarrow> take (length p) s = p"

lemma has_prefix_iff: "has_prefix p s \<longleftrightarrow> (\<exists>r. s = p @ r)"
  by (metis append_eq_conv_conj append_take_drop_id has_prefix_def)

lemma has_prefix_append [simp]: "has_prefix p (p @ r)"
  by (simp add: has_prefix_def)

text \<open>\<open>strings.Split(s, sep)\<close> for a one-byte separator.\<close>

fun split_on :: "char \<Rightarrow> string \<Rightarrow> string list" where
  "split_on c [] = [[]]"
| "split_on c (x # xs) =
     (if x = c then [] # split_on c xs
      else case split_on c xs of
        p # ps \<Rightarrow> (x # p) # ps
      | [] \<Rightarrow> [[x]])"

text \<open>\<open>strings.Join(parts, sep)\<close>.\<close>

fun join :: "string \<Rightarrow> string list \<Rightarrow> string" where
  "join sep [] = []"
| "join sep [p] = p"
| "join sep (p # q # ps) = p @ sep @ join sep (q # ps)"

lemma split_on_not_Nil [simp]: "split_on c s \<noteq> []"
  by (induction s) (auto split: list.splits)

lemma split_on_Cons_ex: "\<exists>p ps. split_on c s = p # ps"
  by (cases "split_on c s") auto

lemma split_on_no_sep: "p \<in> set (split_on c s) \<Longrightarrow> c \<notin> set p"
proof (induction s arbitrary: p)
  case Nil
  then show ?case by simp
next
  case (Cons x s)
  obtain q qs where "split_on c s = q # qs"
    using split_on_Cons_ex by blast
  with Cons show ?case
    by (auto split: if_splits)
qed

lemma join_Cons: "ps \<noteq> [] \<Longrightarrow> join sep (p # ps) = p @ sep @ join sep ps"
  by (cases ps) auto

lemma join_head: "join sep ((x # p) # ps) = x # join sep (p # ps)"
  by (cases ps) auto

lemma join_split_on: "join [c] (split_on c s) = s"
proof (induction s)
  case Nil
  then show ?case by simp
next
  case (Cons x s)
  obtain q qs where "split_on c s = q # qs"
    using split_on_Cons_ex by blast
  with Cons show ?case
    by (auto simp: join_head)
qed

lemma split_on_id: "c \<notin> set s \<Longrightarrow> split_on c s = [s]"
  by (induction s) auto

lemma split_on_append: "c \<notin> set p \<Longrightarrow> split_on c (p @ c # s) = p # split_on c s"
  by (induction p) auto

lemma split_on_join:
  "ps \<noteq> [] \<Longrightarrow> (\<forall>p \<in> set ps. c \<notin> set p) \<Longrightarrow> split_on c (join [c] ps) = ps"
proof (induction ps)
  case Nil
  then show ?case by simp
next
  case (Cons p ps)
  then show ?case
    by (cases "ps = []") (auto simp: split_on_id join_Cons split_on_append)
qed

lemma set_join: "set (join sep ps) \<subseteq> set sep \<union> (\<Union>p \<in> set ps. set p)"
  by (induction sep ps rule: join.induct) auto

text \<open>
  \<open>strings.Cut(s, sep)\<close> for a one-byte separator: the text before the first separator, the
  text after it, and whether there is one.
\<close>

fun cut :: "char \<Rightarrow> string \<Rightarrow> string \<times> string \<times> bool" where
  "cut c [] = ([], [], False)"
| "cut c (x # xs) =
     (if x = c then ([], xs, True)
      else case cut c xs of (b, a, found) \<Rightarrow> (x # b, a, found))"

lemma cut_append: "c \<notin> set b \<Longrightarrow> cut c (b @ c # a) = (b, a, True)"
  by (induction b) auto

lemma cut_none: "c \<notin> set s \<Longrightarrow> cut c s = (s, [], False)"
  by (induction s) auto

text \<open>\<open>strings.LastIndex(s, sep)\<close> for a one-byte separator: \<open>-1\<close> when there is none.\<close>

fun last_index :: "char \<Rightarrow> string \<Rightarrow> int" where
  "last_index c [] = -1"
| "last_index c (x # xs) =
     (let i = last_index c xs
      in if 0 \<le> i then i + 1 else if x = c then 0 else -1)"

lemma last_index_neg: "last_index c s < 0 \<longleftrightarrow> c \<notin> set s"
  by (induction s) (auto simp: Let_def)

lemma last_index_ge: "-1 \<le> last_index c s"
  by (induction s) (auto simp: Let_def)

lemma last_index_bound: "last_index c s < int (length s)"
  by (induction s) (auto simp: Let_def)

lemma last_index_append: "c \<notin> set a \<Longrightarrow> last_index c (b @ c # a) = int (length b)"
proof (induction b)
  case Nil
  then have "last_index c a < 0" by (simp add: last_index_neg)
  then show ?case by (simp add: Let_def)
next
  case (Cons x b)
  then show ?case by (simp add: Let_def)
qed

lemma last_index_split:
  assumes "0 \<le> last_index c s"
  obtains b a where "s = b @ c # a" and "c \<notin> set a" and "last_index c s = int (length b)"
proof -
  from assms have "c \<in> set s"
    using last_index_neg [of c s] by linarith
  then obtain b a where "s = b @ c # a" "c \<notin> set a"
    by (meson split_list_last)
  with that show thesis
    by (simp add: last_index_append)
qed

section \<open>Trimming white space\<close>

text \<open>
  \<open>strings.TrimSpace\<close> removes the code points \<open>unicode.IsSpace\<close> accepts from both ends.
  Their UTF-8 encodings: the ASCII blanks, U+0085, U+00A0, U+1680, U+2000 to U+200A, U+2028,
  U+2029, U+202F, U+205F and U+3000.
\<close>

definition go_spaces :: "string list" where
  "go_spaces =
     [[CHR 0x09], [CHR 0x0A], [CHR 0x0B], [CHR 0x0C], [CHR 0x0D], [CHR 0x20],
      [CHR 0xC2, CHR 0x85], [CHR 0xC2, CHR 0xA0], [CHR 0xE1, CHR 0x9A, CHR 0x80],
      [CHR 0xE2, CHR 0x80, CHR 0x80], [CHR 0xE2, CHR 0x80, CHR 0x81],
      [CHR 0xE2, CHR 0x80, CHR 0x82], [CHR 0xE2, CHR 0x80, CHR 0x83],
      [CHR 0xE2, CHR 0x80, CHR 0x84], [CHR 0xE2, CHR 0x80, CHR 0x85],
      [CHR 0xE2, CHR 0x80, CHR 0x86], [CHR 0xE2, CHR 0x80, CHR 0x87],
      [CHR 0xE2, CHR 0x80, CHR 0x88], [CHR 0xE2, CHR 0x80, CHR 0x89],
      [CHR 0xE2, CHR 0x80, CHR 0x8A], [CHR 0xE2, CHR 0x80, CHR 0xA8],
      [CHR 0xE2, CHR 0x80, CHR 0xA9], [CHR 0xE2, CHR 0x80, CHR 0xAF],
      [CHR 0xE2, CHR 0x81, CHR 0x9F], [CHR 0xE3, CHR 0x80, CHR 0x80]]"

fun strip_any :: "string list \<Rightarrow> string \<Rightarrow> string option" where
  "strip_any [] s = None"
| "strip_any (p # ps) s =
     (if p \<noteq> [] \<and> has_prefix p s then Some (drop (length p) s) else strip_any ps s)"

lemma strip_any_None: "strip_any ps s = None \<longleftrightarrow> (\<forall>p \<in> set ps. p \<noteq> [] \<longrightarrow> \<not> has_prefix p s)"
  by (induction ps) auto

lemma strip_any_Some:
  "strip_any ps s = Some r \<Longrightarrow> \<exists>p \<in> set ps. p \<noteq> [] \<and> s = p @ r"
  by (induction ps) (auto simp: has_prefix_iff split: if_splits)

lemma strip_any_shorter: "strip_any ps s = Some r \<Longrightarrow> length r < length s"
  by (auto dest!: strip_any_Some)

function trim_with :: "string list \<Rightarrow> string \<Rightarrow> string" where
  "trim_with ps s = (case strip_any ps s of None \<Rightarrow> s | Some r \<Rightarrow> trim_with ps r)"
  by pat_completeness auto
termination
  by (relation "measure (\<lambda>(ps, s). length s)") (auto dest: strip_any_shorter)

declare trim_with.simps [simp del]

definition trim_space :: "string \<Rightarrow> string" where
  "trim_space s =
     rev (trim_with (map rev go_spaces) (rev (trim_with go_spaces s)))"

lemma trim_with_stop: "strip_any ps (trim_with ps s) = None"
  by (induction ps s rule: trim_with.induct)
    (subst trim_with.simps, auto split: option.splits)

lemma trim_with_id: "strip_any ps s = None \<Longrightarrow> trim_with ps s = s"
  by (simp add: trim_with.simps)

lemma trim_with_suffix: "\<exists>p. s = p @ trim_with ps s"
proof (induction ps s rule: trim_with.induct)
  case (1 ps s)
  show ?case
  proof (cases "strip_any ps s")
    case None
    then show ?thesis by (simp add: trim_with_id)
  next
    case (Some r)
    then obtain p where p: "s = p @ r"
      by (auto dest!: strip_any_Some)
    obtain q where q: "r = q @ trim_with ps r"
      using "1.IH" [OF Some] by blast
    have "trim_with ps s = trim_with ps r"
      using Some by (simp add: trim_with.simps [of ps s])
    with p q show ?thesis
      by (metis append.assoc)
  qed
qed

lemma trim_space_id:
  "strip_any go_spaces s = None \<Longrightarrow> strip_any (map rev go_spaces) (rev s) = None \<Longrightarrow>
   trim_space s = s"
  by (simp add: trim_space_def trim_with_id)

lemma trim_space_infix: "\<exists>p q. s = p @ trim_space s @ q"
proof -
  let ?l = "trim_with go_spaces s"
  obtain p where p: "s = p @ ?l"
    using trim_with_suffix by blast
  obtain q where "rev ?l = q @ trim_with (map rev go_spaces) (rev ?l)"
    using trim_with_suffix by blast
  then have "rev (rev ?l) = rev (q @ trim_with (map rev go_spaces) (rev ?l))"
    by (rule arg_cong)
  then have "?l = trim_space s @ rev q"
    by (simp add: trim_space_def)
  with p show ?thesis
    by metis
qed

lemma trim_space_idem: "trim_space (trim_space s) = trim_space s"
proof -
  let ?l = "trim_with go_spaces s"
  let ?t = "trim_space s"
  have "strip_any (map rev go_spaces) (rev ?t) = None"
    by (simp add: trim_space_def trim_with_stop)
  moreover have "strip_any go_spaces ?t = None"
  proof -
    obtain q where "rev ?l = q @ trim_with (map rev go_spaces) (rev ?l)"
      using trim_with_suffix by blast
    then have "rev (rev ?l) = rev (q @ trim_with (map rev go_spaces) (rev ?l))"
      by (rule arg_cong)
    then have l: "?l = ?t @ rev q"
      by (simp add: trim_space_def)
    have "\<forall>p \<in> set go_spaces. p \<noteq> [] \<longrightarrow> \<not> has_prefix p (?t @ rev q)"
      using trim_with_stop [of go_spaces s] by (simp add: strip_any_None flip: l)
    then have "\<forall>p \<in> set go_spaces. p \<noteq> [] \<longrightarrow> \<not> has_prefix p ?t"
      by (auto simp: has_prefix_iff)
    then show ?thesis
      by (simp add: strip_any_None)
  qed
  ultimately show ?thesis
    by (rule trim_space_id [rotated])
qed

end
