(* ===== verification/Go_Time.thy ===== *)
theory Go_Time
  imports Go_Strings "HOL-Library.Monad_Syntax"
begin

text \<open>
  The part of Go's \<open>time\<close> package the program uses: instants with a zone offset, comparison,
  the saturating difference, and the RFC 3339 layout in both directions. Parsing has the two
  stages of the library, the exact form first and the general layout walk, which accepts a
  little more, after it.
\<close>

section \<open>Instants and durations\<close>

text \<open>
  A \<open>time.Time\<close> is an instant, in nanoseconds since the zero time (1 January of year 1, UTC),
  and the offset of its location in seconds east of UTC. A \<open>time.Duration\<close> is a 64-bit count
  of nanoseconds.
\<close>

record gotime =
  gt_ns :: int
  gt_off :: int

type_synonym duration = int

definition zero_time :: gotime where
  "zero_time = \<lparr>gt_ns = 0, gt_off = 0\<rparr>"

definition IsZero :: "gotime \<Rightarrow> bool" where
  "IsZero t \<longleftrightarrow> gt_ns t = 0"

definition Before :: "gotime \<Rightarrow> gotime \<Rightarrow> bool" where
  "Before t u \<longleftrightarrow> gt_ns t < gt_ns u"

definition After :: "gotime \<Rightarrow> gotime \<Rightarrow> bool" where
  "After t u \<longleftrightarrow> gt_ns u < gt_ns t"

definition Equal :: "gotime \<Rightarrow> gotime \<Rightarrow> bool" where
  "Equal t u \<longleftrightarrow> gt_ns t = gt_ns u"

definition UTC :: "gotime \<Rightarrow> gotime" where
  "UTC t = t\<lparr>gt_off := 0\<rparr>"

definition Add :: "gotime \<Rightarrow> duration \<Rightarrow> gotime" where
  "Add t d = t\<lparr>gt_ns := gt_ns t + d\<rparr>"

definition max_duration :: duration where
  "max_duration = 2 ^ 63 - 1"

definition min_duration :: duration where
  "min_duration = - (2 ^ 63)"

definition Sub :: "gotime \<Rightarrow> gotime \<Rightarrow> duration" where
  "Sub t u = max min_duration (min max_duration (gt_ns t - gt_ns u))"

definition second :: duration where
  "second = 10 ^ 9"

lemmas time_cmp_defs [go_simps] =
  IsZero_def Before_def After_def Equal_def

lemma Sub_self: "Sub t t = 0"
  by (simp add: Sub_def max_duration_def min_duration_def)

lemma Sub_range: "min_duration \<le> Sub t u \<and> Sub t u \<le> max_duration"
  by (auto simp: Sub_def max_duration_def min_duration_def)

lemma Sub_exact:
  "min_duration \<le> gt_ns t - gt_ns u \<Longrightarrow> gt_ns t - gt_ns u \<le> max_duration \<Longrightarrow>
   Sub t u = gt_ns t - gt_ns u"
  by (simp add: Sub_def)

section \<open>The proleptic Gregorian calendar\<close>

definition is_leap :: "int \<Rightarrow> bool" where
  "is_leap y \<longleftrightarrow> y mod 4 = 0 \<and> (y mod 100 \<noteq> 0 \<or> y mod 400 = 0)"

definition month_lengths :: "int \<Rightarrow> int list" where
  "month_lengths y = [31, if is_leap y then 29 else 28, 31, 30, 31, 30, 31, 31, 30, 31, 30, 31]"

definition days_in :: "int \<Rightarrow> int \<Rightarrow> int" where
  "days_in m y = month_lengths y ! nat (m - 1)"

definition days_before_year :: "int \<Rightarrow> int" where
  "days_before_year y =
     365 * (y - 1) + (y - 1) div 4 - (y - 1) div 100 + (y - 1) div 400"

text \<open>Days from 1 January of year 1 to a date.\<close>

definition days_of_date :: "int \<Rightarrow> int \<Rightarrow> int \<Rightarrow> int" where
  "days_of_date y m d =
     days_before_year y + sum_list (take (nat (m - 1)) (month_lengths y)) + d - 1"

fun month_of :: "int list \<Rightarrow> int \<Rightarrow> int \<times> int" where
  "month_of [] d = (1, d + 1)"
| "month_of (l # ls) d =
     (if d < l then (1, d + 1) else case month_of ls (d - l) of (m, x) \<Rightarrow> (m + 1, x))"

definition date_of_days :: "int \<Rightarrow> int \<times> int \<times> int" where
  "date_of_days n =
     (let n400 = n div 146097; r400 = n mod 146097;
          n100 = min 3 (r400 div 36524); r100 = r400 - 36524 * n100;
          n4 = r100 div 1461; r4 = r100 mod 1461;
          n1 = min 3 (r4 div 365); doy = r4 - 365 * n1;
          y = 400 * n400 + 100 * n100 + 4 * n4 + n1 + 1
      in (y, month_of (month_lengths y) doy))"

lemma month_of_spec:
  assumes "0 \<le> d" and "d < sum_list ls"
  shows "case month_of ls d of (m, x) \<Rightarrow>
     1 \<le> m \<and> m \<le> int (length ls) \<and> 1 \<le> x \<and> x \<le> ls ! nat (m - 1) \<and>
     sum_list (take (nat (m - 1)) ls) + x - 1 = d"
  using assms
proof (induction ls arbitrary: d)
  case Nil
  then show ?case by simp
next
  case (Cons l ls)
  show ?case
  proof (cases "d < l")
    case True
    with Cons.prems show ?thesis by simp
  next
    case False
    obtain m x where mx: "month_of ls (d - l) = (m, x)"
      by fastforce
    with Cons.IH [of "d - l"] Cons.prems False
    have ih: "1 \<le> m" "m \<le> int (length ls)" "1 \<le> x" "x \<le> ls ! nat (m - 1)"
        "sum_list (take (nat (m - 1)) ls) + x - 1 = d - l"
      by auto
    have "nat m = Suc (nat (m - 1))"
      using ih(1) by simp
    with ih mx False show ?thesis
      by simp
  qed
qed

lemma sum_month_lengths: "sum_list (month_lengths y) = (if is_leap y then 366 else 365)"
  by (simp add: month_lengths_def)

lemma year_split:
  fixes a b c e :: int
  assumes "0 \<le> b" "b \<le> 3" "0 \<le> c" "c \<le> 24" "0 \<le> e" "e \<le> 3"
  shows "days_before_year (400 * a + 100 * b + 4 * c + e + 1) =
           146097 * a + 36524 * b + 1461 * c + 365 * e"
    and "is_leap (400 * a + 100 * b + 4 * c + e + 1) \<longleftrightarrow> e = 3 \<and> (c \<noteq> 24 \<or> b = 3)"
proof -
  let ?z = "400 * a + 100 * b + 4 * c + e"
  have "?z div 4 = 100 * a + 25 * b + c"
    by (rule int_div_pos_eq [where r = e]) (use assms in auto)
  moreover have "?z div 100 = 4 * a + b"
    by (rule int_div_pos_eq [where r = "4 * c + e"]) (use assms in auto)
  moreover have "?z div 400 = a"
    by (rule int_div_pos_eq [where r = "100 * b + 4 * c + e"]) (use assms in auto)
  ultimately show "days_before_year (?z + 1) = 146097 * a + 36524 * b + 1461 * c + 365 * e"
    by (simp add: days_before_year_def)
  have four: "(?z + 1) mod 4 = (if e = 3 then 0 else e + 1)"
    by (rule int_mod_pos_eq [where q = "100 * a + 25 * b + c + (if e = 3 then 1 else 0)"])
      (use assms in auto)
  have hundred: "(?z + 1) mod 100 = (if c = 24 then 0 else 4 * c + 4)" if "e = 3"
    by (rule int_mod_pos_eq [where q = "4 * a + b + (if c = 24 then 1 else 0)"])
      (use assms that in auto)
  have fourhundred: "(?z + 1) mod 400 = (if b = 3 then 0 else 100 * b + 100)" if "e = 3" "c = 24"
    by (rule int_mod_pos_eq [where q = "a + (if b = 3 then 1 else 0)"])
      (use assms that in auto)
  show "is_leap (?z + 1) \<longleftrightarrow> e = 3 \<and> (c \<noteq> 24 \<or> b = 3)"
    unfolding is_leap_def using four hundred fourhundred assms by (auto split: if_splits)
qed

lemma capped_div:
  fixes r k :: int
  assumes "0 < k" "0 \<le> r" "r \<le> 4 * k" and b: "b = min 3 (r div k)"
  shows "0 \<le> b" "b \<le> 3" "0 \<le> r - k * b" "r - k * b \<le> k" "r - k * b = k \<Longrightarrow> b = 3"
proof -
  define q where "q = r div k"
  define m where "m = r mod k"
  have r: "r = k * q + m" and m: "0 \<le> m" "m < k"
    using assms(1) by (simp_all add: q_def m_def)
  have "0 \<le> q"
    using assms(1,2) by (simp add: q_def pos_imp_zdiv_nonneg_iff)
  moreover have "q \<le> 4"
    using assms(1,3) zdiv_mono1 [of r "4 * k" k] by (simp add: q_def)
  ultimately have "q = 0 \<or> q = 1 \<or> q = 2 \<or> q = 3 \<or> q = 4"
    by arith
  then show "0 \<le> b" "b \<le> 3" "0 \<le> r - k * b" "r - k * b \<le> k" "r - k * b = k \<Longrightarrow> b = 3"
    using r m assms(3) b by (auto simp flip: q_def)
qed

text \<open>Every day count is the count of a valid date.\<close>

lemma date_of_days_spec:
  "case date_of_days n of (y, m, d) \<Rightarrow>
     1 \<le> m \<and> m \<le> 12 \<and> 1 \<le> d \<and> d \<le> days_in m y \<and> days_of_date y m d = n"
proof -
  define a where "a = n div 146097"
  define r where "r = n mod 146097"
  define b where "b = min 3 (r div 36524)"
  define s where "s = r - 36524 * b"
  define c where "c = s div 1461"
  define u where "u = s mod 1461"
  define e where "e = min 3 (u div 365)"
  define doy where "doy = u - 365 * e"
  define y where "y = 400 * a + 100 * b + 4 * c + e + 1"
  have n: "n = 146097 * a + r" and r: "0 \<le> r" "r < 146097"
    by (simp_all add: a_def r_def)
  have b: "0 \<le> b" "b \<le> 3" and s: "0 \<le> s" "s \<le> 36524" "s = 36524 \<Longrightarrow> b = 3"
    using capped_div [of 36524 r b] r unfolding b_def s_def by auto
  have su: "s = 1461 * c + u" and u: "0 \<le> u" "u < 1461"
    by (simp_all add: c_def u_def)
  have c: "0 \<le> c" "c \<le> 24"
    using s su u by arith+
  have e: "0 \<le> e" "e \<le> 3" and doy: "0 \<le> doy" "doy \<le> 365" "doy = 365 \<Longrightarrow> e = 3"
    using capped_div [of 365 u e] u unfolding e_def doy_def by auto
  have leap: "doy = 365 \<Longrightarrow> is_leap y"
    using year_split(2) [OF b c e, of a] doy s su unfolding y_def doy_def by auto
  have before: "days_before_year y + doy = n"
    using year_split(1) [OF b c e, of a] n su unfolding y_def doy_def s_def by simp
  have "doy < sum_list (month_lengths y)"
    using doy leap by (cases "doy = 365") (auto simp: sum_month_lengths)
  note spec = month_of_spec [OF doy(1) this]
  obtain m x where mx: "month_of (month_lengths y) doy = (m, x)"
    by fastforce
  have len: "length (month_lengths y) = 12"
    by (simp add: month_lengths_def)
  have "date_of_days n = (y, m, x)"
    unfolding date_of_days_def Let_def
    by (simp flip: a_def r_def b_def s_def c_def u_def e_def doy_def y_def mx)
  with spec mx before len show ?thesis
    by (simp add: days_in_def days_of_date_def)
qed

end
