(* ===== verification/Go_RFC3339.thy ===== *)
theory Go_RFC3339
  imports Go_Time
begin

text \<open>
  The layout \<open>time.RFC3339\<close> in both directions: \<open>Format\<close>, and \<open>time.Parse\<close> with its exact
  first stage and the general layout walk behind it. The round trip theorem connects them.
\<close>

section \<open>Decimal digits\<close>

definition is_digit :: "char \<Rightarrow> bool" where
  "is_digit c \<longleftrightarrow> 48 \<le> (of_char c :: nat) \<and> (of_char c :: nat) \<le> 57"

definition digit_val :: "char \<Rightarrow> int" where
  "digit_val c = int (of_char c) - 48"

definition digit_char :: "int \<Rightarrow> char" where
  "digit_char k = char_of (48 + nat (k mod 10))"

definition digits_val :: "string \<Rightarrow> int" where
  "digits_val s = foldl (\<lambda>x c. 10 * x + digit_val c) 0 s"

text \<open>The last \<open>w\<close> decimal digits of a number, and all digits of a natural number.\<close>

primrec dec :: "nat \<Rightarrow> int \<Rightarrow> string" where
  "dec 0 n = []"
| "dec (Suc w) n = dec w (n div 10) @ [digit_char n]"

fun show_nat :: "nat \<Rightarrow> string" where
  "show_nat n = (if n < 10 then [digit_char (int n)] else show_nat (n div 10) @ [digit_char (int n)])"

declare show_nat.simps [simp del]

text \<open>\<open>appendInt(b, x, width)\<close>: zero-padded to the width, longer numbers in full.\<close>

definition append_int :: "int \<Rightarrow> nat \<Rightarrow> string" where
  "append_int x w =
     (if x < 0 then ''-'' else []) @
     (if \<bar>x\<bar> < 10 ^ w then dec w \<bar>x\<bar> else show_nat (nat \<bar>x\<bar>))"

lemma is_digit_digit_char [simp]: "is_digit (digit_char k)"
proof -
  have "nat (k mod 10) < 10" by simp
  then have "48 + nat (k mod 10) < 256" by linarith
  then show ?thesis
    by (simp add: is_digit_def digit_char_def)
qed

lemma digit_val_digit_char [simp]: "digit_val (digit_char k) = k mod 10"
proof -
  have "nat (k mod 10) < 10" by simp
  then have "48 + nat (k mod 10) < 256" by linarith
  then show ?thesis
    by (simp add: digit_val_def digit_char_def)
qed

lemma digit_char_noteq [simp]:
  "digit_char k \<noteq> CHR ''-''" "digit_char k \<noteq> CHR ''.''" "digit_char k \<noteq> CHR '':''"
  "digit_char k \<noteq> CHR ''T''" "digit_char k \<noteq> CHR ''Z''"
  using is_digit_digit_char [of k] by (auto simp: is_digit_def)

lemma length_dec [simp]: "length (dec w n) = w"
  by (induction w arbitrary: n) auto

lemma dec_digits: "\<forall>c \<in> set (dec w n). is_digit c"
  by (induction w arbitrary: n) auto

lemma digits_val_snoc: "digits_val (s @ [c]) = 10 * digits_val s + digit_val c"
  by (simp add: digits_val_def)

lemma digits_val_dec: "0 \<le> n \<Longrightarrow> n < 10 ^ w \<Longrightarrow> digits_val (dec w n) = n"
proof (induction w arbitrary: n)
  case 0
  then show ?case by (simp add: digits_val_def)
next
  case (Suc w)
  then have "n div 10 < 10 ^ w" by (simp add: div_less_iff_less_mult)
  with Suc show ?case by (simp add: digits_val_snoc)
qed

section \<open>Formatting\<close>

definition day_ns :: int where
  "day_ns = 86400 * 10 ^ 9"

text \<open>The wall clock of an instant in its zone: date, hour, minute, second.\<close>

definition clock :: "gotime \<Rightarrow> (int \<times> int \<times> int) \<times> int \<times> int \<times> int" where
  "clock t =
     (let secs = gt_ns t div 10 ^ 9 + gt_off t; sod = secs mod 86400
      in (date_of_days (secs div 86400), sod div 3600, sod mod 3600 div 60, sod mod 60))"

definition format_zone :: "int \<Rightarrow> string" where
  "format_zone off =
     (if off = 0 then ''Z''
      else (if off < 0 then ''-'' else ''+'') @
        append_int (\<bar>off\<bar> div 60 div 60) 2 @ '':'' @ append_int (\<bar>off\<bar> div 60 mod 60) 2)"

definition FormatRFC3339 :: "gotime \<Rightarrow> string" where
  "FormatRFC3339 t =
     (case clock t of ((y, m, d), hh, mm, ss) \<Rightarrow>
        append_int y 4 @ ''-'' @ append_int m 2 @ ''-'' @ append_int d 2 @ ''T'' @
        append_int hh 2 @ '':'' @ append_int mm 2 @ '':'' @ append_int ss 2 @
        format_zone (gt_off t))"

section \<open>Parsing\<close>

definition time_of_date :: "int \<Rightarrow> int \<Rightarrow> int \<Rightarrow> int \<Rightarrow> int \<Rightarrow> int \<Rightarrow> int \<Rightarrow> int \<Rightarrow> gotime" where
  "time_of_date y m d hh mm ss ns off =
     \<lparr>gt_ns = (days_of_date y m d * 86400 + hh * 3600 + mm * 60 + ss - off) * 10 ^ 9 + ns,
      gt_off = off\<rparr>"

text \<open>\<open>parseUint\<close> of the exact stage: all digits, within the range.\<close>

definition parse_uint :: "string \<Rightarrow> int \<Rightarrow> int \<Rightarrow> int option" where
  "parse_uint s lo hi =
     (if (\<forall>c \<in> set s. is_digit c) \<and> lo \<le> digits_val s \<and> digits_val s \<le> hi
      then Some (digits_val s) else None)"

text \<open>\<open>parseNanoseconds\<close>: at most nine digits of the fraction count.\<close>

definition nanos_of :: "string \<Rightarrow> int" where
  "nanos_of ds = (let ds9 = take 9 ds in digits_val ds9 * 10 ^ (9 - length ds9))"

text \<open>A fraction after the seconds: its nanoseconds and the rest of the text.\<close>

definition parse_frac :: "char set \<Rightarrow> string \<Rightarrow> int \<times> string" where
  "parse_frac seps s =
     (case s of
        p # c # r \<Rightarrow>
          if p \<in> seps \<and> is_digit c
          then (nanos_of (takeWhile is_digit (c # r)), dropWhile is_digit (c # r))
          else (0, s)
      | _ \<Rightarrow> (0, s))"

definition parse_zone_exact :: "string \<Rightarrow> int option" where
  "parse_zone_exact s =
     (if s = ''Z'' then Some 0
      else if length s \<noteq> 6 then None
      else do {
        hr \<leftarrow> parse_uint (take 2 (drop 1 s)) 0 23;
        mm \<leftarrow> parse_uint (drop 4 s) 0 59;
        if (s ! 0 = CHR ''-'' \<or> s ! 0 = CHR ''+'') \<and> s ! 3 = CHR '':''
        then Some (if s ! 0 = CHR ''-'' then - ((hr * 60 + mm) * 60) else (hr * 60 + mm) * 60)
        else None
      })"

text \<open>The exact stage, \<open>parseRFC3339\<close>.\<close>

definition parse_exact :: "string \<Rightarrow> gotime option" where
  "parse_exact s =
     (if length s < 19 then None
      else do {
        y \<leftarrow> parse_uint (take 4 s) 0 9999;
        m \<leftarrow> parse_uint (take 2 (drop 5 s)) 1 12;
        d \<leftarrow> parse_uint (take 2 (drop 8 s)) 1 (days_in m y);
        hh \<leftarrow> parse_uint (take 2 (drop 11 s)) 0 23;
        mm \<leftarrow> parse_uint (take 2 (drop 14 s)) 0 59;
        ss \<leftarrow> parse_uint (take 2 (drop 17 s)) 0 59;
        if s ! 4 = CHR ''-'' \<and> s ! 7 = CHR ''-'' \<and> s ! 10 = CHR ''T'' \<and>
           s ! 13 = CHR '':'' \<and> s ! 16 = CHR '':''
        then case parse_frac {CHR ''.''} (drop 19 s) of (ns, rest) \<Rightarrow>
          do { off \<leftarrow> parse_zone_exact rest; Some (time_of_date y m d hh mm ss ns off) }
        else None
      })"

text \<open>The general layout walk: \<open>getnum\<close>, \<open>skip\<close>, and one step per layout chunk.\<close>

definition getnum :: "bool \<Rightarrow> string \<Rightarrow> (int \<times> string) option" where
  "getnum fixed s =
     (case s of
        [] \<Rightarrow> None
      | c # r \<Rightarrow>
          if \<not> is_digit c then None
          else case r of
            d # r' \<Rightarrow>
              if is_digit d then Some (10 * digit_val c + digit_val d, r')
              else if fixed then None else Some (digit_val c, r)
          | [] \<Rightarrow> if fixed then None else Some (digit_val c, r))"

definition skip_char :: "char \<Rightarrow> string \<Rightarrow> string option" where
  "skip_char c s = (case s of x # r \<Rightarrow> if x = c then Some r else None | [] \<Rightarrow> None)"

definition get_year :: "string \<Rightarrow> (int \<times> string) option" where
  "get_year s =
     (if 4 \<le> length s \<and> (\<forall>c \<in> set (take 4 s). is_digit c)
      then Some (digits_val (take 4 s), drop 4 s) else None)"

definition in_range :: "int \<Rightarrow> int \<Rightarrow> int \<Rightarrow> unit option" where
  "in_range lo hi x = (if lo \<le> x \<and> x \<le> hi then Some () else None)"

definition get_zone :: "string \<Rightarrow> (int \<times> string) option" where
  "get_zone s =
     (if has_prefix ''Z'' s then Some (0, drop 1 s)
      else if length s < 6 \<or> s ! 3 \<noteq> CHR '':'' then None
      else do {
        hr \<leftarrow> getnum True (take 2 (drop 1 s));
        mm \<leftarrow> getnum True (take 2 (drop 4 s));
        in_range 0 24 (fst hr);
        in_range 0 60 (fst mm);
        if s ! 0 = CHR ''+'' then Some ((fst hr * 60 + fst mm) * 60, drop 6 s)
        else if s ! 0 = CHR ''-'' then Some (- ((fst hr * 60 + fst mm) * 60), drop 6 s)
        else None
      })"

definition parse_general :: "string \<Rightarrow> gotime option" where
  "parse_general s = do {
     (y, s) \<leftarrow> get_year s;
     s \<leftarrow> skip_char CHR ''-'' s;
     (m, s) \<leftarrow> getnum True s;
     in_range 1 12 m;
     s \<leftarrow> skip_char CHR ''-'' s;
     (d, s) \<leftarrow> getnum True s;
     s \<leftarrow> skip_char CHR ''T'' s;
     (hh, s) \<leftarrow> getnum False s;
     in_range 0 23 hh;
     s \<leftarrow> skip_char CHR '':'' s;
     (mm, s) \<leftarrow> getnum True s;
     in_range 0 59 mm;
     s \<leftarrow> skip_char CHR '':'' s;
     (ss, s) \<leftarrow> getnum True s;
     in_range 0 59 ss;
     case parse_frac {CHR ''.'', CHR '',''} s of (ns, s) \<Rightarrow>
       do {
         (off, s) \<leftarrow> get_zone s;
         if s = [] \<and> 1 \<le> d \<and> d \<le> days_in m y
         then Some (time_of_date y m d hh mm ss ns off) else None
       }
   }"

text \<open>\<open>time.Parse(time.RFC3339, s)\<close>.\<close>

definition ParseRFC3339 :: "string \<Rightarrow> gotime option" where
  "ParseRFC3339 s =
     (case parse_exact s of Some t \<Rightarrow> Some t | None \<Rightarrow> parse_general s)"

section \<open>Round trip\<close>

lemma parse_uint_dec:
  "0 \<le> n \<Longrightarrow> n < 10 ^ w \<Longrightarrow> lo \<le> n \<Longrightarrow> n \<le> hi \<Longrightarrow> parse_uint (dec w n) lo hi = Some n"
  using dec_digits [of w n] by (simp add: parse_uint_def digits_val_dec)

lemma append_int_dec: "0 \<le> n \<Longrightarrow> n < 10 ^ w \<Longrightarrow> append_int n w = dec w n"
  by (simp add: append_int_def)

definition offset_ok :: "int \<Rightarrow> bool" where
  "offset_ok off \<longleftrightarrow> off mod 60 = 0 \<and> -86400 < off \<and> off < 86400"

lemma offset_minutes:
  assumes "offset_ok off"
  shows "(\<bar>off\<bar> div 60 div 60 * 60 + \<bar>off\<bar> div 60 mod 60) * 60 = \<bar>off\<bar>"
    and "0 \<le> \<bar>off\<bar> div 60 div 60" "\<bar>off\<bar> div 60 div 60 \<le> 23"
    and "0 \<le> \<bar>off\<bar> div 60 mod 60" "\<bar>off\<bar> div 60 mod 60 \<le> 59"
proof -
  have "\<bar>off\<bar> mod 60 = 0"
    using assms by (auto simp: offset_ok_def abs_if zmod_zminus1_eq_if)
  then show "(\<bar>off\<bar> div 60 div 60 * 60 + \<bar>off\<bar> div 60 mod 60) * 60 = \<bar>off\<bar>"
    using div_mult_mod_eq [of "\<bar>off\<bar>" 60] by simp
  have "\<bar>off\<bar> < 86400"
    using assms by (auto simp: offset_ok_def)
  then show "\<bar>off\<bar> div 60 div 60 \<le> 23"
    by linarith
qed simp_all

lemma parse_zone_format:
  assumes "offset_ok off"
  shows "parse_zone_exact (format_zone off) = Some off"
proof (cases "off = 0")
  case True
  then show ?thesis by (simp add: format_zone_def parse_zone_exact_def)
next
  case False
  define h where "h = \<bar>off\<bar> div 60 div 60"
  define m where "m = \<bar>off\<bar> div 60 mod 60"
  have off: "(h * 60 + m) * 60 = \<bar>off\<bar>" "0 \<le> h" "h \<le> 23" "0 \<le> m" "m \<le> 59"
    unfolding h_def m_def by (rule offset_minutes [OF assms])+
  have fz: "format_zone off = (if off < 0 then ''-'' else ''+'') @ dec 2 h @ '':'' @ dec 2 m"
    using False off(2-5) by (simp add: format_zone_def append_int_dec flip: h_def m_def)
  have "parse_uint (dec 2 h) 0 23 = Some h" "parse_uint (dec 2 m) 0 59 = Some m"
    using off(2-5) by (simp_all add: parse_uint_dec)
  then have "parse_zone_exact (c # dec 2 h @ '':'' @ dec 2 m) =
      (if c = CHR ''-'' \<or> c = CHR ''+'' then
         Some (if c = CHR ''-'' then - ((h * 60 + m) * 60) else (h * 60 + m) * 60) else None)" for c
    by (simp add: parse_zone_exact_def nth_append)
  then show ?thesis
    unfolding fz using off(1) by (auto simp: abs_if split: if_splits)
qed

lemma parse_frac_format: "parse_frac {CHR ''.''} (format_zone off) = (0, format_zone off)"
  by (auto simp: format_zone_def parse_frac_def split: list.splits)

lemma clock_fields:
  assumes "clock t = ((y, m, d), hh, mm, ss)"
  shows "1 \<le> m" "m \<le> 12" "1 \<le> d" "d \<le> days_in m y" "d \<le> 31"
    and "0 \<le> hh" "hh \<le> 23" "0 \<le> mm" "mm \<le> 59" "0 \<le> ss" "ss \<le> 59"
    and "time_of_date y m d hh mm ss 0 (gt_off t) = t\<lparr>gt_ns := gt_ns t div 10 ^ 9 * 10 ^ 9\<rparr>"
proof -
  let ?secs = "gt_ns t div 10 ^ 9 + gt_off t"
  have date: "date_of_days (?secs div 86400) = (y, m, d)"
    and hms: "hh = ?secs mod 86400 div 3600" "mm = ?secs mod 86400 mod 3600 div 60"
      "ss = ?secs mod 86400 mod 60"
    using assms by (auto simp: clock_def Let_def)
  from date_of_days_spec [of "?secs div 86400"] date
  have m: "1 \<le> m" "m \<le> 12" and d: "1 \<le> d" "d \<le> days_in m y"
    and day: "days_of_date y m d = ?secs div 86400" by auto
  from m d show "1 \<le> m" "m \<le> 12" "1 \<le> d" "d \<le> days_in m y" .
  have "m = 1 \<or> m = 2 \<or> m = 3 \<or> m = 4 \<or> m = 5 \<or> m = 6 \<or> m = 7 \<or> m = 8 \<or> m = 9 \<or>
      m = 10 \<or> m = 11 \<or> m = 12"
    using m by arith
  then have "days_in m y \<le> 31"
    by (auto simp: days_in_def month_lengths_def)
  with d show "d \<le> 31" by linarith
  define sod where "sod = ?secs mod 86400"
  have sod: "0 \<le> sod" "sod < 86400"
    by (simp_all add: sod_def)
  have hms: "hh = sod div 3600" "mm = sod mod 3600 div 60" "ss = sod mod 60"
    unfolding sod_def by (rule hms)+
  have s36: "0 \<le> sod mod 3600" "sod mod 3600 < 3600" by simp_all
  show "0 \<le> hh" "0 \<le> mm"
    using hms sod s36 by (simp_all add: pos_imp_zdiv_nonneg_iff)
  show "hh \<le> 23" "mm \<le> 59"
    using hms sod s36 by linarith+
  show "0 \<le> ss" "ss \<le> 59"
    using hms(3) pos_mod_bound [of 60 sod] by simp_all
  have "sod mod 3600 mod 60 = sod mod 60"
    by (simp add: mod_mod_cancel)
  then have "hh * 3600 + mm * 60 + ss = sod"
    using hms div_mult_mod_eq [of sod 3600] div_mult_mod_eq [of "sod mod 3600" 60] by linarith
  then have "days_of_date y m d * 86400 + hh * 3600 + mm * 60 + ss = ?secs"
    using day div_mult_mod_eq [of ?secs 86400] unfolding sod_def by linarith
  then have "days_of_date y m d * 86400 + hh * 3600 + mm * 60 + ss - gt_off t = gt_ns t div 10 ^ 9"
    by linarith
  then show "time_of_date y m d hh mm ss 0 (gt_off t) = t\<lparr>gt_ns := gt_ns t div 10 ^ 9 * 10 ^ 9\<rparr>"
    by (simp add: time_of_date_def)
qed

lemma parse_exact_layout:
  assumes "length Y = 4" "length M = 2" "length D = 2" "length h = 2" "length n = 2" "length c = 2"
    and "parse_uint Y 0 9999 = Some y" "parse_uint M 1 12 = Some m"
    and "parse_uint D 1 (days_in m y) = Some d" "parse_uint h 0 23 = Some hh"
    and "parse_uint n 0 59 = Some mm" "parse_uint c 0 59 = Some ss"
    and "parse_frac {CHR ''.''} z = (0, z)" "parse_zone_exact z = Some off"
  shows "parse_exact (Y @ ''-'' @ M @ ''-'' @ D @ ''T'' @ h @ '':'' @ n @ '':'' @ c @ z) =
         Some (time_of_date y m d hh mm ss 0 off)"
  using assms by (simp add: parse_exact_def nth_append)

text \<open>
  Formatting an instant and parsing the text gives the instant back, without the fraction of
  a second the layout drops.
\<close>

lemma parse_format:
  assumes "0 \<le> fst (fst (clock t))" and "fst (fst (clock t)) \<le> 9999" and "offset_ok (gt_off t)"
  shows "ParseRFC3339 (FormatRFC3339 t) = Some (t\<lparr>gt_ns := gt_ns t div 10 ^ 9 * 10 ^ 9\<rparr>)"
proof -
  obtain y m d hh mm ss where c: "clock t = ((y, m, d), hh, mm, ss)"
    by (cases "clock t") auto
  note f = clock_fields [OF c]
  have y: "0 \<le> y" "y \<le> 9999"
    using assms(1,2) c by auto
  have "FormatRFC3339 t = dec 4 y @ ''-'' @ dec 2 m @ ''-'' @ dec 2 d @ ''T'' @
      dec 2 hh @ '':'' @ dec 2 mm @ '':'' @ dec 2 ss @ format_zone (gt_off t)"
    using f y by (simp add: FormatRFC3339_def c append_int_dec)
  moreover have "parse_exact \<dots> = Some (time_of_date y m d hh mm ss 0 (gt_off t))"
    by (rule parse_exact_layout)
      (use f y in \<open>auto intro!: parse_uint_dec simp: parse_frac_format parse_zone_format [OF assms(3)]\<close>)
  ultimately show ?thesis
    by (simp add: ParseRFC3339_def f(12))
qed

end
