(* ===== verification/Go_Json.thy ===== *)
theory Go_Json
  imports Go_RFC3339
begin

text \<open>
  The decoding half of \<open>encoding/json\<close> above its lexer: the syntax tree of a document, the
  dynamic values Go's \<open>any\<close> takes, and the decoding of a tree into strings, maps, slices,
  times and structs, with the library's rules for \<open>null\<close>, for repeated keys and for the
  matching of member names to field tags.
\<close>

section \<open>Syntax trees and dynamic values\<close>

text \<open>
  A string literal and a member name are kept as the bytes between the quotes, escapes
  included, and a number as its literal text.
\<close>

datatype json =
    JNull
  | JBool bool
  | JNum string
  | JStr string
  | JArr "json list"
  | JObj "(string \<times> json) list"

text \<open>
  What \<open>any\<close> holds after decoding. The program only asks whether a value is a string or a
  map, so a number is represented by its literal.
\<close>

datatype gval =
    VNil
  | VBool bool
  | VNum string
  | VStr string
  | VArr "gval list"
  | VMap "(string \<times> gval) list"

text \<open>A \<open>map[string]any\<close> that may be \<open>nil\<close>.\<close>

type_synonym anymap = "(string, gval) gomap option"

section \<open>String literals\<close>

definition byte :: "nat \<Rightarrow> char" where
  "byte n = char_of n"

definition encode_rune :: "nat \<Rightarrow> string" where
  "encode_rune n =
     (if n < 0x80 then [byte n]
      else if n < 0x800 then [byte (0xC0 + n div 64), byte (0x80 + n mod 64)]
      else if n < 0x10000 then
        [byte (0xE0 + n div 4096), byte (0x80 + n div 64 mod 64), byte (0x80 + n mod 64)]
      else
        [byte (0xF0 + n div 262144), byte (0x80 + n div 4096 mod 64),
         byte (0x80 + n div 64 mod 64), byte (0x80 + n mod 64)])"

definition replacement :: string where
  "replacement = [CHR 0xEF, CHR 0xBF, CHR 0xBD]"

definition between :: "nat \<Rightarrow> nat \<Rightarrow> char \<Rightarrow> bool" where
  "between lo hi c \<longleftrightarrow> lo \<le> of_char c \<and> of_char c \<le> hi"

text \<open>How many bytes the UTF-8 sequence at the head takes; 0 when it is not valid.\<close>

definition utf8_head :: "string \<Rightarrow> nat" where
  "utf8_head s =
     (case s of
        [] \<Rightarrow> 0
      | c # r \<Rightarrow>
          let cont = (\<lambda>i. i < length r \<and> between 0x80 0xBF (r ! i));
              snd_in = (\<lambda>lo hi. 0 < length r \<and> between lo hi (r ! 0))
          in if between 0 0x7F c then 1
             else if between 0xC2 0xDF c \<and> cont 0 then 2
             else if (c = CHR 0xE0 \<and> snd_in 0xA0 0xBF \<or> c = CHR 0xED \<and> snd_in 0x80 0x9F \<or>
                      (between 0xE1 0xEF c \<and> c \<noteq> CHR 0xED) \<and> cont 0) \<and> cont 1 then 3
             else if (c = CHR 0xF0 \<and> snd_in 0x90 0xBF \<or> c = CHR 0xF4 \<and> snd_in 0x80 0x8F \<or>
                      between 0xF1 0xF3 c \<and> cont 0) \<and> cont 1 \<and> cont 2 then 4
             else 0)"

definition hex_val :: "char \<Rightarrow> nat option" where
  "hex_val c =
     (if between 48 57 c then Some (of_char c - 48)
      else if between 97 102 c then Some (of_char c - 87)
      else if between 65 70 c then Some (of_char c - 55)
      else None)"

text \<open>\<open>getu4\<close>: the four hexadecimal digits at the head.\<close>

definition getu4 :: "string \<Rightarrow> nat option" where
  "getu4 s =
     (case s of
        a # b # c # d # r \<Rightarrow>
          do {
            w \<leftarrow> hex_val a; x \<leftarrow> hex_val b; y \<leftarrow> hex_val c; z \<leftarrow> hex_val d;
            Some (((w * 16 + x) * 16 + y) * 16 + z)
          }
      | _ \<Rightarrow> None)"

text \<open>
  An escape, after its backslash: the bytes it stands for and how many bytes it takes. A
  surrogate pair is one code point; a lone surrogate is the replacement character.
\<close>

definition unescape_u :: "string \<Rightarrow> string \<times> nat" where
  "unescape_u s =
     (case getu4 s of
        None \<Rightarrow> (replacement, 5)
      | Some hi \<Rightarrow>
          if hi < 0xD800 \<or> 0xE000 \<le> hi then (encode_rune hi, 5)
          else
            case (if has_prefix [CHR 0x5C, CHR ''u''] (drop 4 s) then getu4 (drop 6 s) else None) of
              Some lo \<Rightarrow>
                if hi < 0xDC00 \<and> 0xDC00 \<le> lo \<and> lo < 0xE000
                then (encode_rune (0x10000 + (hi - 0xD800) * 1024 + (lo - 0xDC00)), 11)
                else (replacement, 5)
            | None \<Rightarrow> (replacement, 5))"

definition unescape :: "string \<Rightarrow> string \<times> nat" where
  "unescape s =
     (case s of
        [] \<Rightarrow> ([], 0)
      | c # r \<Rightarrow>
          if c = CHR ''u'' then unescape_u r
          else if c = CHR ''b'' then ([CHR 0x08], 1)
          else if c = CHR ''f'' then ([CHR 0x0C], 1)
          else if c = CHR ''n'' then ([CHR 0x0A], 1)
          else if c = CHR ''r'' then ([CHR 0x0D], 1)
          else if c = CHR ''t'' then ([CHR 0x09], 1)
          else ([c], 1))"

fun unquote :: "string \<Rightarrow> string" where
  "unquote [] = []"
| "unquote (c # s) =
     (if c = CHR 0x5C then fst (unescape s) @ unquote (drop (snd (unescape s)) s)
      else if utf8_head (c # s) = 0 then replacement @ unquote s
      else take (utf8_head (c # s)) (c # s) @ unquote (drop (utf8_head (c # s) - 1) s))"

lemma utf8_head_ascii: "between 0 0x7F c \<Longrightarrow> utf8_head (c # s) = 1"
  by (simp add: utf8_head_def)

text \<open>A literal of plain ASCII characters stands for itself.\<close>

lemma unquote_ascii:
  "\<forall>c \<in> set s. between 0 0x7F c \<and> c \<noteq> CHR 0x5C \<Longrightarrow> unquote s = s"
  by (induction s) (simp_all add: utf8_head_ascii)

section \<open>Numbers\<close>

text \<open>
  A number decoded into \<open>any\<close> becomes a \<open>float64\<close>, which fails when it overflows: when its
  value rounds to at least \<open>2 ^ 1024\<close>. The literal is \<open>-? digits (. digits)? ([eE] [+-]? digits)?\<close>.
\<close>

definition num_parts :: "string \<Rightarrow> int \<times> int" where
  "num_parts lit =
     (let s = (if has_prefix ''-'' lit then drop 1 lit else lit);
          ip = takeWhile is_digit s; r1 = dropWhile is_digit s;
          fp = (if has_prefix ''.'' r1 then takeWhile is_digit (drop 1 r1) else []);
          r2 = (if has_prefix ''.'' r1 then dropWhile is_digit (drop 1 r1) else r1);
          r3 = drop 1 r2;
          ex = (if r2 = [] then 0
                else if has_prefix ''-'' r3 then - digits_val (drop 1 r3)
                else if has_prefix ''+'' r3 then digits_val (drop 1 r3)
                else digits_val r3)
      in (digits_val (ip @ fp), ex - int (length fp)))"

definition float_overflows :: "string \<Rightarrow> bool" where
  "float_overflows lit =
     (case num_parts lit of (m, e) \<Rightarrow>
        let limit = 2 ^ 1024 - 2 ^ 970 :: int
        in if m = 0 then False
           else if 0 \<le> e then limit \<le> m * 10 ^ nat e
           else limit * 10 ^ nat (- e) \<le> m)"

section \<open>Decoding\<close>

definition type_error :: "'a result" where
  "type_error = Inl (ErrLib ''json: cannot unmarshal'')"

definition bind_result :: "'a result \<Rightarrow> ('a \<Rightarrow> 'b result) \<Rightarrow> 'b result" where
  "bind_result r f = (case r of Inl e \<Rightarrow> Inl e | Inr x \<Rightarrow> f x)"

lemma bind_result_simps [simp]:
  "bind_result (Inl e) f = Inl e" "bind_result (Inr x) f = f x"
  by (simp_all add: bind_result_def)

lemma bind_result_Inr: "bind_result r f = Inr y \<longleftrightarrow> (\<exists>x. r = Inr x \<and> f x = Inr y)"
  by (cases r) auto

text \<open>Into \<open>any\<close>; of members with the same name the last one stays.\<close>

fun to_any :: "json \<Rightarrow> gval result"
  and to_anys :: "json list \<Rightarrow> gval list result"
  and to_members :: "(string \<times> json) list \<Rightarrow> (string, gval) gomap \<Rightarrow> (string, gval) gomap result"
where
  "to_any JNull = Inr VNil"
| "to_any (JBool b) = Inr (VBool b)"
| "to_any (JNum n) = (if float_overflows n then type_error else Inr (VNum n))"
| "to_any (JStr s) = Inr (VStr (unquote s))"
| "to_any (JArr js) = bind_result (to_anys js) (\<lambda>vs. Inr (VArr vs))"
| "to_any (JObj ms) = bind_result (to_members ms []) (\<lambda>m. Inr (VMap m))"
| "to_anys [] = Inr []"
| "to_anys (j # js) =
     bind_result (to_any j) (\<lambda>v. bind_result (to_anys js) (\<lambda>vs. Inr (v # vs)))"
| "to_members [] m = Inr m"
| "to_members ((k, j) # ms) m =
     bind_result (to_any j) (\<lambda>v. to_members ms (AList.update (unquote k) v m))"

lemma to_members_ok: "to_members ms m = Inr m' \<Longrightarrow> gomap_ok m \<Longrightarrow> gomap_ok m'"
proof (induction ms arbitrary: m)
  case Nil
  then show ?case by simp
next
  case (Cons kj ms)
  obtain k j where "kj = (k, j)" by fastforce
  with Cons show ?case by (auto simp: bind_result_Inr)
qed

text \<open>
  Into a field of a given type, over its present value: \<open>null\<close> leaves a string, a time or a
  struct as it is and clears a map or a slice; a second object merges into the same map.
\<close>

type_synonym 'a decoder = "json \<Rightarrow> 'a \<Rightarrow> 'a result"

definition decode_string :: "string decoder" where
  "decode_string j old =
     (case j of JNull \<Rightarrow> Inr old | JStr s \<Rightarrow> Inr (unquote s) | _ \<Rightarrow> type_error)"

definition decode_map :: "anymap decoder" where
  "decode_map j old =
     (case j of
        JNull \<Rightarrow> Inr None
      | JObj ms \<Rightarrow>
          bind_result (to_members ms (case old of None \<Rightarrow> [] | Some m \<Rightarrow> m)) (\<lambda>m. Inr (Some m))
      | _ \<Rightarrow> type_error)"

text \<open>
  \<open>Time.UnmarshalJSON\<close> reads the literal between the quotes as it stands.
\<close>

definition decode_time :: "gotime decoder" where
  "decode_time j old =
     (case j of
        JNull \<Rightarrow> Inr old
      | JStr s \<Rightarrow> (case ParseRFC3339 s of Some t \<Rightarrow> Inr t | None \<Rightarrow> type_error)
      | _ \<Rightarrow> type_error)"

fun decode_all :: "(json \<Rightarrow> 'a result) \<Rightarrow> json list \<Rightarrow> 'a list result" where
  "decode_all f [] = Inr []"
| "decode_all f (j # js) =
     bind_result (f j) (\<lambda>x. bind_result (decode_all f js) (\<lambda>xs. Inr (x # xs)))"

definition decode_slice :: "(json \<Rightarrow> 'a result) \<Rightarrow> 'a list decoder" where
  "decode_slice f j old =
     (case j of JNull \<Rightarrow> Inr [] | JArr js \<Rightarrow> decode_all f js | _ \<Rightarrow> type_error)"

text \<open>
  Member names match field tags up to the case folding of \<open>foldName\<close>: ASCII letters
  whatever their case, and the two other runes that fold to an ASCII letter.
\<close>

definition upper :: "char \<Rightarrow> char" where
  "upper c = (if between 97 122 c then char_of (of_char c - 32 :: nat) else c)"

fun fold_name :: "string \<Rightarrow> string" where
  "fold_name [] = []"
| "fold_name (c # s) =
     (if c = CHR 0xC5 \<and> has_prefix [CHR 0xBF] s then CHR ''S'' # fold_name (drop 1 s)
      else if c = CHR 0xE2 \<and> has_prefix [CHR 0x84, CHR 0xAA] s then CHR ''K'' # fold_name (drop 2 s)
      else upper c # fold_name s)"

fun find_field :: "string \<Rightarrow> (string \<times> 'a decoder) list \<Rightarrow> 'a decoder option" where
  "find_field k [] = None"
| "find_field k ((tag, d) # fs) = (if fold_name k = fold_name tag then Some d else find_field k fs)"

fun decode_members :: "(string \<times> 'a decoder) list \<Rightarrow> (string \<times> json) list \<Rightarrow> 'a \<Rightarrow> 'a result" where
  "decode_members fs [] r = Inr r"
| "decode_members fs ((k, j) # ms) r =
     (case find_field (unquote k) fs of
        None \<Rightarrow> decode_members fs ms r
      | Some d \<Rightarrow> bind_result (d j r) (decode_members fs ms))"

definition decode_struct :: "(string \<times> 'a decoder) list \<Rightarrow> 'a decoder" where
  "decode_struct fs j old =
     (case j of JNull \<Rightarrow> Inr old | JObj ms \<Rightarrow> decode_members fs ms old | _ \<Rightarrow> type_error)"

text \<open>A field of a struct, from its decoder, its selector and its update.\<close>

definition field :: "'b decoder \<Rightarrow> ('a \<Rightarrow> 'b) \<Rightarrow> (('b \<Rightarrow> 'b) \<Rightarrow> 'a \<Rightarrow> 'a) \<Rightarrow> 'a decoder" where
  "field d get upd j r = bind_result (d j (get r)) (\<lambda>x. Inr (upd (\<lambda>_. x) r))"

lemmas decode_defs [go_simps] =
  decode_string_def decode_map_def decode_time_def decode_slice_def decode_struct_def field_def

text \<open>What holds of the record before the members and is kept by each field holds after them.\<close>

lemma find_field_in: "find_field k fs = Some d \<Longrightarrow> \<exists>tag. (tag, d) \<in> set fs"
  by (induction k fs rule: find_field.induct) (auto split: if_splits)

lemma decode_members_inv:
  assumes "decode_members fs ms r = Inr r'" and "P r"
    and "\<And>tag d j s s'. (tag, d) \<in> set fs \<Longrightarrow> P s \<Longrightarrow> d j s = Inr s' \<Longrightarrow> P s'"
  shows "P r'"
  using assms(1,2)
proof (induction ms arbitrary: r)
  case Nil
  then show ?case by simp
next
  case (Cons kj ms)
  obtain k j where kj: "kj = (k, j)" by fastforce
  show ?case
  proof (cases "find_field (unquote k) fs")
    case None
    with Cons kj show ?thesis by simp
  next
    case (Some d)
    with Cons.prems kj obtain s where s: "d j r = Inr s" "decode_members fs ms s = Inr r'"
      by (auto simp: bind_result_Inr)
    obtain tag where "(tag, d) \<in> set fs"
      using find_field_in [OF Some] by blast
    then have "P s"
      using assms(3) Cons.prems(2) s(1) by blast
    with Cons.IH [OF s(2)] show ?thesis
      by blast
  qed
qed

end
