(* ===== verification/Models.thy ===== *)
theory Models
  imports Go_Json
begin

text \<open>
  The domain models of \<open>pkg/models\<close>: links with their lenient decoding, deployments, pipeline
  runs, incidents and the event chain the chain endpoint returns. A struct is a record with
  the fields of the source; a pointer that may be \<open>nil\<close> is an option.
\<close>

section \<open>Links\<close>

record link =
  LinkType :: string
  LinkID :: string

record raw_link =
  raw_LinkType :: string
  raw_LinkID :: string
  raw_LinkKind :: string
  raw_Type :: string
  raw_Target :: string
  raw_From_ContextID :: string

fun models_firstNonEmpty :: "string list \<Rightarrow> string" where
  "models_firstNonEmpty [] = []"
| "models_firstNonEmpty (v # vs) = (if v \<noteq> [] then v else models_firstNonEmpty vs)"

definition zero_raw_link :: raw_link where
  "zero_raw_link =
     \<lparr>raw_LinkType = [], raw_LinkID = [], raw_LinkKind = [], raw_Type = [], raw_Target = [],
      raw_From_ContextID = []\<rparr>"

definition raw_link_fields :: "(string \<times> raw_link decoder) list" where
  "raw_link_fields =
     [(''linkType'', field decode_string raw_LinkType raw_LinkType_update),
      (''linkId'', field decode_string raw_LinkID raw_LinkID_update),
      (''linkKind'', field decode_string raw_LinkKind raw_LinkKind_update),
      (''type'', field decode_string raw_Type raw_Type_update),
      (''target'', field decode_string raw_Target raw_Target_update),
      (''from'', decode_struct
         [(''contextId'', field decode_string raw_From_ContextID raw_From_ContextID_update)])]"

definition link_of_raw :: "raw_link \<Rightarrow> link" where
  "link_of_raw raw =
     \<lparr>LinkType = models_firstNonEmpty [raw_LinkKind raw, raw_LinkType raw, raw_Type raw],
      LinkID = models_firstNonEmpty [raw_LinkID raw, raw_Target raw, raw_From_ContextID raw]\<rparr>"

definition UnmarshalLink :: "json \<Rightarrow> link result" where
  "UnmarshalLink data =
     bind_result (decode_struct raw_link_fields data zero_raw_link) (\<lambda>raw. Inr (link_of_raw raw))"

section \<open>Deployments\<close>

record deployment =
  dep_ID :: string
  dep_Service :: string
  dep_Version :: string
  dep_Environment :: string
  dep_CommitSha :: string
  dep_Repository :: string
  dep_Branch :: string
  dep_Author :: string
  dep_PipelineID :: string
  dep_PipelineURL :: string
  dep_DeployedAt :: gotime
  dep_DeployedBy :: string
  dep_EventID :: string
  dep_ChainID :: string
  dep_Links :: "link list"

section \<open>Pipeline runs\<close>

record pipeline_run =
  run_ID :: string
  run_PipelineName :: string
  run_Status :: string
  run_Outcome :: string
  run_StartedAt :: gotime
  run_FinishedAt :: "gotime option"
  run_Source :: string
  run_PipelineURL :: string
  run_CommitSha :: string
  run_Branch :: string
  run_Repository :: string
  run_Author :: string
  run_EventID :: string
  run_ChainID :: string
  run_Links :: "link list"

definition pipeline_Duration :: "pipeline_run \<Rightarrow> duration option" where
  "pipeline_Duration p =
     (case run_FinishedAt p of
        None \<Rightarrow> None
      | Some finished \<Rightarrow> Some (Sub finished (run_StartedAt p)))"

section \<open>Incidents\<close>

record incident =
  inc_ID :: string
  inc_Service :: string
  inc_Environment :: string
  inc_Severity :: string
  inc_Description :: string
  inc_Status :: string
  inc_DetectedAt :: gotime
  inc_ResolvedAt :: "gotime option"
  inc_RootCause :: string
  inc_EventID :: string
  inc_ChainID :: string
  inc_DeploymentID :: string
  inc_Links :: "link list"
  inc_LinkedDeployment :: "deployment option"

definition incident_Duration :: "incident \<Rightarrow> duration option" where
  "incident_Duration i =
     (case inc_ResolvedAt i of
        None \<Rightarrow> None
      | Some resolved \<Rightarrow> Some (Sub resolved (inc_DetectedAt i)))"

section \<open>Event chains\<close>

record chain_event =
  ce_ID :: string
  ce_Type :: string
  ce_Timestamp :: gotime
  ce_Summary :: string
  ce_Commit :: string
  ce_Links :: "link list"

record root_cause =
  rc_Commit :: string
  rc_Author :: string
  rc_Message :: string
  rc_Repository :: string

record event_chain =
  chain_ChainID :: string
  chain_StartEvent :: string
  chain_Events :: "chain_event list"
  chain_RootCause :: "root_cause option"

section \<open>Lemmas\<close>

lemma models_firstNonEmpty_first: "v \<noteq> [] \<Longrightarrow> models_firstNonEmpty (v # vs) = v"
  by simp

lemma models_firstNonEmpty_skip: "models_firstNonEmpty ([] # vs) = models_firstNonEmpty vs"
  by simp

lemma models_firstNonEmpty_empty: "models_firstNonEmpty vs = [] \<longleftrightarrow> (\<forall>v \<in> set vs. v = [])"
  by (induction vs) auto

text \<open>
  The members of a link object are tagged by ASCII names, so the decoder below computes on
  literal documents.
\<close>

lemmas link_decoding =
  UnmarshalLink_def decode_struct_def raw_link_fields_def zero_raw_link_def link_of_raw_def
  field_def decode_string_def

end
