(* ===== verification/Event_Types.thy ===== *)
theory Event_Types
  imports Models
begin

text \<open>
  The events of \<open>internal/cdevents/types.go\<close>: the incoming CDEvent, the stored event, the
  reduction of a versioned type string to its subject and predicate, and the event kinds.
\<close>

section \<open>Event kinds\<close>

definition KindServiceDeployed :: string where
  "KindServiceDeployed = ''service.deployed''"

definition KindServiceUpgraded :: string where
  "KindServiceUpgraded = ''service.upgraded''"

definition KindServiceRolledback :: string where
  "KindServiceRolledback = ''service.rolledback''"

definition KindPipelineRunQueued :: string where
  "KindPipelineRunQueued = ''pipelinerun.queued''"

definition KindPipelineRunStarted :: string where
  "KindPipelineRunStarted = ''pipelinerun.started''"

definition KindPipelineRunFinish :: string where
  "KindPipelineRunFinish = ''pipelinerun.finished''"

definition KindChangeMerged :: string where
  "KindChangeMerged = ''change.merged''"

definition KindIncidentDetected :: string where
  "KindIncidentDetected = ''incident.detected''"

definition KindIncidentReported :: string where
  "KindIncidentReported = ''incident.reported''"

definition KindIncidentResolved :: string where
  "KindIncidentResolved = ''incident.resolved''"

lemmas kind_defs =
  KindServiceDeployed_def KindServiceUpgraded_def KindServiceRolledback_def
  KindPipelineRunQueued_def KindPipelineRunStarted_def KindPipelineRunFinish_def
  KindChangeMerged_def KindIncidentDetected_def KindIncidentReported_def KindIncidentResolved_def

section \<open>Events\<close>

record event_context =
  ctx_Version :: string
  ctx_ID :: string
  ctx_Source :: string
  ctx_Type :: string
  ctx_Timestamp :: gotime
  ctx_ChainID :: string
  ctx_Links :: "link list"

record event_subject =
  subj_ID :: string
  subj_Source :: string
  subj_Type :: string
  subj_Content :: anymap

record cdevent =
  Context :: event_context
  Subject :: event_subject
  CustomData :: anymap
  Links :: "link list"

text \<open>
  The \<open>RawData\<close> of a stored event is a map from section names to the two dynamic maps of the
  event it was made from.
\<close>

record stored_event =
  ev_ID :: string
  ev_Type :: string
  ev_Source :: string
  ev_Timestamp :: gotime
  ev_SubjectID :: string
  ev_SubjectType :: string
  ev_ChainID :: string
  ev_Links :: "link list"
  ev_Summary :: string
  ev_RawData :: anymap

section \<open>Short types\<close>

text \<open>A byte is compared here where the source ranges over runes: only ASCII digits pass both.\<close>

definition isVersionSegment :: "string \<Rightarrow> bool" where
  "isVersionSegment s =
     (case s of
        [] \<Rightarrow> False
      | c # r \<Rightarrow>
          let s' = (if c = CHR ''v'' \<or> c = CHR ''V'' then r else s)
          in if s' = [] then False else list_all is_digit s')"

text \<open>The loop that drops trailing version segments while more than two parts are left.\<close>

function drop_versions :: "string list \<Rightarrow> string list" where
  "drop_versions parts =
     (if 2 < length parts \<and> isVersionSegment (last parts)
      then drop_versions (butlast parts) else parts)"
  by pat_completeness auto
termination
  by (relation "measure length") auto

declare drop_versions.simps [simp del]

definition ShortType :: "string \<Rightarrow> string" where
  "ShortType eventType =
     (let parts = split_on CHR ''.'' (trim_space eventType)
      in if 4 \<le> length parts \<and> parts ! 0 = ''dev'' \<and> parts ! 1 = ''cdevents''
         then parts ! 2 @ ''.'' @ parts ! 3
         else
           let parts = drop_versions parts
           in if 2 \<le> length parts
              then parts ! (length parts - 2) @ ''.'' @ parts ! (length parts - 1)
              else eventType)"

definition event_ShortType :: "cdevent \<Rightarrow> string" where
  "event_ShortType e = ShortType (ctx_Type (Context e))"

definition stored_ShortType :: "stored_event \<Rightarrow> string" where
  "stored_ShortType e = ShortType (ev_Type e)"

definition IsDeployment :: "cdevent \<Rightarrow> bool" where
  "IsDeployment e =
     (let k = event_ShortType e
      in k = KindServiceDeployed \<or> k = KindServiceUpgraded \<or> k = KindServiceRolledback)"

section \<open>Facts on short types\<close>

lemma drop_versions_length: "2 \<le> length ps \<Longrightarrow> 2 \<le> length (drop_versions ps)"
  by (induction ps rule: drop_versions.induct) (subst drop_versions.simps, auto)

lemma drop_versions_short: "length ps \<le> 2 \<Longrightarrow> drop_versions ps = ps"
  by (subst drop_versions.simps) auto

lemma drop_versions_append:
  assumes "2 \<le> length ps" and "list_all isVersionSegment vs"
  shows "drop_versions (ps @ vs) = drop_versions ps"
  using assms(2)
proof (induction vs rule: rev_induct)
  case Nil
  then show ?case by simp
next
  case (snoc v vs)
  have "drop_versions (ps @ vs @ [v]) = drop_versions (butlast (ps @ vs @ [v]))"
    using snoc.prems assms(1) by (subst drop_versions.simps) (simp add: butlast_append)
  also have "\<dots> = drop_versions (ps @ vs)"
    by (simp add: butlast_append)
  finally show ?case
    using snoc by simp
qed

text \<open>
  The reduction in closed form, on a type string given by its parts: a CDEvents type, and a
  bare subject and predicate followed by version segments.
\<close>

lemma ShortType_parts:
  assumes "trim_space t = t" and "split_on CHR ''.'' t = ps"
  shows "ShortType t =
    (if 4 \<le> length ps \<and> ps ! 0 = ''dev'' \<and> ps ! 1 = ''cdevents'' then ps ! 2 @ ''.'' @ ps ! 3
     else if 2 \<le> length ps then
       (let qs = drop_versions ps in qs ! (length qs - 2) @ ''.'' @ qs ! (length qs - 1))
     else t)"
proof -
  have "2 \<le> length (drop_versions ps) \<longleftrightarrow> 2 \<le> length ps"
    using drop_versions_length drop_versions_short [of ps] by (cases "2 \<le> length ps") auto
  with assms show ?thesis
    by (simp add: ShortType_def Let_def)
qed

lemma trim_space_last:
  assumes "t = u @ [c]" and "between 33 126 c"
    and "strip_any go_spaces t = None"
  shows "trim_space t = t"
proof -
  have "c \<noteq> CHR 0x09" "c \<noteq> CHR 0x0A" "c \<noteq> CHR 0x0B" "c \<noteq> CHR 0x0C" "c \<noteq> CHR 0x0D" "c \<noteq> CHR 0x20"
    "c \<noteq> CHR 0x85" "c \<noteq> CHR 0xA0" "c \<noteq> CHR 0x80" "c \<noteq> CHR 0x81" "c \<noteq> CHR 0x82" "c \<noteq> CHR 0x83"
    "c \<noteq> CHR 0x84" "c \<noteq> CHR 0x86" "c \<noteq> CHR 0x87" "c \<noteq> CHR 0x88" "c \<noteq> CHR 0x89" "c \<noteq> CHR 0x8A"
    "c \<noteq> CHR 0xA8" "c \<noteq> CHR 0xA9" "c \<noteq> CHR 0xAF" "c \<noteq> CHR 0x9F"
    using assms(2) by (auto simp: between_def)
  then have "strip_any (map rev go_spaces) (rev t) = None"
    by (simp add: go_spaces_def has_prefix_def assms(1))
  then show ?thesis
    using assms(3) by (rule trim_space_id [rotated])
qed

text \<open>
  A CDEvents type string, with any version after it and any white space around it, reduces
  to its subject and predicate.
\<close>

theorem ShortType_versioned:
  assumes "CHR ''.'' \<notin> set s" and "CHR ''.'' \<notin> set p" and "\<forall>v \<in> set vs. CHR ''.'' \<notin> set v"
    and "trim_space t = join ''.'' (''dev'' # ''cdevents'' # s # p # vs)"
  shows "ShortType t = s @ ''.'' @ p"
proof -
  have "split_on CHR ''.'' (trim_space t) = ''dev'' # ''cdevents'' # s # p # vs"
    unfolding assms(4) by (rule split_on_join) (use assms(1-3) in auto)
  then show ?thesis
    by (simp add: ShortType_def)
qed

theorem ShortType_versioned_witness:
  "ShortType ''  dev.cdevents.service.deployed.0.1.1 '' = ''service.deployed''"
proof -
  have "trim_space ''  dev.cdevents.service.deployed.0.1.1 '' =
      join ''.'' (''dev'' # ''cdevents'' # ''service'' # ''deployed'' # [''0'', ''1'', ''1''])"
    by code_simp
  from ShortType_versioned [OF _ _ _ this] show ?thesis
    by simp
qed

text \<open>
  Without the \<open>dev.cdevents\<close> prefix, a subject and a predicate followed by any number of
  version segments reduce to the subject and the predicate, so that the short and the long
  spelling of a kind dispatch alike.
\<close>

theorem ShortType_bare:
  assumes "CHR ''.'' \<notin> set s" and "CHR ''.'' \<notin> set p" and "\<forall>v \<in> set vs. CHR ''.'' \<notin> set v"
    and "list_all isVersionSegment vs" and "s \<noteq> ''dev'' \<or> p \<noteq> ''cdevents''"
    and "trim_space t = join ''.'' (s # p # vs)"
  shows "ShortType t = s @ ''.'' @ p"
proof -
  have parts: "split_on CHR ''.'' (trim_space t) = [s, p] @ vs"
    unfolding assms(6) using split_on_join [of "s # p # vs" "CHR ''.''"] assms(1-3) by auto
  have "drop_versions ([s, p] @ vs) = [s, p]"
    using drop_versions_append [OF _ assms(4), of "[s, p]"] by (simp add: drop_versions_short)
  with parts assms(5) show ?thesis
    by (auto simp: ShortType_def Let_def)
qed

theorem ShortType_bare_witness: "ShortType ''service.deployed.v1.2'' = ''service.deployed''"
proof -
  have "trim_space ''service.deployed.v1.2'' = join ''.'' (''service'' # ''deployed'' # [''v1'', ''2''])"
    by code_simp
  moreover have "list_all isVersionSegment [''v1'', ''2'']"
    by code_simp
  ultimately show ?thesis
    using ShortType_bare [of "''service''" "''deployed''" "[''v1'', ''2'']"] by simp
qed

end
