(* ===== verification/Storage.thy ===== *)
theory Storage
  imports Event_Types
begin

text \<open>
  The storage abstraction of \<open>internal/storage/interface.go\<close>: the interface as a record of
  operations that thread the state of a backend, the list filter, the newest-first orders, and
  the contract every backend owes its clients, as a locale.
\<close>

section \<open>The interface\<close>

text \<open>
  A call gets the text of its context's error at the time of the call, \<^term>\<open>None\<close> while the
  context is alive. A pointer argument may be \<open>nil\<close>; a returned pointer is not, unless an error is
  returned with it.
\<close>

type_synonym ctx = "string option"

record ListFilter =
  lf_Environment :: string
  lf_Since :: gotime
  lf_Limit :: int

record 's storage =
  SaveDeployment :: "ctx \<Rightarrow> deployment option \<Rightarrow> 's \<Rightarrow> unit result \<times> 's"
  GetDeployment :: "ctx \<Rightarrow> string \<Rightarrow> string \<Rightarrow> 's \<Rightarrow> deployment result \<times> 's"
  GetLatestDeployment :: "ctx \<Rightarrow> string \<Rightarrow> 's \<Rightarrow> deployment result \<times> 's"
  ListDeployments :: "ctx \<Rightarrow> ListFilter \<Rightarrow> 's \<Rightarrow> deployment list result \<times> 's"
  SaveEvent :: "ctx \<Rightarrow> stored_event option \<Rightarrow> 's \<Rightarrow> unit result \<times> 's"
  GetEvent :: "ctx \<Rightarrow> string \<Rightarrow> 's \<Rightarrow> stored_event result \<times> 's"
  GetEventsByChain :: "ctx \<Rightarrow> string \<Rightarrow> 's \<Rightarrow> stored_event list result \<times> 's"
  Ping :: "ctx \<Rightarrow> 's \<Rightarrow> unit result \<times> 's"
  Close :: "'s \<Rightarrow> unit result \<times> 's"

section \<open>Filters and orders\<close>

definition filter_matches :: "ListFilter \<Rightarrow> deployment \<Rightarrow> bool" where
  "filter_matches f d =
     (if lf_Environment f \<noteq> [] \<and> dep_Environment d \<noteq> lf_Environment f then False
      else if \<not> IsZero (lf_Since f) \<and> Before (dep_DeployedAt d) (lf_Since f) then False
      else True)"

definition deployment_newer :: "deployment \<Rightarrow> deployment \<Rightarrow> bool" where
  "deployment_newer a b =
     (if \<not> Equal (dep_DeployedAt a) (dep_DeployedAt b) then After (dep_DeployedAt a) (dep_DeployedAt b)
      else if dep_Service a \<noteq> dep_Service b then dep_Service a < dep_Service b
      else dep_Environment a < dep_Environment b)"

definition sortDeploymentsNewestFirst :: "deployment list \<Rightarrow> deployment list" where
  "sortDeploymentsNewestFirst deployments = slice_stable deployment_newer deployments"

definition applyFilter :: "deployment list \<Rightarrow> ListFilter \<Rightarrow> deployment list" where
  "applyFilter deployments f =
     (let res = sortDeploymentsNewestFirst (filter (filter_matches f) deployments)
      in if 0 < lf_Limit f \<and> lf_Limit f < int (length res) then take (nat (lf_Limit f)) res else res)"

definition latestDeployment :: "deployment list \<Rightarrow> deployment result" where
  "latestDeployment deployments =
     (if length deployments = 0 then Inl ErrNotFound
      else Inr (sortDeploymentsNewestFirst deployments ! 0))"

definition event_newer :: "stored_event \<Rightarrow> stored_event \<Rightarrow> bool" where
  "event_newer a b =
     (if \<not> Equal (ev_Timestamp a) (ev_Timestamp b) then After (ev_Timestamp a) (ev_Timestamp b)
      else ev_ID a < ev_ID b)"

definition sortEventsNewestFirst :: "stored_event list \<Rightarrow> stored_event list" where
  "sortEventsNewestFirst events = slice_stable event_newer events"

section \<open>The orders meet the sort interface\<close>

definition deployment_key :: "deployment \<Rightarrow> (string \<times> string) newest" where
  "deployment_key d = Newest (gt_ns (dep_DeployedAt d)) (dep_Service d, dep_Environment d)"

definition event_key :: "stored_event \<Rightarrow> string newest" where
  "event_key e = Newest (gt_ns (ev_Timestamp e)) (ev_ID e)"

interpretation dep_order: slice_order deployment_newer deployment_key
  by unfold_locales (auto simp: deployment_newer_def deployment_key_def go_simps)

interpretation ev_order: slice_order event_newer event_key
  by unfold_locales (auto simp: event_newer_def event_key_def go_simps)

lemma sortDeployments_set [simp]: "set (sortDeploymentsNewestFirst ds) = set ds"
  by (simp add: sortDeploymentsNewestFirst_def dep_order.slice_stable_set)

lemma sortDeployments_length [simp]: "length (sortDeploymentsNewestFirst ds) = length ds"
  by (simp add: sortDeploymentsNewestFirst_def dep_order.slice_stable_length)

lemma sortDeployments_mset [simp]: "mset (sortDeploymentsNewestFirst ds) = mset ds"
  by (simp add: sortDeploymentsNewestFirst_def dep_order.slice_stable_mset)

lemma sortDeployments_sorted: "sorted (map deployment_key (sortDeploymentsNewestFirst ds))"
  by (simp add: sortDeploymentsNewestFirst_def dep_order.slice_stable_sorted)

lemma sortEvents_set [simp]: "set (sortEventsNewestFirst es) = set es"
  by (simp add: sortEventsNewestFirst_def ev_order.slice_stable_set)

lemma sortEvents_length [simp]: "length (sortEventsNewestFirst es) = length es"
  by (simp add: sortEventsNewestFirst_def ev_order.slice_stable_length)

lemma sortEvents_mset [simp]: "mset (sortEventsNewestFirst es) = mset es"
  by (simp add: sortEventsNewestFirst_def ev_order.slice_stable_mset)

lemma sortEvents_sorted: "sorted (map event_key (sortEventsNewestFirst es))"
  by (simp add: sortEventsNewestFirst_def ev_order.slice_stable_sorted)

lemma sortEvents_distinct [simp]: "distinct (sortEventsNewestFirst es) = distinct es"
  by (metis mset_eq_imp_distinct_iff sortEvents_mset)

lemma event_key_inj: "inj_on ev_ID A \<Longrightarrow> inj_on event_key A"
  by (auto simp: inj_on_def event_key_def)

lemma sortEvents_perm:
  assumes "mset xs = mset ys" and "inj_on ev_ID (set xs)"
  shows "sortEventsNewestFirst xs = sortEventsNewestFirst ys"
  unfolding sortEventsNewestFirst_def
  using assms(1) event_key_inj [OF assms(2)] by (rule ev_order.slice_stable_perm)

lemma sortDeployments_perm:
  assumes "mset xs = mset ys"
    and "inj_on (\<lambda>d. (dep_Service d, dep_Environment d)) (set xs)"
  shows "sortDeploymentsNewestFirst xs = sortDeploymentsNewestFirst ys"
  unfolding sortDeploymentsNewestFirst_def using assms(1)
  by (rule dep_order.slice_stable_perm)
    (use assms(2) in \<open>auto simp: inj_on_def deployment_key_def\<close>)

lemma sorted_take_le:
  assumes "sorted (map key xs)" and "x \<in> set (take n xs)" and "y \<in> set (drop n xs)"
  shows "key x \<le> (key y :: 'k::linorder)"
proof -
  from assms(1) have "sorted (map key (take n xs) @ map key (drop n xs))"
    by (simp flip: map_append)
  with assms(2,3) show ?thesis
    unfolding sorted_append by auto
qed

text \<open>The listing in one statement: the newest matching deployments, as many as the limit allows.\<close>

definition listing_of :: "ListFilter \<Rightarrow> deployment list \<Rightarrow> deployment list \<Rightarrow> bool" where
  "listing_of f all res \<longleftrightarrow>
     sorted (map deployment_key res) \<and> set res \<subseteq> {d \<in> set all. filter_matches f d} \<and>
     length res = (let n = length (filter (filter_matches f) all)
                   in if 0 < lf_Limit f then min n (nat (lf_Limit f)) else n) \<and>
     (\<forall>d \<in> set all. filter_matches f d \<and> d \<notin> set res \<longrightarrow>
        (\<forall>d' \<in> set res. deployment_key d' \<le> deployment_key d))"

lemma applyFilter_listing: "listing_of f all (applyFilter all f)"
proof -
  let ?xs = "sortDeploymentsNewestFirst (filter (filter_matches f) all)"
  define n where "n = (if 0 < lf_Limit f then nat (lf_Limit f) else length ?xs)"
  have res: "applyFilter all f = take n ?xs"
    by (auto simp: applyFilter_def Let_def n_def)
  have s: "sorted (map deployment_key ?xs)"
    by (rule sortDeployments_sorted)
  have "sorted (map deployment_key (take n ?xs))"
    using sorted_wrt_take [OF s, of n] by (simp add: take_map)
  moreover have "set (take n ?xs) \<subseteq> {d \<in> set all. filter_matches f d}"
    using set_take_subset [of n ?xs] by auto
  moreover have "deployment_key d' \<le> deployment_key d"
    if "d \<in> set all" "filter_matches f d" "d \<notin> set (take n ?xs)" "d' \<in> set (take n ?xs)" for d d'
  proof -
    from that(1,2) have "d \<in> set ?xs" by simp
    with that(3) have "d \<in> set (drop n ?xs)"
      by (metis UnE append_take_drop_id set_append)
    with s that(4) show ?thesis
      by (rule sorted_take_le)
  qed
  ultimately show ?thesis
    by (simp add: listing_of_def res n_def min.commute)
qed

lemma latestDeployment_Inr:
  "latestDeployment ds = Inr d \<Longrightarrow>
     d \<in> set ds \<and> (\<forall>d' \<in> set ds. deployment_key d \<le> deployment_key d')"
proof -
  assume l: "latestDeployment ds = Inr d"
  then have ne: "ds \<noteq> []" and "d = sortDeploymentsNewestFirst ds ! 0"
    by (auto simp: latestDeployment_def split: if_splits)
  then have "d = hd (slice_stable deployment_newer ds)"
    using sortDeployments_length [of ds]
    by (simp add: sortDeploymentsNewestFirst_def hd_conv_nth flip: length_greater_0_conv)
  with dep_order.slice_stable_hd [OF ne] show ?thesis
    by blast
qed

lemma latestDeployment_Inl: "latestDeployment ds = Inl err \<longleftrightarrow> ds = [] \<and> err = ErrNotFound"
  by (auto simp: latestDeployment_def)

section \<open>The contract of a backend\<close>

text \<open>
  Abstractly a backend is two maps: the deployment that runs at a service and an environment,
  and the event of an id. \<open>key_ok\<close> says which pairs the backend keeps apart. Every operation
  may fail; when it does not, it acts on the two maps as its name says, and a missing record is
  the only reason for an error that is \<open>ErrNotFound\<close>.
\<close>

locale storage_contract =
  fixes S :: "'s storage"
    and inv :: "'s \<Rightarrow> bool"
    and deps :: "'s \<Rightarrow> string \<times> string \<Rightarrow> deployment option"
    and evs :: "'s \<Rightarrow> string \<Rightarrow> stored_event option"
    and key_ok :: "string \<Rightarrow> string \<Rightarrow> bool"
  assumes save_dep: "inv s \<Longrightarrow> key_ok (dep_Service d) (dep_Environment d) \<Longrightarrow>
      SaveDeployment S ctx (Some d) s = (Inr (), s') \<Longrightarrow>
      inv s' \<and> deps s' = (deps s)((dep_Service d, dep_Environment d) \<mapsto> d) \<and> evs s' = evs s"
    and save_dep_fail: "SaveDeployment S ctx od s = (Inl err, s') \<Longrightarrow> s' = s"
    and save_ev: "inv s \<Longrightarrow> SaveEvent S ctx (Some e) s = (Inr (), s') \<Longrightarrow>
      inv s' \<and> deps s' = deps s \<and> evs s' = (evs s)(ev_ID e \<mapsto> e)"
    and save_ev_fail: "SaveEvent S ctx oe s = (Inl err, s') \<Longrightarrow> s' = s"
    and get_dep: "inv s \<Longrightarrow> key_ok svc env \<Longrightarrow> GetDeployment S ctx svc env s = (rd, s') \<Longrightarrow>
      s' = s \<and> (\<forall>d. rd = Inr d \<longrightarrow> deps s (svc, env) = Some d) \<and>
      (\<forall>err. rd = Inl err \<and> errors_is err ErrNotFound \<longrightarrow> deps s (svc, env) = None)"
    and get_latest: "inv s \<Longrightarrow> GetLatestDeployment S ctx svc s = (rd, s') \<Longrightarrow>
      s' = s \<and>
      (\<forall>d. rd = Inr d \<longrightarrow> d \<in> ran (deps s) \<and> dep_Service d = svc \<and>
         (\<forall>d' \<in> ran (deps s). dep_Service d' = svc \<longrightarrow> deployment_key d \<le> deployment_key d')) \<and>
      (\<forall>err. rd = Inl err \<and> errors_is err ErrNotFound \<longrightarrow> (\<forall>d' \<in> ran (deps s). dep_Service d' \<noteq> svc))"
    and list_deps: "inv s \<Longrightarrow> ListDeployments S ctx f s = (rl, s') \<Longrightarrow>
      s' = s \<and> (\<forall>ds. rl = Inr ds \<longrightarrow>
        (\<exists>all. distinct all \<and> set all = ran (deps s) \<and> listing_of f all ds))"
    and get_ev: "inv s \<Longrightarrow> GetEvent S ctx eid s = (re, s') \<Longrightarrow>
      s' = s \<and> (\<forall>e. re = Inr e \<longrightarrow> evs s eid = Some e) \<and>
      (\<forall>err. re = Inl err \<and> errors_is err ErrNotFound \<longrightarrow> evs s eid = None)"
    and get_chain: "inv s \<Longrightarrow> GetEventsByChain S ctx c s = (rc, s') \<Longrightarrow>
      s' = s \<and> (\<forall>es. rc = Inr es \<longrightarrow> distinct es \<and> sorted (map event_key es) \<and>
        set es = {e \<in> ran (evs s). c \<noteq> [] \<and> ev_ChainID e = c})"
    and dep_at: "inv s \<Longrightarrow> deps s (svc, env) = Some d \<Longrightarrow>
      dep_Service d = svc \<and> dep_Environment d = env"
    and ev_at: "inv s \<Longrightarrow> evs s eid = Some e \<Longrightarrow> ev_ID e = eid"
begin

lemma ev_ID_inj: "inv s \<Longrightarrow> inj_on ev_ID (ran (evs s))"
  by (rule inj_onI) (auto simp: ran_def, metis ev_at option.inject)

lemma get_ev_state [simp]: "inv s \<Longrightarrow> snd (GetEvent S ctx eid s) = s"
  by (metis get_ev prod.collapse)

lemma get_ev_found: "inv s \<Longrightarrow> fst (GetEvent S ctx eid s) = Inr e \<Longrightarrow> evs s eid = Some e"
  by (metis get_ev prod.collapse)

lemma get_ev_missing:
  "inv s \<Longrightarrow> fst (GetEvent S ctx eid s) = Inl err \<Longrightarrow> errors_is err ErrNotFound \<Longrightarrow> evs s eid = None"
  by (metis get_ev prod.collapse)

text \<open>After a save that succeeded, every lookup that answers returns what was saved last.\<close>

lemma dep_read_your_write:
  assumes "inv s" and "key_ok (dep_Service d) (dep_Environment d)"
    and "SaveDeployment S ctx (Some d) s = (Inr (), s1)" and "key_ok svc env"
    and "GetDeployment S ctx' svc env s1 = (Inr d', s2)"
  shows "s2 = s1 \<and> (if (svc, env) = (dep_Service d, dep_Environment d) then d' = d
    else deps s (svc, env) = Some d')"
  using save_dep [OF assms(1-3)] get_dep [OF _ assms(4,5)] by auto

lemma ev_read_your_write:
  assumes "inv s" and "SaveEvent S ctx (Some e) s = (Inr (), s1)"
    and "GetEvent S ctx' eid s1 = (Inr e', s2)"
  shows "s2 = s1 \<and> (if eid = ev_ID e then e' = e else evs s eid = Some e')"
  using save_ev [OF assms(1,2)] get_ev [OF _ assms(3)] by auto

lemma saved_event_in_chain:
  assumes "inv s" and "SaveEvent S ctx (Some e) s = (Inr (), s1)"
    and "GetEventsByChain S ctx' c s1 = (Inr es, s2)" and "c \<noteq> []"
  shows "e \<in> set es \<longleftrightarrow> ev_ChainID e = c"
proof -
  from save_ev [OF assms(1,2)] have "inv s1" and "evs s1 (ev_ID e) = Some e" by auto
  with get_chain [OF this(1) assms(3)] assms(4) show ?thesis
    by (auto simp: ran_def)
qed

end

text \<open>
  A backend that never fails while the context is alive answers every call: the further
  contract of a backend that lives in the memory of the process.
\<close>

locale storage_live = storage_contract +
  assumes live_save_dep: "\<exists>s'. SaveDeployment S None (Some d) s = (Inr (), s')"
    and live_save_ev: "\<exists>s'. SaveEvent S None (Some e) s = (Inr (), s')"
    and live_get_dep: "fst (GetDeployment S None svc env s) = Inl err \<Longrightarrow> err = ErrNotFound"
    and live_get_latest: "fst (GetLatestDeployment S None svc s) = Inl err \<Longrightarrow> err = ErrNotFound"
    and live_get_ev: "fst (GetEvent S None eid s) = Inl err \<Longrightarrow> err = ErrNotFound"
    and live_chain: "\<exists>es. fst (GetEventsByChain S None c s) = Inr es"
    and live_list: "\<exists>ds. fst (ListDeployments S None f s) = Inr ds"
begin

lemma live_get_ev_eq:
  assumes "inv s"
  shows "GetEvent S None eid s =
    (case evs s eid of None \<Rightarrow> Inl ErrNotFound | Some e \<Rightarrow> Inr e, s)"
proof -
  obtain r s' where g: "GetEvent S None eid s = (r, s')" by (cases "GetEvent S None eid s")
  with get_ev [OF assms g] live_get_ev [of eid s] show ?thesis
    by (cases r) auto
qed

lemma live_get_dep_eq:
  assumes "inv s" and "key_ok svc env"
  shows "GetDeployment S None svc env s =
    (case deps s (svc, env) of None \<Rightarrow> Inl ErrNotFound | Some d \<Rightarrow> Inr d, s)"
proof -
  obtain r s' where g: "GetDeployment S None svc env s = (r, s')"
    by (cases "GetDeployment S None svc env s")
  with get_dep [OF assms g] live_get_dep [of svc env s] show ?thesis
    by (cases r) auto
qed

end

end
