(* ===== verification/Memory_Storage.thy ===== *)
theory Memory_Storage
  imports Storage
begin

text \<open>
  The in-memory backend of \<open>internal/storage/memory.go\<close>: two Go maps, every operation of the
  interface, its representation invariant, and the proof that it honours the storage contract.
  Each operation takes the lock for its whole access to the maps, so it is one atomic step.
\<close>

section \<open>State and operations\<close>

record memory =
  mem_deployments :: "(string, deployment) gomap"
  mem_events :: "(string, stored_event) gomap"

text \<open>The order in which \<open>range\<close> visits the two maps, chosen by the Go runtime.\<close>

record visit_order =
  visit_deployments :: "deployment list \<Rightarrow> deployment list"
  visit_events :: "stored_event list \<Rightarrow> stored_event list"

definition NewMemoryStorage :: memory where
  "NewMemoryStorage = \<lparr>mem_deployments = [], mem_events = []\<rparr>"

definition deploymentKey :: "string \<Rightarrow> string \<Rightarrow> string" where
  "deploymentKey service environment = service @ CHR 0x00 # environment"

definition mem_SaveDeployment :: "ctx \<Rightarrow> deployment option \<Rightarrow> memory \<Rightarrow> unit result \<times> memory" where
  "mem_SaveDeployment ctx od m =
     (case ctx of
        Some err \<Rightarrow> (Inl (ErrCtx err), m)
      | None \<Rightarrow>
          (case od of
             None \<Rightarrow> (Inl (ErrNew ''deployment is nil''), m)
           | Some d \<Rightarrow>
               (Inr (), m\<lparr>mem_deployments :=
                  AList.update (deploymentKey (dep_Service d) (dep_Environment d)) d
                    (mem_deployments m)\<rparr>)))"

definition mem_GetDeployment ::
  "ctx \<Rightarrow> string \<Rightarrow> string \<Rightarrow> memory \<Rightarrow> deployment result \<times> memory" where
  "mem_GetDeployment ctx service environment m =
     (case ctx of
        Some err \<Rightarrow> (Inl (ErrCtx err), m)
      | None \<Rightarrow>
          (case map_of (mem_deployments m) (deploymentKey service environment) of
             None \<Rightarrow> (Inl ErrNotFound, m)
           | Some d \<Rightarrow> (Inr d, m)))"

definition mem_GetLatestDeployment ::
  "visit_order \<Rightarrow> ctx \<Rightarrow> string \<Rightarrow> memory \<Rightarrow> deployment result \<times> memory" where
  "mem_GetLatestDeployment rng ctx service m =
     (case ctx of
        Some err \<Rightarrow> (Inl (ErrCtx err), m)
      | None \<Rightarrow>
          (latestDeployment
             (filter (\<lambda>d. dep_Service d = service)
               (visit_deployments rng (map snd (mem_deployments m)))), m))"

definition mem_ListDeployments ::
  "visit_order \<Rightarrow> ctx \<Rightarrow> ListFilter \<Rightarrow> memory \<Rightarrow> deployment list result \<times> memory" where
  "mem_ListDeployments rng ctx f m =
     (case ctx of
        Some err \<Rightarrow> (Inl (ErrCtx err), m)
      | None \<Rightarrow> (Inr (applyFilter (visit_deployments rng (map snd (mem_deployments m))) f), m))"

definition mem_SaveEvent :: "ctx \<Rightarrow> stored_event option \<Rightarrow> memory \<Rightarrow> unit result \<times> memory" where
  "mem_SaveEvent ctx oe m =
     (case ctx of
        Some err \<Rightarrow> (Inl (ErrCtx err), m)
      | None \<Rightarrow>
          (case oe of
             None \<Rightarrow> (Inl (ErrNew ''event is nil''), m)
           | Some event \<Rightarrow>
               (Inr (), m\<lparr>mem_events := AList.update (ev_ID event) event (mem_events m)\<rparr>)))"

definition mem_GetEvent :: "ctx \<Rightarrow> string \<Rightarrow> memory \<Rightarrow> stored_event result \<times> memory" where
  "mem_GetEvent ctx eventID m =
     (case ctx of
        Some err \<Rightarrow> (Inl (ErrCtx err), m)
      | None \<Rightarrow>
          (case map_of (mem_events m) eventID of
             None \<Rightarrow> (Inl ErrNotFound, m)
           | Some event \<Rightarrow> (Inr event, m)))"

definition mem_GetEventsByChain ::
  "visit_order \<Rightarrow> ctx \<Rightarrow> string \<Rightarrow> memory \<Rightarrow> stored_event list result \<times> memory" where
  "mem_GetEventsByChain rng ctx chainID m =
     (case ctx of
        Some err \<Rightarrow> (Inl (ErrCtx err), m)
      | None \<Rightarrow>
          if chainID = [] then (Inr [], m)
          else
            (Inr (sortEventsNewestFirst
               (filter (\<lambda>e. ev_ChainID e = chainID) (visit_events rng (map snd (mem_events m))))), m))"

definition mem_Ping :: "ctx \<Rightarrow> memory \<Rightarrow> unit result \<times> memory" where
  "mem_Ping ctx m = (case ctx of Some err \<Rightarrow> (Inl (ErrCtx err), m) | None \<Rightarrow> (Inr (), m))"

definition mem_Close :: "memory \<Rightarrow> unit result \<times> memory" where
  "mem_Close m = (Inr (), m)"

definition MemoryStorage :: "visit_order \<Rightarrow> memory storage" where
  "MemoryStorage rng =
     \<lparr>SaveDeployment = mem_SaveDeployment,
      GetDeployment = mem_GetDeployment,
      GetLatestDeployment = mem_GetLatestDeployment rng,
      ListDeployments = mem_ListDeployments rng,
      SaveEvent = mem_SaveEvent,
      GetEvent = mem_GetEvent,
      GetEventsByChain = mem_GetEventsByChain rng,
      Ping = mem_Ping,
      Close = mem_Close\<rparr>"

lemma MemoryStorage_ops [simp]:
  "SaveDeployment (MemoryStorage rng) = mem_SaveDeployment"
  "GetDeployment (MemoryStorage rng) = mem_GetDeployment"
  "GetLatestDeployment (MemoryStorage rng) = mem_GetLatestDeployment rng"
  "ListDeployments (MemoryStorage rng) = mem_ListDeployments rng"
  "SaveEvent (MemoryStorage rng) = mem_SaveEvent"
  "GetEvent (MemoryStorage rng) = mem_GetEvent"
  "GetEventsByChain (MemoryStorage rng) = mem_GetEventsByChain rng"
  "Ping (MemoryStorage rng) = mem_Ping"
  "Close (MemoryStorage rng) = mem_Close"
  by (simp_all add: MemoryStorage_def)

lemmas memory_defs [store_simps] =
  mem_SaveDeployment_def mem_GetDeployment_def mem_GetLatestDeployment_def
  mem_ListDeployments_def mem_SaveEvent_def mem_GetEvent_def mem_GetEventsByChain_def
  mem_Ping_def mem_Close_def

section \<open>Invariant and abstraction\<close>

definition memory_inv :: "memory \<Rightarrow> bool" where
  "memory_inv m \<longleftrightarrow>
     gomap_ok (mem_deployments m) \<and> gomap_ok (mem_events m) \<and>
     (\<forall>(k, d) \<in> set (mem_deployments m). k = deploymentKey (dep_Service d) (dep_Environment d)) \<and>
     (\<forall>(k, e) \<in> set (mem_events m). k = ev_ID e)"

definition visit_ok :: "visit_order \<Rightarrow> bool" where
  "visit_ok rng \<longleftrightarrow> permutes_values (visit_deployments rng) \<and> permutes_values (visit_events rng)"

text \<open>
  The abstract deployment map. A pair is looked up by a key that joins its parts with a NUL
  byte, so a service that holds a NUL can be confused with another one; \<open>plain_service\<close> is the
  side condition under which no two pairs share a key.
\<close>

definition plain_service :: "string \<Rightarrow> string \<Rightarrow> bool" where
  "plain_service service environment \<longleftrightarrow> CHR 0x00 \<notin> set service"

definition memory_deps :: "memory \<Rightarrow> string \<times> string \<Rightarrow> deployment option" where
  "memory_deps m p =
     (case map_of (mem_deployments m) (deploymentKey (fst p) (snd p)) of
        None \<Rightarrow> None
      | Some d \<Rightarrow> if (dep_Service d, dep_Environment d) = p then Some d else None)"

definition memory_evs :: "memory \<Rightarrow> string \<Rightarrow> stored_event option" where
  "memory_evs m = map_of (mem_events m)"

lemma deploymentKey_inj:
  "CHR 0x00 \<notin> set a \<Longrightarrow> CHR 0x00 \<notin> set c \<Longrightarrow> deploymentKey a b = deploymentKey c d \<longleftrightarrow> a = c \<and> b = d"
proof (induction a arbitrary: c)
  case Nil
  then show ?case by (cases c) (auto simp: deploymentKey_def)
next
  case (Cons x a)
  then show ?case by (cases c) (auto simp: deploymentKey_def)
qed

lemma memory_inv_new [simp]: "memory_inv NewMemoryStorage"
  by (simp add: memory_inv_def NewMemoryStorage_def)

lemma memory_key:
  assumes "memory_inv m"
  shows "map_of (mem_deployments m) k = Some d \<Longrightarrow> k = deploymentKey (dep_Service d) (dep_Environment d)"
    and "map_of (mem_events m) i = Some e \<Longrightarrow> i = ev_ID e"
  using assms by (auto simp: memory_inv_def dest!: map_of_SomeD)

lemma update_inv:
  assumes "\<forall>(k, v) \<in> set m. P k v" and "P k' v'"
  shows "\<forall>(k, v) \<in> set (AList.update k' v' m). P k v"
  using assms by (induction m) auto

lemma memory_inv_save:
  assumes "memory_inv m"
  shows "memory_inv (m\<lparr>mem_deployments :=
      AList.update (deploymentKey (dep_Service d) (dep_Environment d)) d (mem_deployments m)\<rparr>)"
    and "memory_inv (m\<lparr>mem_events := AList.update (ev_ID e) e (mem_events m)\<rparr>)"
  using assms update_inv [of "mem_deployments m"] update_inv [of "mem_events m"]
  by (auto simp: memory_inv_def)

lemma memory_values:
  assumes "memory_inv m"
  shows "set (map snd (mem_deployments m)) = ran (memory_deps m)"
    and "set (map snd (mem_events m)) = ran (memory_evs m)"
    and "distinct (map snd (mem_deployments m))" and "distinct (map snd (mem_events m))"
proof -
  note ok = assms [unfolded memory_inv_def]
  have "d \<in> ran (memory_deps m) \<longleftrightarrow> (\<exists>k. map_of (mem_deployments m) k = Some d)" for d
    using memory_key(1) [OF assms]
    by (fastforce simp: ran_def memory_deps_def split: option.splits if_splits)
  then have "ran (memory_deps m) = ran (map_of (mem_deployments m))"
    by (auto simp: ran_def)
  with ok show "set (map snd (mem_deployments m)) = ran (memory_deps m)"
    by (simp only: gomap_values)
  show "set (map snd (mem_events m)) = ran (memory_evs m)"
    using ok by (simp only: gomap_values memory_evs_def)
  show "distinct (map snd (mem_deployments m))"
    using ok memory_key(1) [OF assms]
    by (intro gomap_inj_values(1) [where f = "\<lambda>d. deploymentKey (dep_Service d) (dep_Environment d)"]) auto
  show "distinct (map snd (mem_events m))"
    using ok memory_key(2) [OF assms] by (intro gomap_inj_values(1) [where f = ev_ID]) auto
qed

lemma memory_visit:
  assumes "memory_inv m" and "visit_ok rng"
  shows "set (visit_deployments rng (map snd (mem_deployments m))) = ran (memory_deps m)"
    and "set (visit_events rng (map snd (mem_events m))) = ran (memory_evs m)"
    and "distinct (visit_deployments rng (map snd (mem_deployments m)))"
    and "distinct (visit_events rng (map snd (mem_events m)))"
  using assms(2) memory_values [OF assms(1)]
  by (simp_all add: visit_ok_def permutes_values_set permutes_values_distinct del: set_map)

text \<open>The states in which no stored service holds a NUL: there the abstraction loses nothing.\<close>

definition memory_plain :: "memory \<Rightarrow> bool" where
  "memory_plain m \<longleftrightarrow> memory_inv m \<and> (\<forall>(k, d) \<in> set (mem_deployments m). CHR 0x00 \<notin> set (dep_Service d))"

lemma memory_plain_new [simp]: "memory_plain NewMemoryStorage"
  using memory_inv_new by (simp add: memory_plain_def NewMemoryStorage_def)

lemma memory_plain_at:
  assumes "memory_plain m" and "CHR 0x00 \<notin> set a"
  shows "map_of (mem_deployments m) (deploymentKey a b) = memory_deps m (a, b)"
proof (cases "map_of (mem_deployments m) (deploymentKey a b)")
  case None
  then show ?thesis by (simp add: memory_deps_def)
next
  case (Some d)
  then have "CHR 0x00 \<notin> set (dep_Service d)"
    using assms(1) by (auto simp: memory_plain_def dest!: map_of_SomeD)
  moreover have "deploymentKey a b = deploymentKey (dep_Service d) (dep_Environment d)"
    using assms(1) memory_key(1) [OF _ Some] by (simp add: memory_plain_def)
  ultimately have "a = dep_Service d" "b = dep_Environment d"
    using assms(2) by (auto simp: deploymentKey_inj)
  with Some show ?thesis by (simp add: memory_deps_def)
qed

lemma memory_plain_none:
  assumes "memory_plain m" and "CHR 0x00 \<in> set a"
  shows "memory_deps m (a, b) = None"
  using assms by (auto simp: memory_plain_def memory_deps_def split: option.splits dest!: map_of_SomeD)

lemma memory_plain_save:
  assumes "memory_plain m" and "CHR 0x00 \<notin> set (dep_Service d)"
  shows "memory_plain (m\<lparr>mem_deployments :=
      AList.update (deploymentKey (dep_Service d) (dep_Environment d)) d (mem_deployments m)\<rparr>)"
    (is "memory_plain ?m")
    and "memory_deps (m\<lparr>mem_deployments :=
      AList.update (deploymentKey (dep_Service d) (dep_Environment d)) d (mem_deployments m)\<rparr>) =
    (memory_deps m)((dep_Service d, dep_Environment d) \<mapsto> d)"
proof -
  show p: "memory_plain ?m"
    using assms memory_inv_save(1) [of m d] update_inv [of "mem_deployments m" "\<lambda>k d. CHR 0x00 \<notin> set (dep_Service d)"]
    by (simp add: memory_plain_def)
  have "memory_deps ?m (a, b) = ((memory_deps m)((dep_Service d, dep_Environment d) \<mapsto> d)) (a, b)" for a b
  proof (cases "CHR 0x00 \<in> set a")
    case True
    with assms(2) memory_plain_none [OF assms(1) True] memory_plain_none [OF p True] show ?thesis
      by auto
  next
    case False
    with assms(2) show ?thesis
      by (auto simp: memory_plain_at [OF assms(1), symmetric] memory_plain_at [OF p, symmetric]
          deploymentKey_inj)
  qed
  then show "memory_deps ?m = (memory_deps m)((dep_Service d, dep_Environment d) \<mapsto> d)"
    by auto
qed

lemma memory_save_event:
  assumes "memory_plain m"
  shows "memory_plain (m\<lparr>mem_events := AList.update (ev_ID e) e (mem_events m)\<rparr>)"
    and "memory_evs (m\<lparr>mem_events := AList.update (ev_ID e) e (mem_events m)\<rparr>) = (memory_evs m)(ev_ID e \<mapsto> e)"
    and "memory_deps (m\<lparr>mem_events := AList.update (ev_ID e) e (mem_events m)\<rparr>) = memory_deps m"
  using assms memory_inv_save(2) [of m e]
  by (auto simp: memory_plain_def memory_evs_def memory_deps_def)

section \<open>The contract holds\<close>

lemma memory_listing:
  assumes "memory_plain m" and "visit_ok rng"
  shows "\<exists>all. distinct all \<and> set all = ran (memory_deps m) \<and>
    listing_of f all (applyFilter (visit_deployments rng (map snd (mem_deployments m))) f)"
  using memory_visit(1,3) [of m rng] assms applyFilter_listing memory_plain_def by metis

lemma memory_latest:
  assumes "memory_plain m" and "visit_ok rng"
    and "r = latestDeployment (filter (\<lambda>d. dep_Service d = service)
      (visit_deployments rng (map snd (mem_deployments m))))"
  shows "(\<forall>d. r = Inr d \<longrightarrow> d \<in> ran (memory_deps m) \<and> dep_Service d = service \<and>
      (\<forall>d' \<in> ran (memory_deps m). dep_Service d' = service \<longrightarrow> deployment_key d \<le> deployment_key d')) \<and>
    (\<forall>err. r = Inl err \<longrightarrow> (\<forall>d' \<in> ran (memory_deps m). dep_Service d' \<noteq> service))"
proof -
  have v: "set (visit_deployments rng (map snd (mem_deployments m))) = ran (memory_deps m)"
    using memory_visit(1) assms(1,2) by (simp add: memory_plain_def)
  show ?thesis
    unfolding assms(3)
  proof (intro conjI allI impI)
    let ?ds = "filter (\<lambda>d. dep_Service d = service) (visit_deployments rng (map snd (mem_deployments m)))"
    have ds: "set ?ds = {d \<in> ran (memory_deps m). dep_Service d = service}"
      by (simp only: set_filter v)
    fix d assume "latestDeployment ?ds = Inr d"
    from latestDeployment_Inr [OF this, unfolded ds]
    show "d \<in> ran (memory_deps m)" "dep_Service d = service"
      "\<forall>d' \<in> ran (memory_deps m). dep_Service d' = service \<longrightarrow> deployment_key d \<le> deployment_key d'"
      by auto
  next
    fix err assume "latestDeployment (filter (\<lambda>d. dep_Service d = service)
      (visit_deployments rng (map snd (mem_deployments m)))) = Inl err"
    then show "\<forall>d' \<in> ran (memory_deps m). dep_Service d' \<noteq> service"
      unfolding latestDeployment_Inl filter_empty_conv v by blast
  qed
qed

lemma memory_chain:
  assumes "memory_plain m" and "visit_ok rng"
    and "es = sortEventsNewestFirst (filter (\<lambda>e. ev_ChainID e = c)
      (visit_events rng (map snd (mem_events m))))"
  shows "distinct es \<and> sorted (map event_key es) \<and> set es = {e \<in> ran (memory_evs m). ev_ChainID e = c}"
proof -
  have "set (visit_events rng (map snd (mem_events m))) = ran (memory_evs m)"
    "distinct (visit_events rng (map snd (mem_events m)))"
    using memory_visit(2,4) assms(1,2) by (simp_all add: memory_plain_def)
  then show ?thesis
    by (auto simp: assms(3) sortEvents_sorted)
qed

lemma memory_saves:
  assumes "memory_plain s"
  shows "plain_service (dep_Service d) (dep_Environment d) \<Longrightarrow>
      mem_SaveDeployment ctx (Some d) s = (Inr (), s') \<Longrightarrow>
      memory_plain s' \<and> memory_deps s' = (memory_deps s)((dep_Service d, dep_Environment d) \<mapsto> d) \<and>
      memory_evs s' = memory_evs s"
    and "mem_SaveEvent ctx (Some e) s = (Inr (), s') \<Longrightarrow>
      memory_plain s' \<and> memory_deps s' = memory_deps s \<and> memory_evs s' = (memory_evs s)(ev_ID e \<mapsto> e)"
proof -
  show "memory_plain s' \<and> memory_deps s' = (memory_deps s)((dep_Service d, dep_Environment d) \<mapsto> d) \<and>
      memory_evs s' = memory_evs s"
    if "plain_service (dep_Service d) (dep_Environment d)"
      "mem_SaveDeployment ctx (Some d) s = (Inr (), s')"
  proof (cases ctx)
    case None
    with that(2) have s': "s' = s\<lparr>mem_deployments :=
        AList.update (deploymentKey (dep_Service d) (dep_Environment d)) d (mem_deployments s)\<rparr>"
      by (simp add: mem_SaveDeployment_def)
    from that(1) have "CHR 0x00 \<notin> set (dep_Service d)" by (simp add: plain_service_def)
    note p = memory_plain_save [OF assms this]
    have "memory_evs s' = memory_evs s" by (simp add: s' memory_evs_def)
    with p show ?thesis unfolding s' by blast
  qed (use that(2) in \<open>simp add: mem_SaveDeployment_def\<close>)
  show "memory_plain s' \<and> memory_deps s' = memory_deps s \<and> memory_evs s' = (memory_evs s)(ev_ID e \<mapsto> e)"
    if "mem_SaveEvent ctx (Some e) s = (Inr (), s')"
  proof (cases ctx)
    case None
    with that have s': "s' = s\<lparr>mem_events := AList.update (ev_ID e) e (mem_events s)\<rparr>"
      by (simp add: mem_SaveEvent_def)
    show ?thesis unfolding s' using memory_save_event [OF assms, of e] by blast
  qed (use that in \<open>simp add: mem_SaveEvent_def\<close>)
qed

lemma memory_fails:
  "mem_SaveDeployment ctx od s = (Inl err, s') \<Longrightarrow> s' = s"
  "mem_SaveEvent ctx oe s = (Inl err, s') \<Longrightarrow> s' = s"
  by (auto simp: mem_SaveDeployment_def mem_SaveEvent_def split: option.splits)

lemma memory_contract:
  assumes "visit_ok rng"
  shows "storage_live (MemoryStorage rng) memory_plain memory_deps memory_evs plain_service"
proof
  show "memory_plain s' \<and> memory_deps s' = (memory_deps s)((dep_Service d, dep_Environment d) \<mapsto> d) \<and>
      memory_evs s' = memory_evs s"
    if "memory_plain s" "plain_service (dep_Service d) (dep_Environment d)"
      "SaveDeployment (MemoryStorage rng) ctx (Some d) s = (Inr (), s')" for s s' d ctx
    using memory_saves(1) [OF that(1,2)] that(3) by simp
  show "s' = s" if "SaveDeployment (MemoryStorage rng) ctx od s = (Inl err, s')" for ctx s s' od err
    using that memory_fails by simp
  show "memory_plain s' \<and> memory_deps s' = memory_deps s \<and> memory_evs s' = (memory_evs s)(ev_ID e \<mapsto> e)"
    if "memory_plain s" "SaveEvent (MemoryStorage rng) ctx (Some e) s = (Inr (), s')" for s s' e ctx
    using memory_saves(2) [OF that(1)] that(2) by simp
  show "s' = s" if "SaveEvent (MemoryStorage rng) ctx oe s = (Inl err, s')" for ctx s s' oe err
    using that memory_fails by simp
  show "s' = s \<and> (\<forall>d. rd = Inr d \<longrightarrow> memory_deps s (svc, env) = Some d) \<and>
      (\<forall>err. rd = Inl err \<and> errors_is err ErrNotFound \<longrightarrow> memory_deps s (svc, env) = None)"
    if "memory_plain s" "plain_service svc env"
      "GetDeployment (MemoryStorage rng) ctx svc env s = (rd, s')" for s s' svc env rd ctx
    using that memory_plain_at [of s svc env]
    by (auto simp: mem_GetDeployment_def plain_service_def split: option.splits)
  show "s' = s \<and>
      (\<forall>d. rd = Inr d \<longrightarrow> d \<in> ran (memory_deps s) \<and> dep_Service d = svc \<and>
         (\<forall>d' \<in> ran (memory_deps s). dep_Service d' = svc \<longrightarrow> deployment_key d \<le> deployment_key d')) \<and>
      (\<forall>err. rd = Inl err \<and> errors_is err ErrNotFound \<longrightarrow>
         (\<forall>d' \<in> ran (memory_deps s). dep_Service d' \<noteq> svc))"
    if "memory_plain s" "GetLatestDeployment (MemoryStorage rng) ctx svc s = (rd, s')"
    for s s' svc rd ctx
  proof (cases ctx)
    case None
    with that(2) have "s' = s" and rd: "rd = latestDeployment (filter (\<lambda>d. dep_Service d = svc)
        (visit_deployments rng (map snd (mem_deployments s))))"
      by (auto simp: mem_GetLatestDeployment_def)
    with memory_latest [OF that(1) assms rd] show ?thesis
      by blast
  qed (use that(2) in \<open>auto simp: mem_GetLatestDeployment_def\<close>)
  show "s' = s \<and> (\<forall>ds. rl = Inr ds \<longrightarrow>
      (\<exists>all. distinct all \<and> set all = ran (memory_deps s) \<and> listing_of f all ds))"
    if "memory_plain s" "ListDeployments (MemoryStorage rng) ctx f s = (rl, s')" for s s' f rl ctx
    using that(2) memory_listing [OF that(1) assms, of f]
    by (cases ctx) (auto simp: mem_ListDeployments_def)
  show "s' = s \<and> (\<forall>e. re = Inr e \<longrightarrow> memory_evs s eid = Some e) \<and>
      (\<forall>err. re = Inl err \<and> errors_is err ErrNotFound \<longrightarrow> memory_evs s eid = None)"
    if "memory_plain s" "GetEvent (MemoryStorage rng) ctx eid s = (re, s')" for s s' eid re ctx
    using that(2) by (auto simp: mem_GetEvent_def memory_evs_def split: option.splits)
  show "s' = s \<and> (\<forall>es. rc = Inr es \<longrightarrow> distinct es \<and> sorted (map event_key es) \<and>
      set es = {e \<in> ran (memory_evs s). c \<noteq> [] \<and> ev_ChainID e = c})"
    if "memory_plain s" "GetEventsByChain (MemoryStorage rng) ctx c s = (rc, s')" for s s' c rc ctx
  proof (cases "ctx = None \<and> c \<noteq> []")
    case True
    with that(2) have "s' = s" and rc: "rc = Inr (sortEventsNewestFirst
        (filter (\<lambda>e. ev_ChainID e = c) (visit_events rng (map snd (mem_events s)))))"
      by (auto simp: mem_GetEventsByChain_def)
    with memory_chain [OF that(1) assms refl, of c] True show ?thesis
      by simp
  next
    case False
    with that(2) show ?thesis
      by (auto simp: mem_GetEventsByChain_def split: option.splits)
  qed
  show "dep_Service d = svc \<and> dep_Environment d = env"
    if "memory_plain s" "memory_deps s (svc, env) = Some d" for s svc env d
    using that(2) by (auto simp: memory_deps_def split: option.splits if_splits)
  show "ev_ID e = eid" if "memory_plain s" "memory_evs s eid = Some e" for s eid e
    using that memory_key(2) [of s eid e] by (simp add: memory_plain_def memory_evs_def)
qed (auto simp: store_simps latestDeployment_Inl split: option.splits)

text \<open>The runtime that visits a map in the order its pairs are stored, and one that reverses it.\<close>

definition stored_order :: visit_order where
  "stored_order = \<lparr>visit_deployments = \<lambda>ds. ds, visit_events = \<lambda>es. es\<rparr>"

definition reverse_order :: visit_order where
  "reverse_order = \<lparr>visit_deployments = rev, visit_events = rev\<rparr>"

lemma visit_ok_orders [simp]: "visit_ok stored_order" "visit_ok reverse_order"
  by (simp_all add: visit_ok_def stored_order_def reverse_order_def)

interpretation mem: storage_live "MemoryStorage stored_order" memory_plain memory_deps memory_evs plain_service
  by (rule memory_contract) simp

section \<open>Properties\<close>

text \<open>A run of saves, from an empty store and with a live context.\<close>

datatype save = Save_Deployment deployment | Save_Event stored_event

primrec run_save :: "save \<Rightarrow> memory \<Rightarrow> memory" where
  "run_save (Save_Deployment d) m = snd (mem_SaveDeployment None (Some d) m)"
| "run_save (Save_Event e) m = snd (mem_SaveEvent None (Some e) m)"

definition run_saves :: "save list \<Rightarrow> memory" where
  "run_saves ops = fold run_save ops NewMemoryStorage"

definition saved_deployments :: "string \<Rightarrow> string \<Rightarrow> save list \<Rightarrow> deployment list" where
  "saved_deployments svc env ops =
     [d. Save_Deployment d \<leftarrow> ops, dep_Service d = svc \<and> dep_Environment d = env]"

definition saved_events :: "string \<Rightarrow> save list \<Rightarrow> stored_event list" where
  "saved_events i ops = [e. Save_Event e \<leftarrow> ops, ev_ID e = i]"

definition plain_save :: "save \<Rightarrow> bool" where
  "plain_save s = (case s of Save_Deployment d \<Rightarrow> CHR 0x00 \<notin> set (dep_Service d) | Save_Event e \<Rightarrow> True)"

definition last_of :: "'a list \<Rightarrow> 'a option" where
  "last_of xs = (if xs = [] then None else Some (last xs))"

lemma run_saves_state:
  assumes "list_all plain_save ops"
  shows "memory_plain (run_saves ops) \<and>
    (\<forall>svc env. memory_deps (run_saves ops) (svc, env) = last_of (saved_deployments svc env ops)) \<and>
    (\<forall>i. memory_evs (run_saves ops) i = last_of (saved_events i ops))"
  using assms
proof (induction ops rule: rev_induct)
  case Nil
  then show ?case
    using memory_plain_new
    by (simp add: run_saves_def saved_deployments_def saved_events_def last_of_def
        memory_deps_def memory_evs_def NewMemoryStorage_def)
next
  case (snoc op ops)
  let ?m = "run_saves ops"
  from snoc have IH: "memory_plain ?m"
    "\<And>svc env. memory_deps ?m (svc, env) = last_of (saved_deployments svc env ops)"
    "\<And>i. memory_evs ?m i = last_of (saved_events i ops)" by auto
  have step: "run_saves (ops @ [op]) = run_save op ?m" by (simp add: run_saves_def)
  show ?case
  proof (cases op)
    case (Save_Deployment d)
    have "plain_service (dep_Service d) (dep_Environment d)"
      using snoc.prems by (simp add: Save_Deployment plain_save_def plain_service_def)
    moreover have "mem_SaveDeployment None (Some d) ?m = (Inr (), run_save op ?m)"
      by (simp add: Save_Deployment mem_SaveDeployment_def)
    ultimately show ?thesis
      using memory_saves(1) [OF IH(1)] IH(2,3) unfolding step
      by (auto simp: Save_Deployment saved_deployments_def saved_events_def last_of_def)
  next
    case (Save_Event e)
    have "mem_SaveEvent None (Some e) ?m = (Inr (), run_save op ?m)"
      by (simp add: Save_Event mem_SaveEvent_def)
    with memory_saves(2) [OF IH(1)] IH(2,3) show ?thesis unfolding step
      by (auto simp: Save_Event saved_deployments_def saved_events_def last_of_def)
  qed
qed

text \<open>
  C3. The store keeps what was saved last, as long as no service name holds a NUL, the byte the
  store puts between service and environment in its keys: whatever deployments of such services
  and whatever events are saved, in whatever order, a lookup of such a service and an
  environment, by a live request, returns the last deployment saved for that pair, a lookup of an
  id the last event saved under it, and nothing is found where nothing was saved. Without the
  side condition two services can share a key (\<open>memory_key_collision\<close>).
\<close>

theorem memory_last_write_wins:
  assumes "list_all plain_save ops" and "CHR 0x00 \<notin> set svc"
  shows "fst (mem_GetDeployment None svc env (run_saves ops)) =
      (case last_of (saved_deployments svc env ops) of None \<Rightarrow> Inl ErrNotFound | Some d \<Rightarrow> Inr d) \<and>
    fst (mem_GetEvent None i (run_saves ops)) =
      (case last_of (saved_events i ops) of None \<Rightarrow> Inl ErrNotFound | Some e \<Rightarrow> Inr e)"
proof -
  note r = run_saves_state [OF assms(1)]
  have "plain_service svc env" by (simp add: plain_service_def assms(2))
  with r mem.live_get_dep_eq [of "run_saves ops" svc env] mem.live_get_ev_eq [of "run_saves ops" i]
  show ?thesis by simp
qed

definition sample_deployment :: "string \<Rightarrow> string \<Rightarrow> string \<Rightarrow> int \<Rightarrow> deployment" where
  "sample_deployment svc env ver at =
     \<lparr>dep_ID = svc, dep_Service = svc, dep_Version = ver, dep_Environment = env, dep_CommitSha = [],
      dep_Repository = [], dep_Branch = [], dep_Author = [], dep_PipelineID = [], dep_PipelineURL = [],
      dep_DeployedAt = \<lparr>gt_ns = at, gt_off = 0\<rparr>, dep_DeployedBy = [], dep_EventID = ver,
      dep_ChainID = [], dep_Links = []\<rparr>"

definition sample_event :: "string \<Rightarrow> string \<Rightarrow> string \<Rightarrow> int \<Rightarrow> string list \<Rightarrow> stored_event" where
  "sample_event i type chain at targets =
     \<lparr>ev_ID = i, ev_Type = type, ev_Source = ''ci'', ev_Timestamp = \<lparr>gt_ns = at, gt_off = 0\<rparr>,
      ev_SubjectID = ''s'', ev_SubjectType = ''t'', ev_ChainID = chain,
      ev_Links = map (\<lambda>t. \<lparr>LinkType = ''CAUSE'', LinkID = t\<rparr>) targets, ev_Summary = [],
      ev_RawData = Some [(''customData'', VMap [(''commit'', VStr (''sha-'' @ i))])]\<rparr>"

definition sample_saves :: "save list" where
  "sample_saves =
     [Save_Deployment (sample_deployment ''api'' ''prod'' ''1'' 10),
      Save_Deployment (sample_deployment ''web'' ''prod'' ''7'' 30),
      Save_Event (sample_event ''e1'' ''service.deployed'' ''c'' 10 [''e2'']),
      Save_Deployment (sample_deployment ''api'' ''stage'' ''3'' 20),
      Save_Deployment (sample_deployment ''api'' ''prod'' ''2'' 15),
      Save_Event (sample_event ''e2'' ''change.merged'' ''c'' 5 [])]"

lemma sample_saves_plain: "list_all plain_save sample_saves"
  by (simp add: sample_saves_def plain_save_def sample_deployment_def)

theorem memory_last_write_wins_witness:
  "fst (mem_GetDeployment None ''api'' ''prod'' (run_saves sample_saves)) =
     Inr (sample_deployment ''api'' ''prod'' ''2'' 15) \<and>
   fst (mem_GetEvent None ''e3'' (run_saves sample_saves)) = Inl ErrNotFound"
  using memory_last_write_wins [OF sample_saves_plain, of "''api''" "''prod''" "''e3''"]
  by (simp add: sample_saves_def saved_deployments_def saved_events_def last_of_def
      sample_deployment_def sample_event_def)

text \<open>
  C10. The latest deployment of a service is one of its current deployments and none of them is
  newer; among deployments of the same instant the first environment in byte order is returned.
  There is none only when the service runs nowhere.
\<close>

theorem memory_latest_is_newest:
  assumes "memory_plain m" and "visit_ok rng"
    and "fst (GetLatestDeployment (MemoryStorage rng) None svc m) = r"
  shows "case r of
      Inr d \<Rightarrow> d \<in> ran (memory_deps m) \<and> dep_Service d = svc \<and>
        (\<forall>d' \<in> ran (memory_deps m). dep_Service d' = svc \<longrightarrow>
           gt_ns (dep_DeployedAt d') < gt_ns (dep_DeployedAt d) \<or>
           gt_ns (dep_DeployedAt d') = gt_ns (dep_DeployedAt d) \<and> dep_Environment d \<le> dep_Environment d')
    | Inl err \<Rightarrow> err = ErrNotFound \<and> (\<forall>d' \<in> ran (memory_deps m). dep_Service d' \<noteq> svc)"
proof (cases r)
  case (Inl err)
  then have "err = ErrNotFound"
    using storage_live.live_get_latest [OF memory_contract [OF assms(2)], of svc m err] assms(3) by simp
  moreover from Inl assms(3) have "latestDeployment (filter (\<lambda>d. dep_Service d = svc)
      (visit_deployments rng (map snd (mem_deployments m)))) = Inl err"
    by (simp add: mem_GetLatestDeployment_def)
  then have "\<forall>d' \<in> ran (memory_deps m). dep_Service d' \<noteq> svc"
    using memory_latest [OF assms(1,2) refl, of svc] by blast
  ultimately show ?thesis
    unfolding Inl by simp
next
  case (Inr d)
  with assms(3) have "latestDeployment (filter (\<lambda>d. dep_Service d = svc)
      (visit_deployments rng (map snd (mem_deployments m)))) = Inr d"
    by (simp add: mem_GetLatestDeployment_def)
  with memory_latest [OF assms(1,2) refl, of svc]
  have "d \<in> ran (memory_deps m)" "dep_Service d = svc"
    "\<forall>d' \<in> ran (memory_deps m). dep_Service d' = svc \<longrightarrow> deployment_key d \<le> deployment_key d'"
    by blast+
  then show ?thesis
    by (auto simp: Inr deployment_key_def)
qed

theorem memory_latest_is_newest_witness:
  "\<exists>d. fst (GetLatestDeployment (MemoryStorage reverse_order) None ''api'' (run_saves sample_saves)) = Inr d \<and>
     d \<in> ran (memory_deps (run_saves sample_saves))"
proof -
  let ?r = "fst (GetLatestDeployment (MemoryStorage reverse_order) None ''api'' (run_saves sample_saves))"
  have "?r = Inr (sample_deployment ''api'' ''stage'' ''3'' 20)"
    by code_simp
  with memory_latest_is_newest [OF run_saves_state [OF sample_saves_plain, THEN conjunct1]
      visit_ok_orders(2), of "''api''" ?r]
  show ?thesis by simp
qed

text \<open>
  What a listing is asked for, of \<open>docs/api.md\<close>: the deployments of an environment, all of them when
  none is named, deployed at \<open>since\<close> or later, at any time when \<open>since\<close> is the zero time.
\<close>

definition asked_for :: "ListFilter \<Rightarrow> deployment \<Rightarrow> bool" where
  "asked_for f d \<longleftrightarrow> (lf_Environment f = [] \<or> dep_Environment d = lf_Environment f) \<and>
     (gt_ns (lf_Since f) = 0 \<or> gt_ns (lf_Since f) \<le> gt_ns (dep_DeployedAt d))"

lemma filter_matches_asked: "filter_matches f = asked_for f"
  by (rule ext) (auto simp: asked_for_def filter_matches_def go_simps)

text \<open>
  C9. A listing holds the newest of the stored deployments it is asked for, newest first: those of
  the environment named by the filter (of every environment when none is named) deployed no
  earlier than \<open>Since\<close> (at any time when it is zero). It holds all of them, or as many as a positive
  limit allows, and then none that is left out is newer than one that is listed.
\<close>

theorem memory_list_newest_first:
  assumes "memory_plain m" and "visit_ok rng"
    and "fst (ListDeployments (MemoryStorage rng) None f m) = Inr ds"
  shows "\<exists>all. distinct all \<and> set all = ran (memory_deps m) \<and>
    sorted (map deployment_key ds) \<and>
    set ds \<subseteq> {d \<in> set all. asked_for f d} \<and>
    length ds = (let n = length (filter (asked_for f) all)
      in if 0 < lf_Limit f then min n (nat (lf_Limit f)) else n) \<and>
    (\<forall>d \<in> set all. asked_for f d \<and> d \<notin> set ds \<longrightarrow>
      (\<forall>d' \<in> set ds. deployment_key d' \<le> deployment_key d))"
proof -
  have ds: "ds = applyFilter (visit_deployments rng (map snd (mem_deployments m))) f"
    using assms(3) by (simp add: mem_ListDeployments_def)
  from memory_listing [OF assms(1,2), of f] show ?thesis
    unfolding ds listing_of_def filter_matches_asked by blast
qed

theorem memory_list_newest_first_witness:
  "\<exists>ds. fst (ListDeployments (MemoryStorage reverse_order) None
       \<lparr>lf_Environment = ''prod'', lf_Since = zero_time, lf_Limit = 1\<rparr> (run_saves sample_saves)) = Inr ds \<and>
     ds = [sample_deployment ''web'' ''prod'' ''7'' 30] \<and> sorted (map deployment_key ds)"
proof -
  let ?f = "\<lparr>lf_Environment = ''prod'', lf_Since = zero_time, lf_Limit = 1\<rparr>"
  have "fst (ListDeployments (MemoryStorage reverse_order) None ?f (run_saves sample_saves)) =
      Inr [sample_deployment ''web'' ''prod'' ''7'' 30]"
    by code_simp
  with memory_list_newest_first [OF run_saves_state [OF sample_saves_plain, THEN conjunct1]
      visit_ok_orders(2) this]
  show ?thesis by blast
qed

lemma memory_visits_perm:
  assumes "visit_ok r1" and "visit_ok r2"
  shows "mset (visit_deployments r1 xs) = mset (visit_deployments r2 xs)"
    and "mset (visit_events r1 ys) = mset (visit_events r2 ys)"
  using assms by (simp_all add: visit_ok_def permutes_valuesD)

lemma memory_keys_inj:
  assumes "memory_plain m"
  shows "inj_on (\<lambda>d. (dep_Service d, dep_Environment d)) (ran (memory_deps m))"
    and "inj_on ev_ID (ran (memory_evs m))"
proof -
  show "inj_on (\<lambda>d. (dep_Service d, dep_Environment d)) (ran (memory_deps m))"
    by (rule inj_onI) (auto simp: ran_def memory_deps_def split: option.splits if_splits)
  show "inj_on ev_ID (ran (memory_evs m))"
    using assms by (rule mem.ev_ID_inj)
qed

text \<open>
  C15. What the store answers does not depend on the order in which the runtime visits its maps:
  the two listings and the latest deployment are determined by what is stored.
\<close>

theorem memory_order_independent:
  assumes "memory_plain m" and "visit_ok r1" and "visit_ok r2"
  shows "ListDeployments (MemoryStorage r1) ctx f m = ListDeployments (MemoryStorage r2) ctx f m \<and>
    GetLatestDeployment (MemoryStorage r1) ctx svc m = GetLatestDeployment (MemoryStorage r2) ctx svc m \<and>
    GetEventsByChain (MemoryStorage r1) ctx c m = GetEventsByChain (MemoryStorage r2) ctx c m"
proof -
  let ?ds = "map snd (mem_deployments m)" and ?es = "map snd (mem_events m)"
  have inv: "memory_inv m" using assms(1) by (simp add: memory_plain_def)
  note perm = memory_visits_perm [OF assms(2,3)]
  have deps: "sortDeploymentsNewestFirst (filter P (visit_deployments r1 ?ds)) =
      sortDeploymentsNewestFirst (filter P (visit_deployments r2 ?ds))" for P
  proof (rule sortDeployments_perm)
    show "mset (filter P (visit_deployments r1 ?ds)) = mset (filter P (visit_deployments r2 ?ds))"
      using perm(1) by simp
    have "set (filter P (visit_deployments r1 ?ds)) \<subseteq> ran (memory_deps m)"
      using memory_visit(1) [OF inv assms(2)] by auto
    then show "inj_on (\<lambda>d. (dep_Service d, dep_Environment d)) (set (filter P (visit_deployments r1 ?ds)))"
      by (rule inj_on_subset [OF memory_keys_inj(1) [OF assms(1)]])
  qed
  have evs: "sortEventsNewestFirst (filter P (visit_events r1 ?es)) =
      sortEventsNewestFirst (filter P (visit_events r2 ?es))" for P
  proof (rule sortEvents_perm)
    show "mset (filter P (visit_events r1 ?es)) = mset (filter P (visit_events r2 ?es))"
      using perm(2) by simp
    have "set (filter P (visit_events r1 ?es)) \<subseteq> ran (memory_evs m)"
      using memory_visit(2) [OF inv assms(2)] by auto
    then show "inj_on ev_ID (set (filter P (visit_events r1 ?es)))"
      by (rule inj_on_subset [OF memory_keys_inj(2) [OF assms(1)]])
  qed
  have "length (filter P (visit_deployments r1 ?ds)) = length (filter P (visit_deployments r2 ?ds))" for P
    by (metis perm(1) mset_filter size_mset)
  with deps evs show ?thesis
    by (simp add: mem_ListDeployments_def mem_GetLatestDeployment_def mem_GetEventsByChain_def
        applyFilter_def latestDeployment_def split: option.splits)
qed

theorem memory_order_independent_witness:
  "GetLatestDeployment (MemoryStorage stored_order) None ''api'' (run_saves sample_saves) =
   GetLatestDeployment (MemoryStorage reverse_order) None ''api'' (run_saves sample_saves)"
  using memory_order_independent [OF run_saves_state [OF sample_saves_plain, THEN conjunct1]
      visit_ok_orders] by blast

text \<open>
  Two different services share a key when a service name holds a NUL, and then the later
  save replaces the deployment of the other service.
\<close>

theorem memory_key_collision:
  "fst (mem_GetDeployment None ''a'' (''b'' @ CHR 0x00 # ''c'')
     (run_saves [Save_Deployment (sample_deployment ''a'' (''b'' @ CHR 0x00 # ''c'') ''1'' 1),
                 Save_Deployment (sample_deployment (''a'' @ CHR 0x00 # ''b'') ''c'' ''2'' 2)])) =
   Inr (sample_deployment (''a'' @ CHR 0x00 # ''b'') ''c'' ''2'' 2)"
  by code_simp

end
