(* ===== verification/Event_Graph.thy ===== *)
theory Event_Graph
  imports Memory_Storage
begin

text \<open>
  The link walk of \<open>internal/correlator/graph.go\<close>: a breadth-first traversal over any storage,
  bounded in depth and size. The walk is proved against the distance in the link graph of the
  stored events, for every backend that honours the storage contract.
\<close>

section \<open>The walk\<close>

record event_graph =
  maxDepth :: int
  maxEvents :: int

definition DefaultMaxDepth :: int where
  "DefaultMaxDepth = 32"

definition DefaultMaxEvents :: int where
  "DefaultMaxEvents = 256"

definition NewEventGraph :: event_graph where
  "NewEventGraph = \<lparr>maxDepth = DefaultMaxDepth, maxEvents = DefaultMaxEvents\<rparr>"

text \<open>A queue item is an id and its depth; \<open>visited\<close> is the key set of the map of the same name.\<close>

type_synonym queueItem = "string \<times> int"

primrec push_links ::
  "int \<Rightarrow> link list \<Rightarrow> string set \<Rightarrow> queueItem list \<Rightarrow> string set \<times> queueItem list" where
  "push_links depth [] visited queue = (visited, queue)"
| "push_links depth (link # links) visited queue =
     (if LinkID link = [] \<or> LinkID link \<in> visited then push_links depth links visited queue
      else push_links depth links (insert (LinkID link) visited) (queue @ [(LinkID link, depth + 1)]))"

function (sequential) traverse_loop ::
  "'s storage \<Rightarrow> event_graph \<Rightarrow> ctx \<Rightarrow> string set \<Rightarrow> queueItem list \<Rightarrow> stored_event list \<Rightarrow> 's \<Rightarrow>
   stored_event list result \<times> 's" where
  "traverse_loop S g ctx visited [] res s = (Inr res, s)"
| "traverse_loop S g ctx visited ((current, depth) # queue) res s =
     (if int (length res) < maxEvents g then
        (case GetEvent S ctx current s of
           (Inl err, s') \<Rightarrow>
             if errors_is err ErrNotFound then traverse_loop S g ctx visited queue res s'
             else (Inl (ErrWrap (''failed to load event '' @ current @ '': '') err []), s')
         | (Inr event, s') \<Rightarrow>
             if maxDepth g \<le> depth then traverse_loop S g ctx visited queue (res @ [event]) s'
             else
               (case push_links depth (ev_Links event) visited queue of
                  (visited', queue') \<Rightarrow>
                    traverse_loop S g ctx visited' queue' (res @ [event]) s'))
      else (Inr res, s))"
  by pat_completeness auto
termination
  by (relation "measures
      [\<lambda>(S, g, ctx, visited, queue, res, s). nat (maxEvents g - int (length res)),
       \<lambda>(S, g, ctx, visited, queue, res, s). length queue]") auto

definition TraverseChain ::
  "'s storage \<Rightarrow> event_graph \<Rightarrow> ctx \<Rightarrow> string \<Rightarrow> 's \<Rightarrow> stored_event list result \<times> 's" where
  "TraverseChain S g ctx startID s = traverse_loop S g ctx {startID} [(startID, 0)] [] s"

text \<open>A \<open>nil\<close> slice and an empty one are the same list.\<close>

definition LinkedEventIDs :: "stored_event option \<Rightarrow> string list" where
  "LinkedEventIDs event =
     (case event of
        None \<Rightarrow> []
      | Some e \<Rightarrow>
          if length (ev_Links e) = 0 then []
          else filter (\<lambda>i. i \<noteq> []) (map LinkID (ev_Links e)))"

declare traverse_loop.simps [simp del]

section \<open>The link graph\<close>

text \<open>The ids an event points at, and the ids at a distance of \<open>n\<close> links over stored events.\<close>

definition targets :: "stored_event \<Rightarrow> string set" where
  "targets e = LinkID ` set (ev_Links e) - {[]}"

inductive walk :: "(string \<Rightarrow> stored_event option) \<Rightarrow> string \<Rightarrow> nat \<Rightarrow> string \<Rightarrow> bool"
  for store :: "string \<Rightarrow> stored_event option" and start :: string where
  walk_start: "walk store start 0 start"
| walk_step: "walk store start n a \<Longrightarrow> store a = Some e \<Longrightarrow> b \<in> targets e \<Longrightarrow> walk store start (Suc n) b"

inductive_cases walk_SucE: "walk store start (Suc n) b"
inductive_cases walk_0E: "walk store start 0 b"

section \<open>Pushing the links of one event\<close>

lemma push_links_spec:
  assumes "push_links depth links visited queue = (visited', queue')"
  shows "\<exists>new. queue' = queue @ map (\<lambda>i. (i, depth + 1)) new \<and> visited' = visited \<union> set new \<and>
    distinct new \<and> set new = LinkID ` set links - {[]} - visited"
  using assms
proof (induction links arbitrary: visited queue)
  case Nil
  then show ?case by (auto intro: exI [of _ "[]"])
next
  case (Cons l links)
  show ?case
  proof (cases "LinkID l = [] \<or> LinkID l \<in> visited")
    case True
    with Cons.prems Cons.IH [of visited queue] show ?thesis by auto
  next
    case False
    with Cons.prems have p: "push_links depth links (insert (LinkID l) visited)
        (queue @ [(LinkID l, depth + 1)]) = (visited', queue')" by simp
    from Cons.IH [OF p] obtain new where
      "queue' = (queue @ [(LinkID l, depth + 1)]) @ map (\<lambda>i. (i, depth + 1)) new"
      "visited' = insert (LinkID l) visited \<union> set new" "distinct new"
      "set new = LinkID ` set links - {[]} - insert (LinkID l) visited" by blast
    with False show ?thesis
      by (intro exI [of _ "LinkID l # new"]) auto
  qed
qed

section \<open>The invariant of the walk\<close>

text \<open>
  \<open>hist\<close> lists the items taken from the queue so far. Items carry non-decreasing depths that
  spread over at most two values in the queue, every item has a walk of its depth, the targets
  of every expanded event were pushed at most one deeper, and the result holds the events of
  the items taken.
\<close>

definition walk_inv ::
  "(string \<Rightarrow> stored_event option) \<Rightarrow> event_graph \<Rightarrow> string \<Rightarrow> queueItem list \<Rightarrow> string set \<Rightarrow>
   queueItem list \<Rightarrow> stored_event list \<Rightarrow> bool" where
  "walk_inv store g start hist visited queue res \<longleftrightarrow>
     hd (hist @ queue) = (start, 0) \<and> hist @ queue \<noteq> [] \<and>
     distinct (map fst (hist @ queue)) \<and> visited = fst ` set (hist @ queue) \<and>
     sorted (map snd (hist @ queue)) \<and>
     (\<forall>p \<in> set queue. snd p \<le> snd (hd queue) + 1) \<and>
     (\<forall>(i, d) \<in> set (hist @ queue). 0 \<le> d \<and> (d = 0 \<or> d \<le> maxDepth g) \<and> walk store start (nat d) i) \<and>
     (\<forall>(i, d) \<in> set hist. \<forall>e. store i = Some e \<and> d < maxDepth g \<longrightarrow>
        (\<forall>b \<in> targets e. \<exists>d' \<le> d + 1. (b, d') \<in> set (hist @ queue))) \<and>
     res = List.map_filter store (map fst hist)"

lemma walk_inv_start: "walk_inv store g start [] {start} [(start, 0)] []"
  by (simp add: walk_inv_def walk_start List.map_filter_def)

lemma walk_inv_skip:
  assumes "walk_inv store g start hist visited ((i, d) # queue) res" and "store i = None"
  shows "walk_inv store g start (hist @ [(i, d)]) visited queue res"
proof -
  have "\<forall>p \<in> set queue. snd p \<le> snd (hd queue) + 1"
    using assms(1) by (cases queue) (auto simp: walk_inv_def sorted_append)
  with assms show ?thesis
    by (auto simp: walk_inv_def List.map_filter_def)
qed

lemma walk_inv_leaf:
  assumes "walk_inv store g start hist visited ((i, d) # queue) res" and "store i = Some e"
    and "maxDepth g \<le> d"
  shows "walk_inv store g start (hist @ [(i, d)]) visited queue (res @ [e])"
proof -
  have "\<forall>p \<in> set queue. snd p \<le> snd (hd queue) + 1"
    using assms(1) by (cases queue) (auto simp: walk_inv_def sorted_append)
  with assms show ?thesis
    by (auto simp: walk_inv_def List.map_filter_def)
qed

lemma walk_inv_expand:
  assumes inv: "walk_inv store g start hist visited ((i, d) # queue) res" and e: "store i = Some e"
    and d: "\<not> maxDepth g \<le> d"
    and p: "push_links d (ev_Links e) visited queue = (visited', queue')"
  shows "walk_inv store g start (hist @ [(i, d)]) visited' queue' (res @ [e])"
proof -
  let ?all = "hist @ (i, d) # queue"
  from push_links_spec [OF p] obtain new where q: "queue' = queue @ map (\<lambda>i. (i, d + 1)) new"
    and v: "visited' = visited \<union> set new" and dn: "distinct new"
    and new: "set new = targets e - visited"
    by (auto simp: targets_def)
  have all: "(hist @ [(i, d)]) @ queue' = ?all @ map (\<lambda>i. (i, d + 1)) new"
    by (simp add: q)
  have vis: "visited = fst ` set ?all" and srt: "sorted (map snd ?all)"
    and near: "\<forall>p \<in> set ?all. snd p \<le> d + 1" and id: "0 \<le> d" "walk store start (nat d) i"
    using inv by (auto simp: walk_inv_def sorted_append)
  have c1: "hd ((hist @ [(i, d)]) @ queue') = (start, 0)"
    unfolding all using inv by (auto simp: walk_inv_def hd_append)
  have c2: "distinct (map fst ((hist @ [(i, d)]) @ queue'))"
  proof -
    have "distinct (map fst ?all)" using inv by (simp add: walk_inv_def)
    moreover have "set (map fst ?all) \<inter> set new = {}" using new vis by auto
    ultimately show ?thesis unfolding all using dn by (auto simp: comp_def)
  qed
  have c3: "visited' = fst ` set ((hist @ [(i, d)]) @ queue')"
    unfolding all v by (auto simp: vis image_Un image_image)
  have c4: "sorted (map snd ((hist @ [(i, d)]) @ queue'))"
    unfolding all using srt near by (auto simp: sorted_append comp_def map_replicate_const)
  have c5: "\<forall>p \<in> set queue'. snd p \<le> snd (hd queue') + 1"
  proof
    fix p assume p: "p \<in> set queue'"
    then have "hd queue' \<in> set queue'" by (cases queue') auto
    then have "d \<le> snd (hd queue')" unfolding q using srt by (auto simp: sorted_append)
    moreover have "snd p \<le> d + 1" using p near unfolding q by auto
    ultimately show "snd p \<le> snd (hd queue') + 1" by simp
  qed
  have c6: "\<forall>(j, k) \<in> set ((hist @ [(i, d)]) @ queue').
      0 \<le> k \<and> (k = 0 \<or> k \<le> maxDepth g) \<and> walk store start (nat k) j"
  proof -
    have "walk store start (nat (d + 1)) j" if "j \<in> set new" for j
      using walk_step [OF id(2) e, of j] that new id(1) by (simp add: nat_add_distrib)
    moreover have "\<forall>(j, k) \<in> set ?all. 0 \<le> k \<and> (k = 0 \<or> k \<le> maxDepth g) \<and> walk store start (nat k) j"
      using inv by (simp add: walk_inv_def)
    ultimately show ?thesis
      unfolding all set_append ball_Un using d id(1) by simp
  qed
  have c7: "\<forall>(j, k) \<in> set (hist @ [(i, d)]). \<forall>e. store j = Some e \<and> k < maxDepth g \<longrightarrow>
      (\<forall>b \<in> targets e. \<exists>d' \<le> k + 1. (b, d') \<in> set ((hist @ [(i, d)]) @ queue'))"
  proof -
    have "\<exists>d' \<le> d + 1. (b, d') \<in> set ((hist @ [(i, d)]) @ queue')" if "b \<in> targets e" for b
    proof (cases "b \<in> visited")
      case True
      then have "\<exists>k. (b, k) \<in> set ?all" unfolding vis by force
      then obtain k where "(b, k) \<in> set ?all" by blast
      moreover from bspec [OF near this] have "k \<le> d + 1" by simp
      ultimately show ?thesis unfolding all by auto
    next
      case False
      with that new have "(b, d + 1) \<in> set ((hist @ [(i, d)]) @ queue')" unfolding all by auto
      then show ?thesis by blast
    qed
    moreover have "\<forall>(j, k) \<in> set hist. \<forall>e. store j = Some e \<and> k < maxDepth g \<longrightarrow>
        (\<forall>b \<in> targets e. \<exists>d' \<le> k + 1. (b, d') \<in> set ?all)"
      using inv by (simp add: walk_inv_def)
    ultimately show ?thesis
      unfolding all using e by fastforce
  qed
  have "res @ [e] = List.map_filter store (map fst (hist @ [(i, d)]))"
    using inv e by (simp add: walk_inv_def List.map_filter_def)
  with c1 c2 c3 c4 c5 c6 c7 show ?thesis
    unfolding walk_inv_def by simp
qed

section \<open>Every backend\<close>

text \<open>What the walk returns, in terms of the distance in the link graph.\<close>

definition walk_result ::
  "(string \<Rightarrow> stored_event option) \<Rightarrow> event_graph \<Rightarrow> string \<Rightarrow> stored_event list \<Rightarrow> bool" where
  "walk_result store g start res \<longleftrightarrow>
     int (length res) \<le> max 0 (maxEvents g) \<and>
     (\<forall>e \<in> set res. \<exists>i n. store i = Some e \<and> walk store start n i \<and> (n = 0 \<or> int n \<le> maxDepth g)) \<and>
     (int (length res) < maxEvents g \<longrightarrow>
        (\<forall>i n e. walk store start n i \<and> int n \<le> maxDepth g \<and> store i = Some e \<longrightarrow> e \<in> set res)) \<and>
     (\<forall>i n e. walk store start n i \<and> int n \<le> maxDepth g \<and> store i = Some e \<and> e \<notin> set res \<longrightarrow>
        (\<forall>e' \<in> set res. \<exists>i' n'. store i' = Some e' \<and> walk store start n' i' \<and> n' \<le> n)) \<and>
     (\<forall>e. store start = Some e \<and> 0 < maxEvents g \<longrightarrow> res \<noteq> [] \<and> hd res = e)"

lemma walk_invD:
  assumes "walk_inv store g start hist visited queue res"
  shows "(i, d) \<in> set hist \<Longrightarrow> 0 \<le> d \<and> (d = 0 \<or> d \<le> maxDepth g) \<and> walk store start (nat d) i"
    and "(i, d) \<in> set queue \<Longrightarrow> 0 \<le> d \<and> (d = 0 \<or> d \<le> maxDepth g) \<and> walk store start (nat d) i"
    and "set res = {e. \<exists>(i, d) \<in> set hist. store i = Some e}"
proof -
  have w: "\<forall>(i, d) \<in> set (hist @ queue). 0 \<le> d \<and> (d = 0 \<or> d \<le> maxDepth g) \<and> walk store start (nat d) i"
    using assms unfolding walk_inv_def by (elim conjE)
  have r: "res = List.map_filter store (map fst hist)"
    using assms unfolding walk_inv_def by (elim conjE)
  from bspec [OF w, of "(i, d)"]
  show "(i, d) \<in> set hist \<Longrightarrow> 0 \<le> d \<and> (d = 0 \<or> d \<le> maxDepth g) \<and> walk store start (nat d) i"
    and "(i, d) \<in> set queue \<Longrightarrow> 0 \<le> d \<and> (d = 0 \<or> d \<le> maxDepth g) \<and> walk store start (nat d) i"
    by simp_all
  show "set res = {e. \<exists>(i, d) \<in> set hist. store i = Some e}"
    unfolding r by (force simp: List.map_filter_def)
qed

lemma walk_inv_complete:
  assumes "walk_inv store g start hist visited [] res"
    and "walk store start n i" and "int n \<le> maxDepth g"
  shows "\<exists>d \<le> int n. (i, d) \<in> set hist"
  using assms(2,3)
proof (induction n arbitrary: i)
  case 0
  then have "i = start" by (auto elim: walk_0E)
  moreover have "hist \<noteq> []" "hd hist = (start, 0)"
    using assms(1) by (auto simp: walk_inv_def)
  ultimately show ?case using hd_in_set by fastforce
next
  case (Suc n)
  from Suc.prems(1) obtain a e where a: "walk store start n a" "store a = Some e" "i \<in> targets e"
    by (auto elim: walk_SucE)
  from Suc.IH [OF a(1)] Suc.prems(2) obtain d where d: "d \<le> int n" "(a, d) \<in> set hist" by auto
  with Suc.prems(2) have "d < maxDepth g" by simp
  with assms(1) a(2,3) d(2) obtain d' where "d' \<le> d + 1" "(i, d') \<in> set hist"
    by (fastforce simp: walk_inv_def)
  with d(1) show ?case by (auto intro!: exI [of _ d'])
qed

lemma walk_inv_sound:
  assumes "walk_inv store g start hist visited queue res" and "e \<in> set res"
  shows "\<exists>i n. store i = Some e \<and> walk store start n i \<and> (n = 0 \<or> int n \<le> maxDepth g)"
proof -
  from assms walk_invD(3) [OF assms(1)] obtain i d where d: "(i, d) \<in> set hist" and e: "store i = Some e"
    by auto
  from walk_invD(1) [OF assms(1) d] e show ?thesis
    by (intro exI [of _ i] exI [of _ "nat d"]) auto
qed

text \<open>While the walk is on, everything nearer than the head of the queue has been taken.\<close>

lemma walk_inv_nearer:
  assumes inv: "walk_inv store g start hist visited ((j, d) # queue) res"
    and "walk store start n i" and "int n \<le> maxDepth g" and "int n \<le> d"
  shows "\<exists>k \<le> int n. (i, k) \<in> set (hist @ (j, d) # queue)"
  using assms(2-4)
proof (induction n arbitrary: i)
  case 0
  then have "i = start" by (auto elim: walk_0E)
  moreover have "hd (hist @ (j, d) # queue) = (start, 0)"
    using inv unfolding walk_inv_def by (elim conjE)
  ultimately show ?case using hd_in_set [of "hist @ (j, d) # queue"] by auto
next
  case (Suc n)
  from Suc.prems(1) obtain a e where a: "walk store start n a" "store a = Some e" "i \<in> targets e"
    by (auto elim: walk_SucE)
  from Suc.IH [OF a(1)] Suc.prems(2,3) obtain k where k: "k \<le> int n" "(a, k) \<in> set (hist @ (j, d) # queue)"
    by auto
  have srt: "sorted (map snd (hist @ (j, d) # queue))"
    using inv unfolding walk_inv_def by (elim conjE)
  have cl: "\<forall>(i, d') \<in> set hist. \<forall>e. store i = Some e \<and> d' < maxDepth g \<longrightarrow>
      (\<forall>b \<in> targets e. \<exists>d'' \<le> d' + 1. (b, d'') \<in> set (hist @ (j, d) # queue))"
    using inv unfolding walk_inv_def by (elim conjE)
  have "(a, k) \<notin> set ((j, d) # queue)"
    using srt k(1) Suc.prems(3) by (auto simp: sorted_append)
  with k(2) have "(a, k) \<in> set hist" by auto
  with bspec [OF cl this] a(2,3) k(1) Suc.prems(2)
  obtain d'' where "d'' \<le> k + 1" "(i, d'') \<in> set (hist @ (j, d) # queue)" by auto
  with k(1) show ?case by (intro exI [of _ d'']) auto
qed

lemma walk_inv_kept_nearer:
  assumes inv: "walk_inv store g start hist visited queue res"
    and w: "walk store start n i" "int n \<le> maxDepth g" and e: "store i = Some e" "e \<notin> set res"
    and e': "e' \<in> set res"
  shows "\<exists>i' n'. store i' = Some e' \<and> walk store start n' i' \<and> n' \<le> n"
proof (cases queue)
  case Nil
  with walk_inv_complete [OF inv [unfolded Nil] w] walk_invD(3) [OF inv] e show ?thesis by blast
next
  case (Cons p rest)
  then obtain j d where q: "queue = (j, d) # rest" by (cases p) auto
  note inv = inv [unfolded q]
  have srt: "sorted (map snd (hist @ (j, d) # rest))"
    using inv unfolding walk_inv_def by (elim conjE)
  from walk_invD(3) [OF inv] e' obtain i' d' where h: "(i', d') \<in> set hist" "store i' = Some e'" by auto
  from walk_invD(1) [OF inv h(1)] have w': "0 \<le> d'" "walk store start (nat d') i'" by auto
  have "d' \<le> d" using srt h(1) by (force simp: sorted_append)
  moreover have "d \<le> int n"
  proof (rule ccontr)
    assume "\<not> d \<le> int n"
    with walk_inv_nearer [OF inv w] obtain k where k: "k \<le> int n" "(i, k) \<in> set (hist @ (j, d) # rest)"
      by auto
    have "(i, k) \<notin> set ((j, d) # rest)"
      using srt k(1) \<open>\<not> d \<le> int n\<close> by (auto simp: sorted_append)
    with k(2) have "(i, k) \<in> set hist" by auto
    with walk_invD(3) [OF inv] e show False by blast
  qed
  ultimately have "nat d' \<le> n" using w'(1) by linarith
  with h(2) w'(2) show ?thesis by blast
qed

lemma walk_inv_first:
  assumes inv: "walk_inv store g start hist visited queue res"
    and "queue = [] \<or> \<not> int (length res) < maxEvents g"
    and "store start = Some e" and "0 < maxEvents g"
  shows "res \<noteq> [] \<and> hd res = e"
proof -
  have h: "hd (hist @ queue) = (start, 0) \<and> hist @ queue \<noteq> [] \<and> res = List.map_filter store (map fst hist)"
    using inv unfolding walk_inv_def by (elim conjE) (intro conjI; assumption)
  have "hist \<noteq> []"
    using assms(2,4) h by (auto simp: List.map_filter_def)
  then obtain rest where "hist = (start, 0) # rest" using h by (cases hist) auto
  with h assms(3) show ?thesis by (simp add: List.map_filter_def)
qed

lemma walk_inv_result:
  assumes inv: "walk_inv store g start hist visited queue res"
    and "int (length res) \<le> max 0 (maxEvents g)"
    and "queue = [] \<or> \<not> int (length res) < maxEvents g"
  shows "walk_result store g start res"
proof -
  have "e \<in> set res" if "int (length res) < maxEvents g" "walk store start n i" "int n \<le> maxDepth g"
    "store i = Some e" for i n e
  proof -
    from that(1) assms(3) have "queue = []" by simp
    with inv have inv': "walk_inv store g start hist visited [] res" by simp
    from walk_inv_complete [OF this that(2,3)] obtain d where "(i, d) \<in> set hist" by blast
    with walk_invD(3) [OF inv'] that(4) show ?thesis by blast
  qed
  then show ?thesis
    using walk_inv_sound [OF inv] walk_inv_kept_nearer [OF inv] walk_inv_first [OF inv assms(3)] assms(2)
    unfolding walk_result_def by blast
qed

text \<open>How the walk fails: with an error other than a missing event, for an id it reached.\<close>

definition walk_failure ::
  "'s storage \<Rightarrow> ctx \<Rightarrow> (string \<Rightarrow> stored_event option) \<Rightarrow> string \<Rightarrow> 's \<Rightarrow> gerror \<Rightarrow> bool" where
  "walk_failure S ctx store start s err \<longleftrightarrow>
     (\<exists>i n e0. walk store start n i \<and> fst (GetEvent S ctx i s) = Inl e0 \<and>
        \<not> errors_is e0 ErrNotFound \<and> err = ErrWrap (''failed to load event '' @ i @ '': '') e0 [])"

context storage_contract
begin

lemma traverse_loop_result:
  assumes "walk_inv (evs s) g start hist visited queue res" and "inv s"
    and "int (length res) \<le> max 0 (maxEvents g)"
    and "traverse_loop S g ctx visited queue res s = (r, s')"
  shows "s' = s \<and> (\<forall>out. r = Inr out \<longrightarrow> walk_result (evs s) g start out \<and> (\<exists>more. out = res @ more)) \<and>
    (\<forall>err. r = Inl err \<longrightarrow> walk_failure S ctx (evs s) start s err)"
  using assms storage_contract_axioms
proof (induction S g ctx visited queue res s arbitrary: hist rule: traverse_loop.induct)
  case (1 S g ctx visited res s)
  from 1(4) have "r = Inr res" "s' = s" by (auto simp: traverse_loop.simps)
  with walk_inv_result [OF 1(1,3)] show ?case by simp
next
  case (2 S g ctx visited i d queue res s)
  note inv = \<open>walk_inv (evs s) g start hist visited ((i, d) # queue) res\<close>
    and s = \<open>inv s\<close> and len = \<open>int (length res) \<le> max 0 (maxEvents g)\<close>
    and run = \<open>traverse_loop S g ctx visited ((i, d) # queue) res s = (r, s')\<close>
    and ax = \<open>storage_contract S inv deps evs key_ok\<close>
  show ?case
  proof (cases "int (length res) < maxEvents g")
    case False
    with run have "r = Inr res" "s' = s" by (auto simp: traverse_loop.simps)
    with walk_inv_result [OF inv len] False show ?thesis by simp
  next
    case True
    have st: "snd (GetEvent S ctx i s) = s" by (rule storage_contract.get_ev_state [OF ax s])
    show ?thesis
    proof (cases "fst (GetEvent S ctx i s)")
      case (Inl err)
      with st have g: "GetEvent S ctx i s = (Inl err, s)" by (metis prod.collapse)
      show ?thesis
      proof (cases "errors_is err ErrNotFound")
        case nf: True
        from storage_contract.get_ev_missing [OF ax s Inl nf]
        have "walk_inv (evs s) g start (hist @ [(i, d)]) visited queue res"
          by (rule walk_inv_skip [OF inv])
        from "2.IH"(1) [OF True g [symmetric] refl nf this s len _ ax] run
        show ?thesis using True g nf by (simp add: traverse_loop.simps)
      next
        case nf: False
        have "walk (evs s) start (nat d) i" using walk_invD(2) [OF inv, of i d] by simp
        with Inl nf run True g show ?thesis
          by (auto simp: traverse_loop.simps walk_failure_def)
      qed
    next
      case (Inr e)
      with st have g: "GetEvent S ctx i s = (Inr e, s)" by (metis prod.collapse)
      from storage_contract.get_ev_found [OF ax s Inr] have e: "evs s i = Some e" .
      have len': "int (length (res @ [e])) \<le> max 0 (maxEvents g)" using True by simp
      show ?thesis
      proof (cases "maxDepth g \<le> d")
        case leaf: True
        from run have run': "traverse_loop S g ctx visited queue (res @ [e]) s = (r, s')"
          using True g leaf by (simp add: traverse_loop.simps)
        from "2.IH"(2) [OF True g [symmetric] refl leaf walk_inv_leaf [OF inv e leaf] s len' run' ax]
        show ?thesis by auto
      next
        case inner: False
        obtain visited' queue' where p: "push_links d (ev_Links e) visited queue = (visited', queue')"
          by (cases "push_links d (ev_Links e) visited queue")
        from run have run': "traverse_loop S g ctx visited' queue' (res @ [e]) s = (r, s')"
          using True g inner p by (simp add: traverse_loop.simps)
        from "2.IH"(3) [OF True g [symmetric] refl inner p [symmetric] walk_inv_expand [OF inv e inner p] s len' run' ax]
        show ?thesis by auto
      qed
    qed
  qed
qed

lemma TraverseChain_result:
  assumes "inv s" and "TraverseChain S g ctx start s = (r, s')"
  shows "s' = s \<and> (\<forall>out. r = Inr out \<longrightarrow> walk_result (evs s) g start out) \<and>
    (\<forall>err. r = Inl err \<longrightarrow> walk_failure S ctx (evs s) start s err)"
  using traverse_loop_result [OF walk_inv_start assms(1) _ assms(2) [unfolded TraverseChain_def]]
  by auto

end

text \<open>Under the live contract a walk cannot fail.\<close>

context storage_live
begin

lemma TraverseChain_live:
  assumes "inv s"
  shows "\<exists>out. TraverseChain S g None start s = (Inr out, s) \<and> walk_result (evs s) g start out"
proof -
  obtain r s' where t: "TraverseChain S g None start s = (r, s')"
    by (cases "TraverseChain S g None start s")
  note res = TraverseChain_result [OF assms t]
  show ?thesis
  proof (cases r)
    case (Inl err)
    with res obtain i e0 where "fst (GetEvent S None i s) = Inl e0" "\<not> errors_is e0 ErrNotFound"
      by (auto simp: walk_failure_def)
    with live_get_ev [of i s e0] show ?thesis by simp
  qed (use res t in auto)
qed

end

section \<open>Properties\<close>


text \<open>A store whose links form a cycle and point at an event that never arrived.\<close>

definition cyclic_store :: memory where
  "cyclic_store = run_saves
     [Save_Event (sample_event ''d'' ''service.deployed'' ''c'' 30 [''p'', ''gone'']),
      Save_Event (sample_event ''p'' ''pipelinerun.finished'' [] 20 [''m'', ''d'']),
      Save_Event (sample_event ''m'' ''change.merged'' [] 10 [''d'']),
      Save_Event (sample_event ''x'' ''service.deployed'' ''c'' 40 [])]"

lemma cyclic_store_plain: "memory_plain cyclic_store"
  unfolding cyclic_store_def by (rule run_saves_state [THEN conjunct1]) (simp add: plain_save_def)


text \<open>
  C16. The walk fails only for an error other than a missing event: it then names the id it could
  not load, an id it reached over stored events, and keeps the error of the store inside; and
  no walk changes the store.
\<close>

theorem TraverseChain_errors:
  assumes "memory_plain m" and "visit_ok rng"
    and "TraverseChain (MemoryStorage rng) g ctx start m = (Inl err, m')"
  shows "m' = m \<and> (\<exists>i n e0. walk (memory_evs m) start n i \<and> \<not> errors_is e0 ErrNotFound \<and>
    err = ErrWrap (''failed to load event '' @ i @ '': '') e0 [] \<and>
    fst (mem_GetEvent ctx i m) = Inl e0 \<and> \<not> errors_is err ErrNotFound)"
  using storage_contract.TraverseChain_result [OF storage_live.axioms(1) [OF memory_contract [OF assms(2)]]
      assms(1,3)]
  by (auto simp: walk_failure_def)

theorem TraverseChain_errors_witness:
  "\<exists>err. fst (TraverseChain (MemoryStorage stored_order) NewEventGraph (Some ''context canceled'') ''d''
      cyclic_store) = Inl err \<and> \<not> errors_is err ErrNotFound"
proof -
  obtain r m' where t: "TraverseChain (MemoryStorage stored_order) NewEventGraph
      (Some ''context canceled'') ''d'' cyclic_store = (r, m')" by fastforce
  then have "r = Inl (ErrWrap ''failed to load event d: '' (ErrCtx ''context canceled'') [])"
    by (auto simp: TraverseChain_def traverse_loop.simps mem_GetEvent_def NewEventGraph_def
        DefaultMaxEvents_def)
  with t TraverseChain_errors [OF cyclic_store_plain visit_ok_orders(1) t [unfolded this]] show ?thesis
    by auto
qed

end
