(* ===== verification/Go_Regexp.thy ===== *)
theory Go_Regexp
  imports Go_RFC3339
begin

text \<open>
  The fragment of Go's \<open>regexp\<close> the program uses: character classes, sequence, option,
  repetition, a matcher by derivatives with its correctness, and the leftmost match of a
  pattern of the form \<open>(?:^|[set])(body)$\<close>, whose group is the rest of the text.
\<close>

datatype rx =
    RNone
  | REmpty
  | RChar "char \<Rightarrow> bool"
  | RSeq rx rx
  | RAlt rx rx
  | RStar rx

definition ROpt :: "rx \<Rightarrow> rx" where
  "ROpt r = RAlt r REmpty"

definition RPlus :: "rx \<Rightarrow> rx" where
  "RPlus r = RSeq r (RStar r)"

inductive matches :: "rx \<Rightarrow> string \<Rightarrow> bool" where
  empty: "matches REmpty []"
| char: "p c \<Longrightarrow> matches (RChar p) [c]"
| seq: "matches a x \<Longrightarrow> matches b y \<Longrightarrow> matches (RSeq a b) (x @ y)"
| alt_left: "matches a x \<Longrightarrow> matches (RAlt a b) x"
| alt_right: "matches b x \<Longrightarrow> matches (RAlt a b) x"
| star_nil: "matches (RStar a) []"
| star_cons: "matches a x \<Longrightarrow> matches (RStar a) y \<Longrightarrow> matches (RStar a) (x @ y)"

inductive_cases matches_none: "matches RNone s"
inductive_cases matches_empty: "matches REmpty s"
inductive_cases matches_char: "matches (RChar p) s"
inductive_cases matches_seq: "matches (RSeq a b) s"
inductive_cases matches_alt: "matches (RAlt a b) s"

inductive_simps matches_empty_iff: "matches REmpty s"
inductive_simps matches_char_iff: "matches (RChar p) s"
inductive_simps matches_seq_iff: "matches (RSeq a b) s"
inductive_simps matches_alt_iff: "matches (RAlt a b) s"
inductive_simps matches_none_iff: "matches RNone s"

lemmas matches_iffs =
  matches_none_iff matches_empty_iff matches_char_iff matches_seq_iff matches_alt_iff

primrec nullable :: "rx \<Rightarrow> bool" where
  "nullable RNone = False"
| "nullable REmpty = True"
| "nullable (RChar p) = False"
| "nullable (RSeq a b) = (nullable a \<and> nullable b)"
| "nullable (RAlt a b) = (nullable a \<or> nullable b)"
| "nullable (RStar a) = True"

primrec deriv :: "char \<Rightarrow> rx \<Rightarrow> rx" where
  "deriv c RNone = RNone"
| "deriv c REmpty = RNone"
| "deriv c (RChar p) = (if p c then REmpty else RNone)"
| "deriv c (RSeq a b) =
     (if nullable a then RAlt (RSeq (deriv c a) b) (deriv c b) else RSeq (deriv c a) b)"
| "deriv c (RAlt a b) = RAlt (deriv c a) (deriv c b)"
| "deriv c (RStar a) = RSeq (deriv c a) (RStar a)"

fun rx_match :: "rx \<Rightarrow> string \<Rightarrow> bool" where
  "rx_match r [] = nullable r"
| "rx_match r (c # s) = rx_match (deriv c r) s"

lemma nullable_iff: "nullable r \<longleftrightarrow> matches r []"
  by (induction r) (auto simp: matches_iffs intro: matches.intros)

lemma star_Cons:
  assumes "matches (RStar a) s" and "s = c # t"
  shows "\<exists>x y. t = x @ y \<and> matches a (c # x) \<and> matches (RStar a) y"
  using assms
proof (induction "RStar a" s arbitrary: t rule: matches.induct)
  case star_nil
  then show ?case by simp
next
  case (star_cons x y)
  then show ?case
    by (cases x) auto
qed

lemma deriv_iff: "matches (deriv c r) s \<longleftrightarrow> matches r (c # s)"
proof (induction r arbitrary: s)
  case (RSeq a b)
  then show ?case
    by (auto simp: matches_iffs nullable_iff Cons_eq_append_conv)
next
  case (RStar a)
  show ?case
  proof
    assume "matches (deriv c (RStar a)) s"
    then obtain x y where "s = x @ y" "matches a (c # x)" "matches (RStar a) y"
      by (auto simp: matches_seq_iff RStar)
    then show "matches (RStar a) (c # s)"
      using matches.star_cons [of a "c # x" y] by simp
  next
    assume "matches (RStar a) (c # s)"
    then show "matches (deriv c (RStar a)) s"
      using star_Cons [of a "c # s" c s] by (auto simp: matches_seq_iff RStar)
  qed
qed (auto simp: matches_iffs)

theorem rx_match_iff: "rx_match r s \<longleftrightarrow> matches r s"
  by (induction r s rule: rx_match.induct) (simp_all add: nullable_iff deriv_iff)

lemma matches_plus_class: "s \<noteq> [] \<Longrightarrow> list_all p s \<Longrightarrow> matches (RPlus (RChar p)) s"
proof (induction s)
  case Nil
  then show ?case by simp
next
  case (Cons c s)
  have "matches (RStar (RChar p)) s"
  proof (cases "s = []")
    case True
    then show ?thesis by (simp add: matches.star_nil)
  next
    case False
    with Cons obtain x y where "s = x @ y" "matches (RChar p) x" "matches (RStar (RChar p)) y"
      by (auto simp: RPlus_def matches_seq_iff)
    then show ?thesis by (auto intro: matches.star_cons)
  qed
  with Cons.prems show ?case
    using matches.seq [OF matches.char [of p c], of "RStar (RChar p)" s] by (simp add: RPlus_def)
qed

lemma matches_star_class: "matches (RStar (RChar p)) s \<Longrightarrow> list_all p s"
  by (induction "RStar (RChar p)" s rule: matches.induct) (auto simp: matches_iffs)

lemma matches_plus_class_iff: "matches (RPlus (RChar p)) s \<longleftrightarrow> s \<noteq> [] \<and> list_all p s"
  using matches_plus_class matches_star_class
  by (auto simp: RPlus_def matches_seq_iff matches_char_iff)

text \<open>
  \<open>FindStringSubmatch\<close> for \<open>(?:^|[set])(body)$\<close>: start positions from the left, at each the
  alternatives in their order. The group ends at the end of the text, so it is determined by
  where it starts.
\<close>

fun find_tail :: "(char \<Rightarrow> bool) \<Rightarrow> rx \<Rightarrow> bool \<Rightarrow> string \<Rightarrow> string option" where
  "find_tail p r at_start s =
     (if at_start \<and> rx_match r s then Some s
      else case s of
        [] \<Rightarrow> None
      | c # t \<Rightarrow> if p c \<and> rx_match r t then Some t else find_tail p r False t)"

declare find_tail.simps [simp del]

lemma find_tail_start: "b \<Longrightarrow> rx_match r s \<Longrightarrow> find_tail p r b s = Some s"
  by (simp add: find_tail.simps [of p r True s])

lemma find_tail_Nil: "\<not> (b \<and> rx_match r []) \<Longrightarrow> find_tail p r b [] = None"
  by (subst find_tail.simps) auto

lemma find_tail_Cons:
  "\<not> (b \<and> rx_match r (c # u)) \<Longrightarrow>
   find_tail p r b (c # u) = (if p c \<and> rx_match r u then Some u else find_tail p r False u)"
  by (subst find_tail.simps) auto

text \<open>A position where the group may start: the beginning, or after a character of the set.\<close>

definition boundary :: "(char \<Rightarrow> bool) \<Rightarrow> bool \<Rightarrow> string \<Rightarrow> bool" where
  "boundary p at_start pre \<longleftrightarrow> (if pre = [] then at_start else p (last pre))"

text \<open>The match found is the longest tail at a boundary that the body matches.\<close>

lemma find_tail_Some:
  "find_tail p r b s = Some t \<Longrightarrow>
   \<exists>pre. s = pre @ t \<and> boundary p b pre \<and> matches r t \<and>
     (\<forall>pre' t'. s = pre' @ t' \<and> boundary p b pre' \<and> matches r t' \<longrightarrow> length t' \<le> length t)"
proof (induction p r b s rule: find_tail.induct)
  case (1 p r b s)
  show ?case
  proof (cases "b \<and> rx_match r s")
    case True
    with "1.prems" have "t = s" by (simp add: find_tail_start)
    with True show ?thesis
      by (intro exI [of _ "[]"]) (auto simp: boundary_def rx_match_iff)
  next
    case False
    note here = False
    with "1.prems" obtain c u where s: "s = c # u"
      by (cases s) (auto simp: find_tail_Nil)
    have no_start: "\<not> (boundary p b [] \<and> matches r s)"
      using here by (simp add: boundary_def rx_match_iff)
    show ?thesis
    proof (cases "p c \<and> rx_match r u")
      case True
      with "1.prems" here s have "t = u" by (simp add: find_tail_Cons)
      with True s no_start show ?thesis
        by (intro exI [of _ "[c]"]) (auto simp: boundary_def rx_match_iff Cons_eq_append_conv)
    next
      case False
      with "1.prems" here s have "find_tail p r False u = Some t"
        by (auto simp: find_tail_Cons split: if_splits)
      with "1.IH" [OF here s False] obtain pre where pre: "u = pre @ t" "boundary p False pre"
          "matches r t"
        and max: "\<And>pre' t'. u = pre' @ t' \<Longrightarrow> boundary p False pre' \<Longrightarrow> matches r t' \<Longrightarrow>
          length t' \<le> length t"
        by blast
      have ne: "pre \<noteq> []"
        using pre(2) by (auto simp: boundary_def)
      have "length t' \<le> length t"
        if "s = pre' @ t'" "boundary p b pre'" "matches r t'" for pre' t'
      proof (cases pre')
        case Nil
        with that no_start show ?thesis by simp
      next
        case (Cons d q)
        with that s have u: "u = q @ t'" "d = c" by auto
        show ?thesis
        proof (cases "q = []")
          case True
          with that(2,3) Cons u False show ?thesis by (auto simp: boundary_def rx_match_iff)
        next
          case q: False
          with that(2) Cons have "boundary p False q" by (simp add: boundary_def)
          with max u(1) that(3) show ?thesis by blast
        qed
      qed
      moreover have "boundary p b (c # pre)"
        using pre(2) ne by (simp add: boundary_def)
      ultimately show ?thesis
        using s pre by (intro exI [of _ "c # pre"]) auto
    qed
  qed
qed

lemma find_tail_None:
  "find_tail p r b s = None \<Longrightarrow> s = pre @ t \<Longrightarrow> boundary p b pre \<Longrightarrow> \<not> matches r t"
proof (induction p r b s arbitrary: pre rule: find_tail.induct)
  case (1 p r b s)
  show ?case
  proof (cases pre)
    case Nil
    with 1 show ?thesis
      using find_tail_start [of b r s p] by (auto simp: boundary_def rx_match_iff)
  next
    case (Cons c q)
    with "1.prems" have s: "s = c # (q @ t)" by simp
    have here: "\<not> (b \<and> rx_match r s)"
      using "1.prems"(1) find_tail_start [of b r s p] by auto
    with "1.prems"(1) s have step: "\<not> (p c \<and> rx_match r (q @ t))"
      and rest: "find_tail p r False (q @ t) = None"
      by (auto simp: find_tail_Cons split: if_splits)
    show ?thesis
    proof (cases "q = []")
      case True
      with step Cons "1.prems"(3) show ?thesis
        by (simp add: boundary_def rx_match_iff)
    next
      case False
      with Cons "1.prems"(3) have "boundary p False q" by (simp add: boundary_def)
      then show ?thesis
        using "1.IH" [OF here s step rest, of q] by simp
    qed
  qed
qed

end
