(* ===== verification/Event_Fields.thy ===== *)
theory Event_Fields
  imports Event_Types Go_Regexp
begin

text \<open>
  The lookup helpers of \<open>internal/cdevents/fields.go\<close>: values out of dynamic maps by ordered
  lists of keys and maps, and the version a CI tool hides in an artifact id.
\<close>

section \<open>Lookups\<close>

definition getStringField :: "anymap \<Rightarrow> string \<Rightarrow> string" where
  "getStringField m key =
     (case m of
        None \<Rightarrow> []
      | Some al \<Rightarrow> (case map_of al key of Some (VStr str) \<Rightarrow> str | _ \<Rightarrow> []))"

text \<open>The loop of \<open>getNestedString\<close>: every key but the last must lead to a map.\<close>

fun nested_loop :: "(string, gval) gomap \<Rightarrow> string list \<Rightarrow> string" where
  "nested_loop current [] = []"
| "nested_loop current [key] = (case map_of current key of Some (VStr str) \<Rightarrow> str | _ \<Rightarrow> [])"
| "nested_loop current (key # key' # keys) =
     (case map_of current key of Some (VMap next) \<Rightarrow> nested_loop next (key' # keys) | _ \<Rightarrow> [])"

definition getNestedString :: "anymap \<Rightarrow> string list \<Rightarrow> string" where
  "getNestedString m keys =
     (case m of None \<Rightarrow> [] | Some al \<Rightarrow> if keys = [] then [] else nested_loop al keys)"

fun firstNonEmpty :: "string list \<Rightarrow> string" where
  "firstNonEmpty [] = []"
| "firstNonEmpty (v # vs) = (if v \<noteq> [] then v else firstNonEmpty vs)"

text \<open>The inner loop of \<open>stringFrom\<close>, over the keys of one map.\<close>

fun string_from_keys :: "string list \<Rightarrow> anymap \<Rightarrow> string" where
  "string_from_keys [] m = []"
| "string_from_keys (key # keys) m =
     (let v = getStringField m key in if v \<noteq> [] then v else string_from_keys keys m)"

fun stringFrom :: "string list \<Rightarrow> anymap list \<Rightarrow> string" where
  "stringFrom keys [] = []"
| "stringFrom keys (m # ms) =
     (let v = string_from_keys keys m in if v \<noteq> [] then v else stringFrom keys ms)"

text \<open>The type switch of \<open>identityFrom\<close> on one value.\<close>

definition identity_value :: "gval option \<Rightarrow> string" where
  "identity_value val =
     (case val of
        Some (VStr v) \<Rightarrow> v
      | Some (VMap v) \<Rightarrow> stringFrom [''id'', ''url'', ''name''] [Some v]
      | _ \<Rightarrow> [])"

fun identity_from_keys :: "string list \<Rightarrow> (string, gval) gomap \<Rightarrow> string" where
  "identity_from_keys [] m = []"
| "identity_from_keys (key # keys) m =
     (let s = identity_value (map_of m key) in if s \<noteq> [] then s else identity_from_keys keys m)"

fun identityFrom :: "string list \<Rightarrow> anymap list \<Rightarrow> string" where
  "identityFrom keys [] = []"
| "identityFrom keys (m # ms) =
     (case m of
        None \<Rightarrow> identityFrom keys ms
      | Some al \<Rightarrow>
          (let s = identity_from_keys keys al in if s \<noteq> [] then s else identityFrom keys ms))"

section \<open>Versions in artifact ids\<close>

definition version_class :: "char \<Rightarrow> bool" where
  "version_class c \<longleftrightarrow>
     is_digit c \<or> between 65 90 c \<or> between 97 122 c \<or> c = CHR ''.'' \<or> c = CHR ''-''"

text \<open>The group of \<open>trailingVersionPattern\<close>, \<open>v?\d+\.\d+(?:\.\d+)?(?:[-+][0-9A-Za-z.-]+)?\<close>.\<close>

definition version_rx :: rx where
  "version_rx =
     RSeq (ROpt (RChar (\<lambda>c. c = CHR ''v'')))
     (RSeq (RPlus (RChar is_digit))
     (RSeq (RChar (\<lambda>c. c = CHR ''.''))
     (RSeq (RPlus (RChar is_digit))
     (RSeq (ROpt (RSeq (RChar (\<lambda>c. c = CHR ''.'')) (RPlus (RChar is_digit))))
       (ROpt (RSeq (RChar (\<lambda>c. c = CHR ''-'' \<or> c = CHR ''+'')) (RPlus (RChar version_class))))))))"

definition version_boundary :: "char \<Rightarrow> bool" where
  "version_boundary c \<longleftrightarrow> c = CHR ''-'' \<or> c = CHR ''_''"

definition trailingVersion :: "string \<Rightarrow> string option" where
  "trailingVersion s = find_tail version_boundary version_rx True s"

definition versionFromArtifactID :: "string \<Rightarrow> string" where
  "versionFromArtifactID artifactID =
     (let a = trim_space artifactID; at = last_index CHR ''@'' a; colon = last_index CHR '':'' a
      in if a = [] then []
         else if 0 \<le> at \<and> at < int (length a) - 1 then drop (nat (at + 1)) a
         else if has_prefix ''pkg:'' a then []
         else if 0 \<le> colon \<and> colon < int (length a) - 1 then drop (nat (colon + 1)) a
         else case trailingVersion a of Some v \<Rightarrow> v | None \<Rightarrow> [])"

section \<open>Lookups are first-non-empty searches\<close>

lemma firstNonEmpty_append:
  "firstNonEmpty (xs @ ys) = (if firstNonEmpty xs \<noteq> [] then firstNonEmpty xs else firstNonEmpty ys)"
  by (induction xs) auto

lemma firstNonEmpty_empty_iff [simp]: "firstNonEmpty vs = [] \<longleftrightarrow> (\<forall>v \<in> set vs. v = [])"
  by (induction vs) auto

lemma firstNonEmpty_append_empty:
  "\<forall>v \<in> set ys. v = [] \<Longrightarrow> firstNonEmpty (xs @ ys) = firstNonEmpty xs"
  by (induction xs) auto

lemma firstNonEmpty_in: "firstNonEmpty vs \<noteq> [] \<Longrightarrow> firstNonEmpty vs \<in> set vs"
  by (induction vs) auto

lemma getStringField_None [simp]: "getStringField None key = []"
  by (simp add: getStringField_def)

lemma string_from_keys_eq:
  "string_from_keys keys m = firstNonEmpty (map (getStringField m) keys)"
  by (induction keys) (simp_all add: Let_def)

lemma stringFrom_eq:
  "stringFrom keys ms = firstNonEmpty (concat (map (\<lambda>m. map (getStringField m) keys) ms))"
  by (induction ms)
    (simp_all add: Let_def string_from_keys_eq firstNonEmpty_append)

definition identity_at :: "anymap \<Rightarrow> string \<Rightarrow> string" where
  "identity_at m key = (case m of None \<Rightarrow> [] | Some al \<Rightarrow> identity_value (map_of al key))"

lemma identity_from_keys_eq:
  "identity_from_keys keys al = firstNonEmpty (map (identity_at (Some al)) keys)"
  by (induction keys) (simp_all add: Let_def identity_at_def)

lemma identityFrom_eq:
  "identityFrom keys ms = firstNonEmpty (concat (map (\<lambda>m. map (identity_at m) keys) ms))"
proof (induction ms)
  case Nil
  then show ?case by simp
next
  case (Cons m ms)
  show ?case
  proof (cases m)
    case None
    have "firstNonEmpty (map (identity_at None) keys) = []"
      by (simp add: identity_at_def)
    with Cons None show ?thesis
      by (simp add: firstNonEmpty_append identity_at_def)
  next
    case (Some al)
    with Cons show ?thesis
      by (simp add: Let_def identity_from_keys_eq firstNonEmpty_append)
  qed
qed

text \<open>
  Both searches are one first-non-empty search over all candidates, maps first and keys
  within a map, and a \<open>nil\<close> map or a value of another type counts as empty.
\<close>

theorem field_search_order:
  "stringFrom keys ms =
     firstNonEmpty [getStringField m key. m \<leftarrow> ms, key \<leftarrow> keys] \<and>
   identityFrom keys ms =
     firstNonEmpty [identity_at m key. m \<leftarrow> ms, key \<leftarrow> keys]"
  by (simp add: stringFrom_eq identityFrom_eq)

section \<open>Which version is found\<close>

lemma drop_after_last:
  assumes "a = b @ c # v" and "c \<notin> set v"
  shows "last_index c a = int (length b)" and "drop (nat (last_index c a + 1)) a = v"
proof -
  show i: "last_index c a = int (length b)"
    using assms by (simp add: last_index_append)
  have "nat (int (length b) + 1) = Suc (length b)" by simp
  then show "drop (nat (last_index c a + 1)) a = v"
    unfolding i by (simp add: assms(1))
qed

lemma last_index_absent: "c \<notin> set s \<Longrightarrow> last_index c s = -1"
  using last_index_neg [of c s] last_index_ge [of c s] by linarith

lemma versionFromArtifactID_at:
  assumes "trim_space s = b @ CHR ''@'' # v" and "v \<noteq> []" and "CHR ''@'' \<notin> set v"
  shows "versionFromArtifactID s = v"
  using drop_after_last [OF assms(1,3)] assms
  by (simp add: versionFromArtifactID_def Let_def)

lemma versionFromArtifactID_colon:
  assumes "trim_space s = b @ CHR '':'' # v" and "v \<noteq> []" and "CHR '':'' \<notin> set v"
    and "CHR ''@'' \<notin> set (trim_space s)"
  shows "versionFromArtifactID s = (if has_prefix ''pkg:'' (trim_space s) then [] else v)"
  using drop_after_last [OF assms(1,3)] last_index_absent [OF assms(4)] assms(1,2)
  by (simp add: versionFromArtifactID_def Let_def)

text \<open>
  A digest or version after the last \<open>@\<close> wins; without one, a package URL has no version and
  anything else has the tag after its last colon.
\<close>

theorem versionFromArtifactID_tagged:
  assumes "trim_space s = b @ c # v" and "c = CHR ''@'' \<or> c = CHR '':''" and "v \<noteq> []"
    and "CHR ''@'' \<notin> set v" and "c = CHR '':'' \<Longrightarrow> CHR '':'' \<notin> set v \<and> CHR ''@'' \<notin> set b"
  shows "versionFromArtifactID s =
    (if c = CHR '':'' \<and> has_prefix ''pkg:'' (trim_space s) then [] else v)"
proof (cases "c = CHR ''@''")
  case True
  with assms show ?thesis
    using versionFromArtifactID_at [of s b v] by simp
next
  case False
  with assms have "c = CHR '':''" by simp
  with assms show ?thesis
    using versionFromArtifactID_colon [of s b v] by auto
qed

theorem versionFromArtifactID_tagged_witness:
  "versionFromArtifactID ''pkg:oci/app@v1.2.3'' = ''v1.2.3'' \<and>
   versionFromArtifactID ''registry.io:5000/team/app:2.0.1'' = ''2.0.1''"
proof
  have "trim_space ''pkg:oci/app@v1.2.3'' = ''pkg:oci/app'' @ CHR ''@'' # ''v1.2.3''"
    by code_simp
  from versionFromArtifactID_tagged [OF this] show "versionFromArtifactID ''pkg:oci/app@v1.2.3'' = ''v1.2.3''"
    by simp
  have t: "trim_space ''registry.io:5000/team/app:2.0.1'' =
      ''registry.io:5000/team/app'' @ CHR '':'' # ''2.0.1''"
    by code_simp
  have "\<not> has_prefix ''pkg:'' (trim_space ''registry.io:5000/team/app:2.0.1'')"
    by code_simp
  with versionFromArtifactID_tagged [OF t]
  show "versionFromArtifactID ''registry.io:5000/team/app:2.0.1'' = ''2.0.1''"
    by simp
qed

text \<open>
  An id without \<open>@\<close> and colon has as its version the longest tail that starts the id or
  follows a hyphen or an underscore and matches the version pattern, and none when there is
  no such tail.
\<close>

theorem versionFromArtifactID_trailing:
  assumes "a = trim_space s" and "CHR ''@'' \<notin> set a" and "CHR '':'' \<notin> set a"
    and "versionFromArtifactID s = v"
  shows "(v \<noteq> [] \<longrightarrow>
      (\<exists>pre. a = pre @ v \<and> boundary version_boundary True pre) \<and> matches version_rx v) \<and>
    (\<forall>pre t. a = pre @ t \<and> boundary version_boundary True pre \<and> matches version_rx t \<longrightarrow>
      length t \<le> length v)"
proof -
  have no_empty: "\<not> matches version_rx []"
    by (simp add: version_rx_def ROpt_def RPlus_def flip: nullable_iff)
  have "\<not> has_prefix ''pkg:'' a"
    using assms(3) by (auto simp: has_prefix_iff)
  moreover have "last_index CHR ''@'' a = -1" "last_index CHR '':'' a = -1"
    using assms(2,3) by (simp_all add: last_index_absent)
  ultimately have v: "v = (if a = [] then [] else case trailingVersion a of Some v \<Rightarrow> v | None \<Rightarrow> [])"
    using assms(4) by (auto simp: versionFromArtifactID_def Let_def simp flip: assms(1))
  show ?thesis
  proof (cases "trailingVersion a")
    case None
    then have "v = []" by (simp add: v)
    with None show ?thesis
      using find_tail_None [of version_boundary version_rx True a] by (auto simp: trailingVersion_def)
  next
    case (Some t)
    from find_tail_Some [OF Some [unfolded trailingVersion_def]] obtain pre where
      t: "a = pre @ t" "boundary version_boundary True pre" "matches version_rx t"
      "\<forall>pre' t'. a = pre' @ t' \<and> boundary version_boundary True pre' \<and> matches version_rx t' \<longrightarrow>
        length t' \<le> length t"
      by blast
    have "t \<noteq> []"
      using t(3) no_empty by auto
    with t(1) Some have "v = t" by (simp add: v)
    with t show ?thesis by blast
  qed
qed

theorem versionFromArtifactID_trailing_witness:
  "matches version_rx (versionFromArtifactID ''pkg-sample-app-v1.2.3'')"
proof -
  let ?a = "''pkg-sample-app-v1.2.3''"
  have "trim_space ?a = ?a" "versionFromArtifactID ?a = ''v1.2.3''"
    by code_simp+
  with versionFromArtifactID_trailing [of ?a ?a "''v1.2.3''"] show ?thesis
    by simp
qed

text \<open>
  An untagged image on a registry with a port has the port and the path for a version: the
  colon of the port is taken for the colon of a tag.
\<close>

theorem versionFromArtifactID_port:
  "versionFromArtifactID ''registry.io:5000/team/app'' = ''5000/team/app''"
  by code_simp

end
