(* ===== verification/Event_Links.thy ===== *)
theory Event_Links
  imports Event_Types
begin

text \<open>
  Link normalization of \<open>internal/cdevents/links.go\<close>: the merge of the two places producers
  put links into one list without duplicates and without links that have no target, and the
  queries on it.
\<close>

section \<open>Normalization\<close>

definition link_key :: "link \<Rightarrow> string" where
  "link_key l = LinkType l @ [CHR 0x00] @ LinkID l"

text \<open>
  The loop of \<open>NormalizeLinks\<close> over the links of both places: the keys seen so far and the
  merged list are its state, one step is the closure \<open>add\<close>.
\<close>

definition add_link :: "link \<Rightarrow> string list \<times> link list \<Rightarrow> string list \<times> link list" where
  "add_link l st =
     (case st of (seen, merged) \<Rightarrow>
        if LinkID l = [] then st
        else if link_key l \<in> set seen then st
        else (link_key l # seen, merged @ [l]))"

definition merge_links :: "link list \<Rightarrow> link list" where
  "merge_links ls = snd (fold add_link ls ([], []))"

definition NormalizeLinks :: "cdevent option \<Rightarrow> cdevent option" where
  "NormalizeLinks event =
     (case event of
        None \<Rightarrow> None
      | Some e \<Rightarrow>
          let merged = merge_links (ctx_Links (Context e) @ Links e)
          in Some (e\<lparr>Context := (Context e)\<lparr>ctx_Links := merged\<rparr>, Links := []\<rparr>))"

section \<open>Queries\<close>

definition ExtractLinks :: "cdevent option \<Rightarrow> link list" where
  "ExtractLinks event = (case event of None \<Rightarrow> [] | Some e \<Rightarrow> ctx_Links (Context e))"

definition GetLinkedEventIDs :: "cdevent option \<Rightarrow> string list" where
  "GetLinkedEventIDs event =
     (case event of
        None \<Rightarrow> []
      | Some e \<Rightarrow> filter (\<lambda>i. i \<noteq> []) (map LinkID (ctx_Links (Context e))))"

definition HasLinkType :: "cdevent option \<Rightarrow> string \<Rightarrow> bool" where
  "HasLinkType event linkType =
     (case event of
        None \<Rightarrow> False
      | Some e \<Rightarrow> linkType \<noteq> [] \<and> list_ex (\<lambda>l. LinkType l = linkType) (ctx_Links (Context e)))"

section \<open>Correctness\<close>

text \<open>What the loop keeps true: the keys seen are the keys of the merged links, in reverse.\<close>

definition merge_inv :: "string list \<times> link list \<Rightarrow> bool" where
  "merge_inv st \<longleftrightarrow>
     fst st = rev (map link_key (snd st)) \<and> distinct (map link_key (snd st)) \<and>
     (\<forall>l \<in> set (snd st). LinkID l \<noteq> [])"

lemma add_link_inv: "merge_inv st \<Longrightarrow> merge_inv (add_link l st)"
  by (cases st) (auto simp: merge_inv_def add_link_def)

lemma fold_add_link_inv: "merge_inv st \<Longrightarrow> merge_inv (fold add_link ls st)"
  by (induction ls arbitrary: st) (simp_all add: add_link_inv)

lemma merge_links_inv: "merge_inv (fold add_link ls ([], []))"
  by (rule fold_add_link_inv) (simp add: merge_inv_def)

lemma merge_links_targets: "l \<in> set (merge_links ls) \<Longrightarrow> LinkID l \<noteq> []"
  using merge_links_inv [of ls] by (simp add: merge_inv_def merge_links_def)

lemma merge_links_distinct: "distinct (map link_key (merge_links ls))"
  using merge_links_inv [of ls] by (simp add: merge_inv_def merge_links_def)

lemma merge_links_snoc:
  "merge_links (ls @ [l]) =
     (if LinkID l = [] \<or> link_key l \<in> link_key ` set (merge_links ls)
      then merge_links ls else merge_links ls @ [l])"
proof -
  obtain seen merged where st: "fold add_link ls ([], []) = (seen, merged)"
    by fastforce
  have "set seen = link_key ` set merged"
    using merge_links_inv [of ls] by (auto simp: st merge_inv_def)
  then show ?thesis
    by (auto simp: merge_links_def st add_link_def)
qed

lemma merge_links_Nil [simp]: "merge_links [] = []"
  by (simp add: merge_links_def)

text \<open>
  Every key is represented by the first link that carries it: a link of the input survives
  exactly when it has a target and no link before it has its key.
\<close>

lemma merge_links_keys:
  "link_key ` set (merge_links ls) = link_key ` {l \<in> set ls. LinkID l \<noteq> []}"
  by (induction ls rule: rev_induct) (auto simp: merge_links_snoc)

lemma merge_links_subset: "set (merge_links ls) \<subseteq> set ls"
  by (induction ls rule: rev_induct) (auto simp: merge_links_snoc)

lemma link_eq: "LinkType l = LinkType l' \<Longrightarrow> LinkID l = LinkID l' \<Longrightarrow> (l :: link) = l'"
  by simp

lemma cut_link_key:
  "CHR 0x00 \<notin> set (LinkType l) \<Longrightarrow> cut CHR 0x00 (link_key l) = (LinkType l, LinkID l, True)"
  by (simp add: link_key_def cut_append)

lemma link_key_inj:
  assumes "link_key l = link_key l'"
    and "CHR 0x00 \<notin> set (LinkType l)" and "CHR 0x00 \<notin> set (LinkType l')"
  shows "(l :: link) = l'"
proof -
  have "(LinkType l, LinkID l, True) = (LinkType l', LinkID l', True)"
    using cut_link_key [OF assms(2)] cut_link_key [OF assms(3)] assms(1) by metis
  then show ?thesis
    by (intro link_eq) simp_all
qed

lemma merge_links_idem: "merge_links (merge_links ls) = merge_links ls"
proof -
  have "distinct (map link_key ms) \<Longrightarrow> \<forall>l \<in> set ms. LinkID l \<noteq> [] \<Longrightarrow> merge_links ms = ms" for ms
    by (induction ms rule: rev_induct) (auto simp: merge_links_snoc)
  then show ?thesis
    using merge_links_distinct merge_links_targets by blast
qed

text \<open>
  The reference: keep the links with a target, and of equal links the first.
\<close>

lemma merge_links_reference:
  assumes "\<forall>l \<in> set ls. CHR 0x00 \<notin> set (LinkType l)"
  shows "merge_links ls = rev (remdups (rev (filter (\<lambda>l. LinkID l \<noteq> []) ls)))"
  using assms
proof (induction ls rule: rev_induct)
  case Nil
  then show ?case by simp
next
  case (snoc l ls)
  have set_eq: "set (merge_links ls) = {k \<in> set ls. LinkID k \<noteq> []}"
    using snoc by auto
  have "link_key l \<in> link_key ` set (merge_links ls) \<longleftrightarrow> l \<in> set (merge_links ls)"
    using snoc.prems merge_links_subset [of ls] link_key_inj by fastforce
  then show ?case
    using snoc set_eq by (auto simp: merge_links_snoc)
qed

text \<open>
  C12. Normalization moves every link into the context and leaves there exactly the links with a
  target, in the order they came, context links before envelope links, the first of each group
  of equal links only, provided no link type holds a NUL, which separates the two halves of the
  key a link is compared by. Nothing else of the event changes.
\<close>

theorem NormalizeLinks_canonical:
  assumes "\<forall>l \<in> set (ctx_Links (Context e) @ Links e). CHR 0x00 \<notin> set (LinkType l)"
  shows "NormalizeLinks (Some e) =
    Some (e\<lparr>Context := (Context e)\<lparr>ctx_Links :=
              rev (remdups (rev (filter (\<lambda>l. LinkID l \<noteq> []) (ctx_Links (Context e) @ Links e))))\<rparr>,
            Links := []\<rparr>)"
  using merge_links_reference [OF assms] by (simp add: NormalizeLinks_def)

definition sample_links_event :: cdevent where
  "sample_links_event =
     \<lparr>Context = \<lparr>ctx_Version = [], ctx_ID = ''e'', ctx_Source = ''ci'', ctx_Type = ''change.merged'',
        ctx_Timestamp = zero_time, ctx_ChainID = [],
        ctx_Links = [\<lparr>LinkType = ''CAUSE'', LinkID = ''a''\<rparr>, \<lparr>LinkType = ''END'', LinkID = []\<rparr>]\<rparr>,
      Subject = \<lparr>subj_ID = ''s'', subj_Source = [], subj_Type = ''change'', subj_Content = None\<rparr>,
      CustomData = None,
      Links = [\<lparr>LinkType = ''CAUSE'', LinkID = ''a''\<rparr>, \<lparr>LinkType = ''CAUSE'', LinkID = ''b''\<rparr>]\<rparr>"

theorem NormalizeLinks_canonical_witness:
  "map_option (\<lambda>e. ctx_Links (Context e)) (NormalizeLinks (Some sample_links_event)) =
     Some [\<lparr>LinkType = ''CAUSE'', LinkID = ''a''\<rparr>, \<lparr>LinkType = ''CAUSE'', LinkID = ''b''\<rparr>]"
  using NormalizeLinks_canonical [of sample_links_event] by (simp add: sample_links_event_def)

text \<open>
  Normalizing a normalized event changes nothing.
\<close>

theorem NormalizeLinks_idempotent: "NormalizeLinks (NormalizeLinks e) = NormalizeLinks e"
  by (simp add: NormalizeLinks_def merge_links_idem split: option.splits)

end
