(* ===== verification/Event_Validator.thy ===== *)
theory Event_Validator
  imports Event_Types
begin

text \<open>
  The required-field check of \<open>internal/cdevents/validator.go\<close> and its specification as a
  search for the first missing field.
\<close>

definition required_error :: "string \<Rightarrow> gerror" where
  "required_error what = ErrWrap [] ErrInvalidEvent ('': '' @ what)"

definition Validate :: "cdevent option \<Rightarrow> gerror option" where
  "Validate event =
     (case event of
        None \<Rightarrow> Some (required_error ''event is nil'')
      | Some e \<Rightarrow>
          if ctx_ID (Context e) = [] then Some (required_error ''context.id is required'')
          else if ctx_Type (Context e) = [] then Some (required_error ''context.type is required'')
          else if ctx_Source (Context e) = [] then Some (required_error ''context.source is required'')
          else if IsZero (ctx_Timestamp (Context e))
          then Some (required_error ''context.timestamp is required'')
          else if subj_ID (Subject e) = [] then Some (required_error ''subject.id is required'')
          else if subj_Type (Subject e) = [] then Some (required_error ''subject.type is required'')
          else None)"

text \<open>The required fields in the order they are reported, with whether the event has them.\<close>

definition required_fields :: "cdevent \<Rightarrow> (string \<times> bool) list" where
  "required_fields e =
     [(''context.id'', ctx_ID (Context e) \<noteq> []),
      (''context.type'', ctx_Type (Context e) \<noteq> []),
      (''context.source'', ctx_Source (Context e) \<noteq> []),
      (''context.timestamp'', \<not> IsZero (ctx_Timestamp (Context e))),
      (''subject.id'', subj_ID (Subject e) \<noteq> []),
      (''subject.type'', subj_Type (Subject e) \<noteq> [])]"

definition valid_event :: "cdevent \<Rightarrow> bool" where
  "valid_event e \<longleftrightarrow> list_all snd (required_fields e)"

lemma valid_event_iff:
  "valid_event e \<longleftrightarrow>
     ctx_ID (Context e) \<noteq> [] \<and> ctx_Type (Context e) \<noteq> [] \<and> ctx_Source (Context e) \<noteq> [] \<and>
     \<not> IsZero (ctx_Timestamp (Context e)) \<and> subj_ID (Subject e) \<noteq> [] \<and> subj_Type (Subject e) \<noteq> []"
  by (simp add: valid_event_def required_fields_def)

lemma Validate_valid: "Validate (Some e) = None \<longleftrightarrow> valid_event e"
  by (auto simp: Validate_def valid_event_iff)

lemma Validate_first_missing:
  "Validate (Some e) =
     map_option (\<lambda>f. required_error (fst f @ '' is required''))
       (find (\<lambda>f. \<not> snd f) (required_fields e))"
  by (simp add: Validate_def required_fields_def)

lemma Validate_kind: "Validate event = Some err \<Longrightarrow> errors_is err ErrInvalidEvent"
  by (auto simp: Validate_def required_error_def split: option.splits if_splits)

text \<open>
  C11. An event is accepted exactly when all six required fields are there; otherwise the error
  is an invalid-event error that names the first missing field in the documented order.
\<close>

theorem Validate_reports_first_missing:
  "(Validate (Some e) = None \<longleftrightarrow> (\<forall>f \<in> set (required_fields e). snd f)) \<and>
   Validate (Some e) =
     map_option (\<lambda>f. ErrWrap [] ErrInvalidEvent ('': '' @ fst f @ '' is required''))
       (find (\<lambda>f. \<not> snd f) (required_fields e))"
proof
  show "Validate (Some e) = None \<longleftrightarrow> (\<forall>f \<in> set (required_fields e). snd f)"
    by (simp add: Validate_valid valid_event_def list_all_iff)
  show "Validate (Some e) =
      map_option (\<lambda>f. ErrWrap [] ErrInvalidEvent ('': '' @ fst f @ '' is required''))
        (find (\<lambda>f. \<not> snd f) (required_fields e))"
    by (simp add: Validate_first_missing required_error_def)
qed

theorem Validate_reports_first_missing_witness:
  "Validate (Some \<lparr>Context = \<lparr>ctx_Version = [], ctx_ID = ''e'', ctx_Source = [], ctx_Type = ''t'',
        ctx_Timestamp = zero_time, ctx_ChainID = [], ctx_Links = []\<rparr>,
      Subject = \<lparr>subj_ID = [], subj_Source = [], subj_Type = [], subj_Content = None\<rparr>,
      CustomData = None, Links = []\<rparr>) =
   Some (ErrWrap [] ErrInvalidEvent '': context.source is required'')"
  unfolding Validate_reports_first_missing [THEN conjunct2]
  by (simp add: required_fields_def)

end
