(* ===== verification/Event_Parser.thy ===== *)
theory Event_Parser
  imports Event_Fields Event_Links Event_Validator
begin

text \<open>
  The conversions of \<open>internal/cdevents/parser.go\<close>: an event into a deployment, a pipeline run,
  an incident and the stored event, the change information read back from a stored event, and
  the human summary.
\<close>

section \<open>Candidate keys\<close>

definition commitKeys :: "string list" where
  "commitKeys = [''commitSha'', ''commit'', ''sha'', ''gitCommit'']"

definition repositoryKeys :: "string list" where
  "repositoryKeys = [''repository'', ''repo'', ''repositoryUrl'']"

definition authorKeys :: "string list" where
  "authorKeys = [''author'', ''committer'', ''actor'']"

definition messageKeys :: "string list" where
  "messageKeys = [''message'', ''commitMessage'', ''title'', ''description'']"

definition branchKeys :: "string list" where
  "branchKeys = [''branch'', ''ref'']"

definition pipelineIDKeys :: "string list" where
  "pipelineIDKeys = [''pipelineId'', ''pipelineRunId'', ''buildId'', ''runId'']"

definition pipelineURLKey :: "string list" where
  "pipelineURLKey = [''pipelineUrl'', ''buildUrl'', ''workflowUrl'', ''runUrl'']"

definition deployerKeys :: "string list" where
  "deployerKeys = [''deployer'', ''deployedBy'']"

definition serviceKeys :: "string list" where
  "serviceKeys = [''service'', ''serviceName'']"

definition severityKeys :: "string list" where
  "severityKeys = [''severity'', ''priority'']"

definition descKeys :: "string list" where
  "descKeys = [''description'', ''summary'', ''title'', ''message'']"

definition outcomeKeys :: "string list" where
  "outcomeKeys = [''outcome'', ''status'', ''result'']"

lemmas key_defs =
  commitKeys_def repositoryKeys_def authorKeys_def messageKeys_def branchKeys_def
  pipelineIDKeys_def pipelineURLKey_def deployerKeys_def serviceKeys_def severityKeys_def
  descKeys_def outcomeKeys_def

record change_info =
  ci_Commit :: string
  ci_Author :: string
  ci_Message :: string
  ci_Repository :: string

definition parseTimeOr :: "string \<Rightarrow> gotime \<Rightarrow> gotime" where
  "parseTimeOr value fallback =
     (if value = [] then fallback
      else case ParseRFC3339 value of Some t \<Rightarrow> t | None \<Rightarrow> fallback)"

section \<open>Conversions\<close>

definition ToDeployment :: "cdevent option \<Rightarrow> deployment option" where
  "ToDeployment event =
     (case event of
        None \<Rightarrow> None
      | Some e \<Rightarrow>
          let content = subj_Content (Subject e);
              custom = CustomData e;
              service = firstNonEmpty
                [getNestedString content [''service'', ''name''],
                 stringFrom serviceKeys [custom],
                 subj_ID (Subject e)];
              version = firstNonEmpty
                [getNestedString content [''service'', ''version''],
                 stringFrom [''version''] [custom],
                 versionFromArtifactID (getStringField content ''artifactId'')];
              environment = firstNonEmpty
                [getNestedString content [''environment'', ''id''],
                 getStringField content ''environment'',
                 identityFrom [''environment''] [custom]]
          in Some
            \<lparr>dep_ID = subj_ID (Subject e),
             dep_Service = service,
             dep_Version = version,
             dep_Environment = environment,
             dep_CommitSha = stringFrom commitKeys [custom, content],
             dep_Repository = identityFrom repositoryKeys [custom, content],
             dep_Branch = stringFrom branchKeys [custom, content],
             dep_Author = stringFrom authorKeys [custom, content],
             dep_PipelineID = stringFrom pipelineIDKeys [custom, content],
             dep_PipelineURL = stringFrom pipelineURLKey [custom, content],
             dep_DeployedAt = ctx_Timestamp (Context e),
             dep_DeployedBy = stringFrom deployerKeys [custom, content],
             dep_EventID = ctx_ID (Context e),
             dep_ChainID = ctx_ChainID (Context e),
             dep_Links = ctx_Links (Context e)\<rparr>)"

definition run_status :: "string \<Rightarrow> string" where
  "run_status kind =
     (if kind = KindPipelineRunQueued then ''queued''
      else if kind = KindPipelineRunStarted then ''started''
      else if kind = KindPipelineRunFinish then ''finished''
      else ''unknown'')"

definition ToPipelineRun :: "cdevent option \<Rightarrow> pipeline_run option" where
  "ToPipelineRun event =
     (case event of
        None \<Rightarrow> None
      | Some e \<Rightarrow>
          let content = subj_Content (Subject e);
              custom = CustomData e;
              status = run_status (event_ShortType e);
              at = ctx_Timestamp (Context e);
              run =
                \<lparr>run_ID = subj_ID (Subject e),
                 run_PipelineName =
                   firstNonEmpty [getStringField content ''pipelineName'', getStringField content ''name''],
                 run_Status = status,
                 run_Outcome = stringFrom outcomeKeys [content, custom],
                 run_StartedAt = parseTimeOr (getStringField content ''startTime'') at,
                 run_FinishedAt = None,
                 run_Source = ctx_Source (Context e),
                 run_PipelineURL =
                   firstNonEmpty [getStringField content ''url'', stringFrom pipelineURLKey [custom, content]],
                 run_CommitSha = stringFrom commitKeys [custom, content],
                 run_Branch = stringFrom branchKeys [custom, content],
                 run_Repository = identityFrom repositoryKeys [custom, content],
                 run_Author = stringFrom authorKeys [custom, content],
                 run_EventID = ctx_ID (Context e),
                 run_ChainID = ctx_ChainID (Context e),
                 run_Links = ctx_Links (Context e)\<rparr>
          in if status = ''finished''
             then Some (run\<lparr>run_FinishedAt := Some (parseTimeOr (getStringField content ''endTime'') at)\<rparr>)
             else Some run)"

definition incident_status :: "string \<Rightarrow> string" where
  "incident_status kind =
     (if kind = KindIncidentDetected then ''detected''
      else if kind = KindIncidentReported then ''reported''
      else if kind = KindIncidentResolved then ''resolved''
      else ''unknown'')"

definition ToIncident :: "cdevent option \<Rightarrow> incident option" where
  "ToIncident event =
     (case event of
        None \<Rightarrow> None
      | Some e \<Rightarrow>
          let content = subj_Content (Subject e);
              custom = CustomData e;
              status = incident_status (event_ShortType e);
              incident =
                \<lparr>inc_ID = subj_ID (Subject e),
                 inc_Service = firstNonEmpty
                   [getNestedString content [''service'', ''name''],
                    identityFrom serviceKeys [content, custom]],
                 inc_Environment = firstNonEmpty
                   [getNestedString content [''environment'', ''id''],
                    identityFrom [''environment''] [content, custom]],
                 inc_Severity = stringFrom severityKeys [content, custom],
                 inc_Description = stringFrom descKeys [content, custom],
                 inc_Status = status,
                 inc_DetectedAt = ctx_Timestamp (Context e),
                 inc_ResolvedAt = None,
                 inc_RootCause = [],
                 inc_EventID = ctx_ID (Context e),
                 inc_ChainID = ctx_ChainID (Context e),
                 inc_DeploymentID = [],
                 inc_Links = ctx_Links (Context e),
                 inc_LinkedDeployment = None\<rparr>
          in if status = ''resolved''
             then Some (incident\<lparr>inc_ResolvedAt := Some (ctx_Timestamp (Context e))\<rparr>)
             else Some incident)"

section \<open>Summaries\<close>

definition predicateVerb :: "string \<Rightarrow> string" where
  "predicateVerb predicate =
     (if predicate = ''deployed'' then ''Deployed''
      else if predicate = ''upgraded'' then ''Upgraded''
      else if predicate = ''rolledback'' then ''Rolled back''
      else predicate)"

definition Summarize :: "cdevent option \<Rightarrow> string" where
  "Summarize event =
     (case event of
        None \<Rightarrow> []
      | Some e \<Rightarrow>
          let kind = event_ShortType e;
              subjectType = fst (cut CHR ''.'' kind);
              predicate = fst (snd (cut CHR ''.'' kind));
              content = subj_Content (Subject e);
              custom = CustomData e
          in
            if kind = KindServiceDeployed \<or> kind = KindServiceUpgraded \<or> kind = KindServiceRolledback
            then (case ToDeployment event of
                None \<Rightarrow> []
              | Some d \<Rightarrow>
                  join '' ''
                    ([predicateVerb predicate, dep_Service d] @
                     (if dep_Version d \<noteq> [] then [dep_Version d] else []) @
                     (if dep_Environment d \<noteq> [] then [''to'', dep_Environment d] else [])))
            else if kind = KindPipelineRunQueued \<or> kind = KindPipelineRunStarted \<or>
              kind = KindPipelineRunFinish
            then (case ToPipelineRun event of
                None \<Rightarrow> []
              | Some run \<Rightarrow>
                  ''Pipeline '' @ firstNonEmpty [run_PipelineName run, run_ID run] @ '' '' @ predicate @
                  (if run_Outcome run \<noteq> [] then '' ('' @ run_Outcome run @ '')'' else []))
            else if kind = KindChangeMerged
            then
              (let author = stringFrom authorKeys [custom, content]
               in ''Merged change '' @ subj_ID (Subject e) @
                  (if author \<noteq> [] then '' by '' @ author else []))
            else if kind = KindIncidentDetected \<or> kind = KindIncidentReported \<or>
              kind = KindIncidentResolved
            then (case ToIncident event of
                None \<Rightarrow> []
              | Some inc \<Rightarrow>
                  ''Incident '' @ predicate @
                  (if inc_Description inc \<noteq> [] then '': '' @ inc_Description inc
                   else if inc_ID inc \<noteq> [] then '': '' @ inc_ID inc
                   else []))
            else if subj_ID (Subject e) = [] then subjectType @ '' '' @ predicate
            else subjectType @ '' '' @ predicate @ '': '' @ subj_ID (Subject e))"

section \<open>Stored events\<close>

definition raw_data :: "cdevent \<Rightarrow> anymap" where
  "raw_data e =
     (let rawData =
        (case subj_Content (Subject e) of None \<Rightarrow> [] | Some m \<Rightarrow> [(''content'', VMap m)]) @
        (case CustomData e of None \<Rightarrow> [] | Some m \<Rightarrow> [(''customData'', VMap m)])
      in if length rawData = 0 then None else Some rawData)"

definition ToStoredEvent :: "cdevent option \<Rightarrow> stored_event option" where
  "ToStoredEvent event =
     (case event of
        None \<Rightarrow> None
      | Some e \<Rightarrow> Some
          \<lparr>ev_ID = ctx_ID (Context e),
           ev_Type = ctx_Type (Context e),
           ev_Source = ctx_Source (Context e),
           ev_Timestamp = ctx_Timestamp (Context e),
           ev_SubjectID = subj_ID (Subject e),
           ev_SubjectType = subj_Type (Subject e),
           ev_ChainID = ctx_ChainID (Context e),
           ev_Links = ctx_Links (Context e),
           ev_Summary = Summarize event,
           ev_RawData = raw_data e\<rparr>)"

text \<open>The type assertion \<open>m[key].(map[string]any)\<close>, \<open>nil\<close> when it fails.\<close>

definition map_at :: "(string, gval) gomap \<Rightarrow> string \<Rightarrow> anymap" where
  "map_at m key = (case map_of m key of Some (VMap v) \<Rightarrow> Some v | _ \<Rightarrow> None)"

definition ExtractChangeInfo :: "stored_event option \<Rightarrow> change_info" where
  "ExtractChangeInfo event =
     (case event of
        None \<Rightarrow> \<lparr>ci_Commit = [], ci_Author = [], ci_Message = [], ci_Repository = []\<rparr>
      | Some ev \<Rightarrow>
          case ev_RawData ev of
            None \<Rightarrow> \<lparr>ci_Commit = [], ci_Author = [], ci_Message = [], ci_Repository = []\<rparr>
          | Some raw \<Rightarrow>
              let custom = map_at raw ''customData'';
                  content = map_at raw ''content'';
                  flat = Some raw
              in \<lparr>ci_Commit = stringFrom commitKeys [custom, content, flat],
                  ci_Author = stringFrom authorKeys [custom, content, flat],
                  ci_Message = stringFrom messageKeys [custom, content, flat],
                  ci_Repository = identityFrom repositoryKeys [custom, content, flat]\<rparr>)"

section \<open>Correctness\<close>

declare stringFrom.simps [simp del] identityFrom.simps [simp del] firstNonEmpty.simps [simp del]

lemma ToDeployment_Some [simp]: "ToDeployment (Some e) \<noteq> None"
  by (simp add: ToDeployment_def Let_def)

lemma ToPipelineRun_Some [simp]: "ToPipelineRun (Some e) \<noteq> None"
  by (simp add: ToPipelineRun_def Let_def)

lemma ToIncident_Some [simp]: "ToIncident (Some e) \<noteq> None"
  by (simp add: ToIncident_def Let_def)

lemma deployment_fields:
  assumes "ToDeployment (Some e) = Some d"
  shows "dep_Service d = firstNonEmpty
      [getNestedString (subj_Content (Subject e)) [''service'', ''name''],
       stringFrom serviceKeys [CustomData e], subj_ID (Subject e)]"
    and "dep_Version d = firstNonEmpty
      [getNestedString (subj_Content (Subject e)) [''service'', ''version''],
       stringFrom [''version''] [CustomData e],
       versionFromArtifactID (getStringField (subj_Content (Subject e)) ''artifactId'')]"
    and "dep_Environment d = firstNonEmpty
      [getNestedString (subj_Content (Subject e)) [''environment'', ''id''],
       getStringField (subj_Content (Subject e)) ''environment'',
       identityFrom [''environment''] [CustomData e]]"
    and "dep_EventID d = ctx_ID (Context e)" and "dep_DeployedAt d = ctx_Timestamp (Context e)"
    and "dep_ChainID d = ctx_ChainID (Context e)"
  using assms by (auto simp: ToDeployment_def Let_def)

lemma ToStoredEvent_Some [simp]: "ToStoredEvent (Some e) \<noteq> None"
  by (simp add: ToStoredEvent_def)

lemma deployment_service_nonempty:
  "ToDeployment (Some e) = Some d \<Longrightarrow> subj_ID (Subject e) \<noteq> [] \<Longrightarrow> dep_Service d \<noteq> []"
  by (auto simp: ToDeployment_def Let_def)

lemma stored_event_fields:
  assumes "ToStoredEvent (Some e) = Some ev"
  shows "ev_ID ev = ctx_ID (Context e)" "ev_Type ev = ctx_Type (Context e)"
    "ev_Timestamp ev = ctx_Timestamp (Context e)" "ev_ChainID ev = ctx_ChainID (Context e)"
    "ev_Links ev = ctx_Links (Context e)" "ev_RawData ev = raw_data e"
  using assms by (auto simp: ToStoredEvent_def)

text \<open>What \<open>RawData\<close> holds is found again under the two section names, and under no other name.\<close>

lemma raw_data_sections:
  assumes "raw_data e = Some raw"
  shows "map_at raw ''content'' = subj_Content (Subject e)"
    and "map_at raw ''customData'' = CustomData e"
    and "key \<noteq> ''content'' \<Longrightarrow> key \<noteq> ''customData'' \<Longrightarrow> map_of raw key = None"
  using assms
  by (auto simp: raw_data_def map_at_def Let_def split: option.splits if_splits)

lemma raw_data_None: "raw_data e = None \<longleftrightarrow> subj_Content (Subject e) = None \<and> CustomData e = None"
  by (auto simp: raw_data_def Let_def split: option.splits)

lemma stringFrom_skip:
  assumes "\<forall>key \<in> set keys. getStringField m key = []"
  shows "stringFrom keys (ms @ [m]) = stringFrom keys ms"
  using assms by (simp add: stringFrom_eq firstNonEmpty_append_empty)

lemma identityFrom_skip:
  assumes "\<forall>key \<in> set keys. identity_at m key = []"
  shows "identityFrom keys (ms @ [m]) = identityFrom keys ms"
  using assms by (simp add: identityFrom_eq firstNonEmpty_append_empty)

lemma raw_data_flat:
  assumes "raw_data e = Some raw" and "''content'' \<notin> set keys" and "''customData'' \<notin> set keys"
  shows "stringFrom keys (ms @ [Some raw]) = stringFrom keys ms"
    and "identityFrom keys (ms @ [Some raw]) = identityFrom keys ms"
proof -
  have none: "map_of raw key = None" if "key \<in> set keys" for key
    using raw_data_sections(3) [OF assms(1)] assms(2,3) that by metis
  show "stringFrom keys (ms @ [Some raw]) = stringFrom keys ms"
    by (rule stringFrom_skip) (simp add: getStringField_def none)
  show "identityFrom keys (ms @ [Some raw]) = identityFrom keys ms"
    by (rule identityFrom_skip) (simp add: identity_at_def identity_value_def none)
qed

lemma stringFrom_None [simp]: "stringFrom keys [None, None] = []" "stringFrom keys [None] = []"
  by (simp_all add: stringFrom_eq)

lemma identityFrom_None [simp]: "identityFrom keys [None, None] = []"
  by (simp add: identityFrom_eq identity_at_def)

text \<open>Reading the change back from a stored event finds what the event's own maps hold.\<close>

lemma ExtractChangeInfo_stored:
  assumes "ToStoredEvent (Some e) = Some ev"
  shows "ExtractChangeInfo (Some ev) =
    \<lparr>ci_Commit = stringFrom commitKeys [CustomData e, subj_Content (Subject e)],
     ci_Author = stringFrom authorKeys [CustomData e, subj_Content (Subject e)],
     ci_Message = stringFrom messageKeys [CustomData e, subj_Content (Subject e)],
     ci_Repository = identityFrom repositoryKeys [CustomData e, subj_Content (Subject e)]\<rparr>"
proof (cases "raw_data e")
  case None
  with stored_event_fields(6) [OF assms] show ?thesis
    by (simp add: ExtractChangeInfo_def raw_data_None)
next
  case (Some raw)
  have keys: "''content'' \<notin> set ks \<and> ''customData'' \<notin> set ks"
    if "ks \<in> {commitKeys, authorKeys, messageKeys, repositoryKeys}" for ks
    using that by (auto simp: key_defs)
  note flat = raw_data_flat [OF Some, of _ "[CustomData e, subj_Content (Subject e)]", simplified]
  show ?thesis
    using stored_event_fields(6) [OF assms] Some keys
    by (simp add: ExtractChangeInfo_def Let_def raw_data_sections [OF Some] flat)
qed

text \<open>
  C8. The change information read back from the stored form of an event is the one its
  deployment was made with: the root cause the chain reports for a deployment names the
  commit, the author and the repository of the deployment record.
\<close>

theorem ExtractChangeInfo_agrees_with_deployment:
  assumes "ToDeployment (Some e) = Some d" and "ToStoredEvent (Some e) = Some ev"
  shows "ci_Commit (ExtractChangeInfo (Some ev)) = dep_CommitSha d \<and>
    ci_Author (ExtractChangeInfo (Some ev)) = dep_Author d \<and>
    ci_Repository (ExtractChangeInfo (Some ev)) = dep_Repository d"
  using assms(1) ExtractChangeInfo_stored [OF assms(2)] by (auto simp: ToDeployment_def Let_def)

text \<open>A deployment event with fields in both maps, in the shape of \<open>test/fixtures\<close>.\<close>

definition sample_deployed_event :: cdevent where
  "sample_deployed_event =
     \<lparr>Context = \<lparr>ctx_Version = ''0.4.1'', ctx_ID = ''d1'', ctx_Source = ''ci'',
        ctx_Type = ''dev.cdevents.service.deployed.0.1.1'',
        ctx_Timestamp = \<lparr>gt_ns = 63838000000000000000, gt_off = 0\<rparr>, ctx_ChainID = ''c1'',
        ctx_Links = [\<lparr>LinkType = ''CAUSE'', LinkID = ''m1''\<rparr>]\<rparr>,
      Subject = \<lparr>subj_ID = ''checkout'', subj_Source = ''ci'', subj_Type = ''service'',
        subj_Content = Some
          [(''environment'', VMap [(''id'', VStr ''production'')]),
           (''artifactId'', VStr ''pkg:oci/checkout@v1.2.3'')]\<rparr>,
      CustomData = Some
        [(''commitSha'', VStr ''abc123''), (''author'', VStr ''jane''),
         (''repository'', VMap [(''name'', VStr ''acme/checkout'')])],
      Links = []\<rparr>"

theorem ExtractChangeInfo_agrees_with_deployment_witness:
  "\<exists>d ev. ToDeployment (Some sample_deployed_event) = Some d \<and>
     ToStoredEvent (Some sample_deployed_event) = Some ev \<and>
     ci_Commit (ExtractChangeInfo (Some ev)) = dep_CommitSha d"
proof -
  obtain d ev where "ToDeployment (Some sample_deployed_event) = Some d"
    and "ToStoredEvent (Some sample_deployed_event) = Some ev"
    by (metis ToDeployment_Some ToStoredEvent_Some not_None_eq)
  with ExtractChangeInfo_agrees_with_deployment [OF this] show ?thesis
    by blast
qed

section \<open>The documented table of the deployment fields\<close>

text \<open>
  \<open>docs/api.md\<close> lists for every field of a deployment the places of the event document where its
  value is looked up, as paths into the document. Here the event is that document again, and a
  path leads through objects to a text, which is empty when the path leads nowhere or to a value
  of another type.
\<close>

definition member_of :: "string \<Rightarrow> anymap \<Rightarrow> (string \<times> gval) list" where
  "member_of name m = (case m of None \<Rightarrow> [] | Some al \<Rightarrow> [(name, VMap al)])"

definition event_document :: "cdevent \<Rightarrow> gval" where
  "event_document e =
     VMap ([(''subject'', VMap ((''id'', VStr (subj_ID (Subject e))) #
             member_of ''content'' (subj_Content (Subject e))))] @
           member_of ''customData'' (CustomData e))"

fun value_at :: "gval option \<Rightarrow> string list \<Rightarrow> gval option" where
  "value_at v [] = v"
| "value_at (Some (VMap al)) (name # path) = value_at (map_of al name) path"
| "value_at _ (name # path) = None"

definition text_value :: "gval option \<Rightarrow> string" where
  "text_value v = (case v of Some (VStr str) \<Rightarrow> str | _ \<Rightarrow> [])"

definition text_at :: "cdevent \<Rightarrow> string list \<Rightarrow> string" where
  "text_at e path = text_value (value_at (Some (event_document e)) path)"

text \<open>
  The first text given: the one after empty texts only, or the empty one when none is given. A
  field may be looked for in the custom data and then in the content, under several names; a
  reference is a text or an object that holds one as its id, url or name.
\<close>

definition first_given :: "string list \<Rightarrow> string \<Rightarrow> bool" where
  "first_given texts v \<longleftrightarrow>
     (\<exists>before after. texts = before @ v # after \<and> v \<noteq> [] \<and> set before \<subseteq> {[]}) \<or> v = [] \<and> set texts \<subseteq> {[]}"

definition both_sections :: "string list \<Rightarrow> string list list" where
  "both_sections names =
     [section @ [name]. section \<leftarrow> [[''customData''], [''subject'', ''content'']], name \<leftarrow> names]"

definition reference_at :: "string list \<Rightarrow> string list list" where
  "reference_at path = [path, path @ [''id''], path @ [''url''], path @ [''name'']]"

lemma first_given_iff: "first_given texts v \<longleftrightarrow> v = firstNonEmpty texts"
proof (induction texts)
  case Nil
  then show ?case by (simp add: first_given_def firstNonEmpty.simps)
next
  case (Cons t ts)
  show ?case
  proof (cases "t = []")
    case True
    have "(\<exists>before after. t # ts = before @ v # after \<and> v \<noteq> [] \<and> set before \<subseteq> {[]}) \<longleftrightarrow>
        (\<exists>before after. ts = before @ v # after \<and> v \<noteq> [] \<and> set before \<subseteq> {[]})" (is "?l \<longleftrightarrow> ?r")
    proof
      assume ?l
      then obtain before after where b: "t # ts = before @ v # after" "v \<noteq> []" "set before \<subseteq> {[]}" by blast
      then obtain rest where "before = t # rest" using True by (cases before) auto
      with b show ?r by auto
    next
      assume ?r
      then obtain before after where "ts = before @ v # after" "v \<noteq> []" "set before \<subseteq> {[]}" by blast
      then have "t # ts = (t # before) @ v # after" "set (t # before) \<subseteq> {[]}" using True by simp_all
      with \<open>v \<noteq> []\<close> show ?l by blast
    qed
    then have "first_given (t # ts) v \<longleftrightarrow> first_given ts v"
      by (simp add: True first_given_def)
    with Cons True show ?thesis by (simp add: firstNonEmpty.simps)
  next
    case False
    then show ?thesis
      by (auto simp: first_given_def firstNonEmpty.simps Cons_eq_append_conv)
  qed
qed

lemma value_at_None [simp]: "value_at None (name # path) = None"
  by simp

lemma text_at_sections:
  "text_at e (''customData'' # name # path) =
     text_value (case CustomData e of None \<Rightarrow> None | Some al \<Rightarrow> value_at (map_of al name) path)"
  "text_at e (''subject'' # ''content'' # name # path) =
     text_value (case subj_Content (Subject e) of None \<Rightarrow> None | Some al \<Rightarrow> value_at (map_of al name) path)"
  "text_at e [''subject'', ''id''] = subj_ID (Subject e)"
  by (simp_all add: text_at_def event_document_def member_of_def text_value_def split: option.split)

lemma getStringField_text:
  "getStringField m name = text_value (case m of None \<Rightarrow> None | Some al \<Rightarrow> map_of al name)"
  by (simp add: getStringField_def text_value_def split: option.split)

lemma getNestedString_text:
  "getNestedString m [name, name'] =
     text_value (case m of None \<Rightarrow> None | Some al \<Rightarrow> value_at (map_of al name) [name'])"
  by (auto simp: getNestedString_def text_value_def split: option.split gval.split)

lemma text_at_field:
  "text_at e [''customData'', name] = getStringField (CustomData e) name"
  "text_at e [''subject'', ''content'', name] = getStringField (subj_Content (Subject e)) name"
  "text_at e [''subject'', ''content'', name, name'] = getNestedString (subj_Content (Subject e)) [name, name']"
  by (simp_all add: text_at_sections getStringField_text getNestedString_text split: option.split)

lemma stringFrom_sections:
  "stringFrom names [CustomData e, subj_Content (Subject e)] = firstNonEmpty (map (text_at e) (both_sections names))"
  by (simp add: stringFrom_eq both_sections_def text_at_field comp_def)

text \<open>A reference: the type switch of \<open>identityFrom\<close>.\<close>

lemma identity_value_text:
  "identity_value v = firstNonEmpty
     [text_value v, text_value (value_at v [''id'']), text_value (value_at v [''url'']), text_value (value_at v [''name''])]"
  by (auto simp: identity_value_def text_value_def stringFrom_eq getStringField_def firstNonEmpty.simps
      split: option.split gval.split)

lemma firstNonEmpty_concat: "firstNonEmpty (concat xss) = firstNonEmpty (map firstNonEmpty xss)"
  by (induction xss) (simp_all add: firstNonEmpty_append firstNonEmpty.simps)

lemma identity_at_text:
  "identity_at (CustomData e) name = firstNonEmpty (map (text_at e) (reference_at [''customData'', name]))"
  "identity_at (subj_Content (Subject e)) name =
     firstNonEmpty (map (text_at e) (reference_at [''subject'', ''content'', name]))"
  by (simp_all add: identity_at_def reference_at_def text_at_sections identity_value_text text_value_def
      firstNonEmpty.simps split: option.split)

lemma identityFrom_sections:
  "identityFrom names [CustomData e, subj_Content (Subject e)] =
     firstNonEmpty (map (text_at e) (concat (map reference_at (both_sections names))))"
proof -
  have "identity_at (CustomData e) = (\<lambda>name. firstNonEmpty (map (text_at e) (reference_at [''customData'', name])))"
    "identity_at (subj_Content (Subject e)) =
       (\<lambda>name. firstNonEmpty (map (text_at e) (reference_at [''subject'', ''content'', name])))"
    by (simp_all add: fun_eq_iff identity_at_text)
  then show ?thesis
    by (simp add: identityFrom_eq both_sections_def map_concat comp_def firstNonEmpty_append
        firstNonEmpty_concat del: firstNonEmpty_empty_iff)
qed

text \<open>
  C13. A deployment made from an event has in each of its fields the first text given among the
  places that \<open>docs/api.md\<close> lists for it, or nothing when none of them gives one; the identifiers,
  the timestamp, the chain and the links are those of the event. The names the document does not
  spell out are the synonyms of the code, and the service is also looked up as
  \<open>customData.serviceName\<close>, before the subject, which the document does not list. The deployment of
  an event that passed validation always has a service.
\<close>

theorem ToDeployment_table:
  assumes "ToDeployment (Some e) = Some d"
  shows "first_given (map (text_at e)
      [[''subject'', ''content'', ''service'', ''name''], [''customData'', ''service''],
       [''customData'', ''serviceName''], [''subject'', ''id'']]) (dep_Service d) \<and>
    first_given
      [text_at e [''subject'', ''content'', ''service'', ''version''], text_at e [''customData'', ''version''],
       versionFromArtifactID (text_at e [''subject'', ''content'', ''artifactId''])] (dep_Version d) \<and>
    first_given (map (text_at e)
      ([[''subject'', ''content'', ''environment'', ''id''], [''subject'', ''content'', ''environment'']] @
       reference_at [''customData'', ''environment''])) (dep_Environment d) \<and>
    first_given (map (text_at e) (both_sections [''commitSha'', ''commit'', ''sha'', ''gitCommit'']))
      (dep_CommitSha d) \<and>
    first_given (map (text_at e)
      (concat (map reference_at (both_sections [''repository'', ''repo'', ''repositoryUrl'']))))
      (dep_Repository d) \<and>
    first_given (map (text_at e) (both_sections [''branch'', ''ref''])) (dep_Branch d) \<and>
    first_given (map (text_at e) (both_sections [''author'', ''committer'', ''actor''])) (dep_Author d) \<and>
    first_given (map (text_at e) (both_sections [''pipelineId'', ''pipelineRunId'', ''buildId'', ''runId'']))
      (dep_PipelineID d) \<and>
    first_given (map (text_at e) (both_sections [''pipelineUrl'', ''buildUrl'', ''workflowUrl'', ''runUrl'']))
      (dep_PipelineURL d) \<and>
    first_given (map (text_at e) (both_sections [''deployer'', ''deployedBy''])) (dep_DeployedBy d) \<and>
    dep_ID d = text_at e [''subject'', ''id''] \<and> dep_EventID d = ctx_ID (Context e) \<and>
    dep_DeployedAt d = ctx_Timestamp (Context e) \<and> dep_ChainID d = ctx_ChainID (Context e) \<and>
    dep_Links d = ctx_Links (Context e) \<and>
    (Validate (Some e) = None \<longrightarrow> dep_Service d \<noteq> [])"
proof -
  have service: "firstNonEmpty (map (text_at e)
      [[''subject'', ''content'', ''service'', ''name''], [''customData'', ''service''],
       [''customData'', ''serviceName''], [''subject'', ''id'']]) = dep_Service d"
    using deployment_fields(1) [OF assms]
    by (simp add: stringFrom_eq serviceKeys_def firstNonEmpty.simps text_at_field text_at_sections(3))
  have version: "firstNonEmpty
      [text_at e [''subject'', ''content'', ''service'', ''version''], text_at e [''customData'', ''version''],
       versionFromArtifactID (text_at e [''subject'', ''content'', ''artifactId''])] = dep_Version d"
    using deployment_fields(2) [OF assms] by (simp add: stringFrom_eq firstNonEmpty.simps text_at_field)
  have env: "firstNonEmpty (map (text_at e)
      ([[''subject'', ''content'', ''environment'', ''id''], [''subject'', ''content'', ''environment'']] @
       reference_at [''customData'', ''environment''])) = dep_Environment d"
    using deployment_fields(3) [OF assms]
    by (simp add: identityFrom_eq identity_at_text firstNonEmpty.simps text_at_field)
  have "Validate (Some e) = None \<longrightarrow> dep_Service d \<noteq> []"
    using deployment_service_nonempty [OF assms] by (simp add: Validate_valid valid_event_iff)
  moreover from assms have "dep_CommitSha d = stringFrom commitKeys [CustomData e, subj_Content (Subject e)]"
    "dep_Repository d = identityFrom repositoryKeys [CustomData e, subj_Content (Subject e)]"
    "dep_Branch d = stringFrom branchKeys [CustomData e, subj_Content (Subject e)]"
    "dep_Author d = stringFrom authorKeys [CustomData e, subj_Content (Subject e)]"
    "dep_PipelineID d = stringFrom pipelineIDKeys [CustomData e, subj_Content (Subject e)]"
    "dep_PipelineURL d = stringFrom pipelineURLKey [CustomData e, subj_Content (Subject e)]"
    "dep_DeployedBy d = stringFrom deployerKeys [CustomData e, subj_Content (Subject e)]"
    "dep_ID d = text_at e [''subject'', ''id'']" "dep_Links d = ctx_Links (Context e)"
    by (auto simp: ToDeployment_def Let_def text_at_sections(3))
  ultimately show ?thesis
    unfolding first_given_iff service version env
    by (simp only: deployment_fields(4-6) [OF assms] stringFrom_sections identityFrom_sections key_defs simp_thms)
qed

theorem ToDeployment_table_witness:
  "\<exists>d. ToDeployment (Some sample_deployed_event) = Some d \<and> dep_Repository d = ''acme/checkout'' \<and>
     dep_Version d = ''v1.2.3'' \<and> dep_Service d \<noteq> []"
proof -
  obtain d where d: "ToDeployment (Some sample_deployed_event) = Some d"
    by (metis ToDeployment_Some not_None_eq)
  note t = ToDeployment_table [OF d, unfolded first_given_iff]
  have "firstNonEmpty (map (text_at sample_deployed_event)
      (concat (map reference_at (both_sections [''repository'', ''repo'', ''repositoryUrl''])))) = ''acme/checkout''"
    "firstNonEmpty
      [text_at sample_deployed_event [''subject'', ''content'', ''service'', ''version''],
       text_at sample_deployed_event [''customData'', ''version''],
       versionFromArtifactID (text_at sample_deployed_event [''subject'', ''content'', ''artifactId''])] = ''v1.2.3''"
    by code_simp+
  moreover have "Validate (Some sample_deployed_event) = None"
    by (simp add: Validate_valid valid_event_iff sample_deployed_event_def IsZero_def)
  ultimately show ?thesis
    using t d by metis
qed

section \<open>Incidents and pipeline runs\<close>

text \<open>
  An incident made from an event has a duration exactly when the event resolves it, and
  that duration is always zero: both of its ends are the timestamp of the one event.
\<close>

theorem incident_Duration_zero:
  assumes "ToIncident (Some e) = Some inc"
  shows "incident_Duration inc =
    (if event_ShortType e = KindIncidentResolved then Some 0 else None)"
  using assms
  by (auto simp: ToIncident_def Let_def incident_Duration_def incident_status_def kind_defs
      Sub_self split: if_splits)

definition sample_resolved_event :: cdevent where
  "sample_resolved_event =
     sample_deployed_event\<lparr>Context := Context sample_deployed_event
       \<lparr>ctx_Type := ''dev.cdevents.incident.resolved.0.2.0''\<rparr>\<rparr>"

theorem incident_Duration_zero_witness:
  "\<exists>inc. ToIncident (Some sample_resolved_event) = Some inc \<and> incident_Duration inc = Some 0"
proof -
  obtain inc where inc: "ToIncident (Some sample_resolved_event) = Some inc"
    by (metis ToIncident_Some not_None_eq)
  have "event_ShortType sample_resolved_event = KindIncidentResolved"
    by code_simp
  with incident_Duration_zero [OF inc] inc show ?thesis
    by simp
qed

text \<open>
  A finished pipeline run whose content gives its two times in RFC 3339 lasts from the one
  to the other, to the second; a run that has not finished has no duration.
\<close>

theorem pipeline_Duration_parsed:
  assumes "ToPipelineRun (Some e) = Some run"
    and "getStringField (subj_Content (Subject e)) ''startTime'' = FormatRFC3339 a"
    and "getStringField (subj_Content (Subject e)) ''endTime'' = FormatRFC3339 b"
    and "\<forall>t \<in> {a, b}. fst (fst (clock t)) \<in> {0..9999} \<and> offset_ok (gt_off t) \<and>
      gt_ns t mod 10 ^ 9 = 0"
  shows "pipeline_Duration run =
    (if event_ShortType e = KindPipelineRunFinish then Some (Sub b a) else None)"
proof -
  have p: "parseTimeOr (FormatRFC3339 t) fb = t" if "t \<in> {a, b}" for t fb
  proof -
    from that assms(4) have t: "0 \<le> fst (fst (clock t))" "fst (fst (clock t)) \<le> 9999"
      "offset_ok (gt_off t)" "gt_ns t mod 10 ^ 9 = 0"
      by (auto simp: atLeastAtMost_iff)
    have "gt_ns t div 10 ^ 9 * 10 ^ 9 = gt_ns t"
      using t(4) by (simp add: mod_eq_0_iff_dvd)
    with parse_format [OF t(1-3)] have "ParseRFC3339 (FormatRFC3339 t) = Some t"
      by simp
    moreover have "ParseRFC3339 [] = None"
      by code_simp
    ultimately have "ParseRFC3339 (FormatRFC3339 t) = Some t" and "FormatRFC3339 t \<noteq> []"
      by auto
    then show ?thesis
      by (simp add: parseTimeOr_def)
  qed
  show ?thesis
    using assms(1-3) p [of a] p [of b]
    by (auto simp: ToPipelineRun_def Let_def pipeline_Duration_def run_status_def kind_defs
        split: if_splits)
qed

definition sample_run_event :: cdevent where
  "sample_run_event =
     sample_deployed_event
       \<lparr>Context := Context sample_deployed_event\<lparr>ctx_Type := ''dev.cdevents.pipelinerun.finished.0.2.0''\<rparr>,
        Subject := Subject sample_deployed_event\<lparr>subj_Content := Some
          [(''startTime'', VStr ''2024-01-01T10:00:00Z''), (''endTime'', VStr ''2024-01-01T10:01:30Z'')]\<rparr>\<rparr>"

theorem pipeline_Duration_parsed_witness:
  "\<exists>run. ToPipelineRun (Some sample_run_event) = Some run \<and>
     pipeline_Duration run = Some (90 * second)"
proof -
  let ?a = "\<lparr>gt_ns = 63839700000000000000, gt_off = 0\<rparr>"
  let ?b = "\<lparr>gt_ns = 63839700090000000000, gt_off = 0\<rparr>"
  obtain run where run: "ToPipelineRun (Some sample_run_event) = Some run"
    by (metis ToPipelineRun_Some not_None_eq)
  have "getStringField (subj_Content (Subject sample_run_event)) ''startTime'' = FormatRFC3339 ?a"
    "getStringField (subj_Content (Subject sample_run_event)) ''endTime'' = FormatRFC3339 ?b"
    by code_simp+
  moreover have "fst (fst (clock ?a)) = 2024" "fst (fst (clock ?b)) = 2024"
    "offset_ok (gt_off ?a)" "offset_ok (gt_off ?b)" "event_ShortType sample_run_event = KindPipelineRunFinish"
    "Sub ?b ?a = 90 * second"
    by code_simp+
  ultimately show ?thesis
    using pipeline_Duration_parsed [OF run, of ?a ?b] run by simp
qed

end
