(* ===== verification/Correlator.thy ===== *)
theory Correlator
  imports Event_Graph Event_Parser
begin

text \<open>
  Chain reconstruction of \<open>internal/correlator/correlator.go\<close>: the events linked from a start
  event joined with the events that share its chain id, newest first, and the root cause.
\<close>

section \<open>Root cause and chain events\<close>

definition cause_of :: "change_info \<Rightarrow> root_cause" where
  "cause_of info =
     \<lparr>rc_Commit = ci_Commit info, rc_Author = ci_Author info, rc_Message = ci_Message info,
      rc_Repository = ci_Repository info\<rparr>"

text \<open>The loop that walks the list from its end, with the variable \<open>fallback\<close>.\<close>

primrec root_loop :: "stored_event list \<Rightarrow> root_cause option \<Rightarrow> root_cause option" where
  "root_loop [] fallback = fallback"
| "root_loop (event # events) fallback =
     (let info = ExtractChangeInfo (Some event)
      in if ci_Commit info = [] then root_loop events fallback
         else
           let cause = cause_of info; kind = stored_ShortType event
           in if kind = KindChangeMerged then Some cause
              else if kind = KindServiceDeployed \<or> kind = KindServiceUpgraded \<or>
                kind = KindServiceRolledback
              then root_loop events (if fallback = None then Some cause else fallback)
              else root_loop events fallback)"

definition FindRootCause :: "stored_event list \<Rightarrow> root_cause option" where
  "FindRootCause events = root_loop (rev events) None"

definition toChainEvent :: "stored_event \<Rightarrow> chain_event" where
  "toChainEvent event =
     (let chainEvent =
        \<lparr>ce_ID = ev_ID event, ce_Type = ev_Type event, ce_Timestamp = ev_Timestamp event,
         ce_Summary = ev_Summary event, ce_Commit = [], ce_Links = ev_Links event\<rparr>;
        kind = stored_ShortType event
      in if kind = KindChangeMerged \<or> kind = KindServiceDeployed \<or> kind = KindServiceUpgraded \<or>
           kind = KindServiceRolledback
         then chainEvent\<lparr>ce_Commit := ci_Commit (ExtractChangeInfo (Some event))\<rparr>
         else chainEvent)"

section \<open>Building the chain\<close>

definition chain_newer :: "stored_event \<Rightarrow> stored_event \<Rightarrow> bool" where
  "chain_newer a b =
     (if \<not> Equal (ev_Timestamp a) (ev_Timestamp b) then After (ev_Timestamp a) (ev_Timestamp b)
      else ev_ID a < ev_ID b)"

type_synonym event_map = "(string, stored_event) gomap"

definition add_linked :: "stored_event list \<Rightarrow> event_map \<Rightarrow> event_map" where
  "add_linked linked events = fold (\<lambda>event m. AList.update (ev_ID event) event m) linked events"

definition add_siblings :: "stored_event list \<Rightarrow> event_map \<Rightarrow> event_map" where
  "add_siblings siblings events =
     fold (\<lambda>event m. if map_of m (ev_ID event) = None then AList.update (ev_ID event) event m else m)
       siblings events"

text \<open>
  \<open>visit\<close> is the order in which the runtime visits the map \<open>events\<close>. The shadowed \<open>err\<close> and the
  early returns are the branches of the three case distinctions.
\<close>

definition BuildChain ::
  "'s storage \<Rightarrow> event_graph \<Rightarrow> (stored_event list \<Rightarrow> stored_event list) \<Rightarrow> ctx \<Rightarrow> string \<Rightarrow> 's \<Rightarrow>
   event_chain result \<times> 's" where
  "BuildChain S g visit ctx eventID s =
     (case GetEvent S ctx eventID s of
        (Inl err, s) \<Rightarrow> (Inl (ErrWrap (''failed to get start event '' @ eventID @ '': '') err []), s)
      | (Inr startEvent, s) \<Rightarrow>
          (case TraverseChain S g ctx eventID s of
             (Inl err, s) \<Rightarrow> (Inl err, s)
           | (Inr linked, s) \<Rightarrow>
               (case
                  (if ev_ChainID startEvent \<noteq> [] then
                     (case GetEventsByChain S ctx (ev_ChainID startEvent) s of
                        (Inl err, s) \<Rightarrow>
                          (Inl (ErrWrap (''failed to load chain '' @ ev_ChainID startEvent @ '': '') err []), s)
                      | (Inr siblings, s) \<Rightarrow> (Inr (add_siblings siblings (add_linked linked [])), s))
                   else (Inr (add_linked linked []), s)) of
                  (Inl err, s) \<Rightarrow> (Inl err, s)
                | (Inr events, s) \<Rightarrow>
                    let ordered = slice_stable chain_newer (visit (map snd events))
                    in (Inr
                      \<lparr>chain_ChainID = ev_ChainID startEvent,
                       chain_StartEvent = eventID,
                       chain_Events = map toChainEvent ordered,
                       chain_RootCause = FindRootCause ordered\<rparr>, s))))"

section \<open>The root cause in closed form\<close>

definition has_commit :: "stored_event \<Rightarrow> bool" where
  "has_commit e \<longleftrightarrow> ci_Commit (ExtractChangeInfo (Some e)) \<noteq> []"

definition is_change :: "stored_event \<Rightarrow> bool" where
  "is_change e \<longleftrightarrow> has_commit e \<and> stored_ShortType e = KindChangeMerged"

definition is_release :: "stored_event \<Rightarrow> bool" where
  "is_release e \<longleftrightarrow> has_commit e \<and>
     stored_ShortType e \<in> {KindServiceDeployed, KindServiceUpgraded, KindServiceRolledback}"

definition event_cause :: "stored_event \<Rightarrow> root_cause" where
  "event_cause e = cause_of (ExtractChangeInfo (Some e))"

lemma change_not_release: "is_change e \<Longrightarrow> \<not> is_release e"
  by (auto simp: is_change_def is_release_def kind_defs)

lemma root_loop_step:
  "root_loop (e # es) fb =
     (if is_change e then Some (event_cause e)
      else if is_release e then root_loop es (if fb = None then Some (event_cause e) else fb)
      else root_loop es fb)"
  by (auto simp: is_change_def is_release_def has_commit_def event_cause_def Let_def kind_defs)

lemma root_loop_eq:
  "root_loop es fb =
     (case filter is_change es of
        c # _ \<Rightarrow> Some (event_cause c)
      | [] \<Rightarrow> (case fb of Some f \<Rightarrow> Some f
          | None \<Rightarrow> (case filter is_release es of r # _ \<Rightarrow> Some (event_cause r) | [] \<Rightarrow> None)))"
proof (induction es arbitrary: fb)
  case Nil
  then show ?case by (simp split: option.splits)
next
  case (Cons e es)
  show ?case
    unfolding root_loop_step Cons.IH using change_not_release [of e]
    by (auto split: list.splits option.splits)
qed

lemma hd_rev_last: "xs \<noteq> [] \<Longrightarrow> \<exists>ys. rev xs = last xs # ys"
  by (metis append_butlast_last_id rev_eq_Cons_iff rev_swap rev.simps(2) rev_append append.simps)

lemma FindRootCause_closed:
  "FindRootCause events =
     (if filter is_change events \<noteq> [] then Some (event_cause (last (filter is_change events)))
      else if filter is_release events \<noteq> [] then Some (event_cause (last (filter is_release events)))
      else None)"
proof -
  have r: "filter P (rev events) = rev (filter P events)" for P
    by (simp add: rev_filter)
  show ?thesis
    using hd_rev_last [of "filter is_change events"] hd_rev_last [of "filter is_release events"]
    unfolding FindRootCause_def root_loop_eq r
    by (auto split: list.splits)
qed

text \<open>
  The root cause is the change of the last \<open>change.merged\<close> event of the list that carries a
  commit; when there is none, the change of the last deployment event that carries one; and
  there is no root cause exactly when no event of these kinds carries a commit.
\<close>

theorem FindRootCause_spec:
  "FindRootCause events =
     (if filter is_change events \<noteq> [] then Some (event_cause (last (filter is_change events)))
      else if filter is_release events \<noteq> [] then Some (event_cause (last (filter is_release events)))
      else None)"
  by (rule FindRootCause_closed)

section \<open>Which events a chain has\<close>

interpretation chain_order: slice_order chain_newer event_key
  by unfold_locales (auto simp: chain_newer_def event_key_def go_simps)

lemma add_linked_map_of:
  assumes "\<forall>e \<in> set linked. \<forall>e' \<in> set linked. ev_ID e = ev_ID e' \<longrightarrow> e = e'"
  shows "gomap_ok (add_linked linked []) \<and>
    (\<forall>i e. map_of (add_linked linked []) i = Some e \<longleftrightarrow> e \<in> set linked \<and> ev_ID e = i)"
  using assms
proof (induction linked rule: rev_induct)
  case Nil
  then show ?case by (simp add: add_linked_def)
next
  case (snoc e linked)
  then show ?case by (auto simp: add_linked_def)
qed

lemma add_siblings_map_of:
  assumes "gomap_ok events" and "\<forall>i e. map_of events i = Some e \<longleftrightarrow> e \<in> A \<and> ev_ID e = i"
    and "\<forall>e \<in> A \<union> set siblings. \<forall>e' \<in> A \<union> set siblings. ev_ID e = ev_ID e' \<longrightarrow> e = e'"
  shows "gomap_ok (add_siblings siblings events) \<and>
    (\<forall>i e. map_of (add_siblings siblings events) i = Some e \<longleftrightarrow> e \<in> A \<union> set siblings \<and> ev_ID e = i)"
  using assms(3)
proof (induction siblings rule: rev_induct)
  case Nil
  then show ?case using assms(1,2) by (simp add: add_siblings_def)
next
  case (snoc e es)
  then have IH: "gomap_ok (add_siblings es events)"
    "\<And>i e. map_of (add_siblings es events) i = Some e \<longleftrightarrow> e \<in> A \<union> set es \<and> ev_ID e = i"
    by auto
  have step: "add_siblings (es @ [e]) events =
      (if map_of (add_siblings es events) (ev_ID e) = None
       then AList.update (ev_ID e) e (add_siblings es events) else add_siblings es events)"
    by (simp add: add_siblings_def)
  show ?case
  proof (cases "map_of (add_siblings es events) (ev_ID e)")
    case None
    have fresh: "e' \<in> A \<union> set es \<Longrightarrow> ev_ID e' \<noteq> ev_ID e" for e'
      using None IH(2) [of "ev_ID e" e'] by auto
    have "map_of (AList.update (ev_ID e) e (add_siblings es events)) i = Some e' \<longleftrightarrow>
        e' \<in> A \<union> set (es @ [e]) \<and> ev_ID e' = i" for i e'
      using IH(2) [of i e'] fresh [of e'] by (cases "i = ev_ID e") auto
    with IH(1) None show ?thesis unfolding step by simp
  next
    case (Some e')
    with IH(2) have "e' \<in> A \<union> set es" "ev_ID e' = ev_ID e" by auto
    with snoc.prems have "e' = e" by auto
    with \<open>e' \<in> A \<union> set es\<close> have "A \<union> set (es @ [e]) = A \<union> set es" by auto
    moreover from Some have "add_siblings (es @ [e]) events = add_siblings es events"
      unfolding step by simp
    ultimately show ?thesis using IH by simp
  qed
qed

text \<open>The ordered events of a chain, from the ones the walk found and the siblings.\<close>

definition chain_of :: "stored_event \<Rightarrow> string \<Rightarrow> stored_event list \<Rightarrow> event_chain" where
  "chain_of startEvent eventID ordered =
     \<lparr>chain_ChainID = ev_ChainID startEvent, chain_StartEvent = eventID,
      chain_Events = map toChainEvent ordered, chain_RootCause = FindRootCause ordered\<rparr>"

definition members_ok ::
  "(string \<Rightarrow> stored_event option) \<Rightarrow> stored_event \<Rightarrow> stored_event list \<Rightarrow> stored_event list \<Rightarrow> bool" where
  "members_ok store startEvent linked ordered \<longleftrightarrow>
     distinct ordered \<and> sorted (map event_key ordered) \<and>
     set ordered = set linked \<union>
       {e \<in> ran store. ev_ChainID startEvent \<noteq> [] \<and> ev_ChainID e = ev_ChainID startEvent}"

lemma ordered_members:
  assumes "gomap_ok events" and "\<forall>i e. map_of events i = Some e \<longleftrightarrow> e \<in> A \<and> ev_ID e = i"
    and "permutes_values visit"
  shows "distinct (slice_stable chain_newer (visit (map snd events))) \<and>
    sorted (map event_key (slice_stable chain_newer (visit (map snd events)))) \<and>
    set (slice_stable chain_newer (visit (map snd events))) = A"
proof -
  let ?xs = "visit (map snd events)"
  have "set (map snd events) = A"
    unfolding gomap_values [OF assms(1)] using assms(2) by (auto simp: ran_def)
  then have set: "set ?xs = A" using permutes_values_set [OF assms(3)] by metis
  have "distinct (map snd events)"
    using assms(1) by (rule gomap_inj_values(1) [where f = ev_ID]) (use assms(2) in auto)
  then have "distinct ?xs" using permutes_values_distinct [OF assms(3)] by metis
  then have "distinct (slice_stable chain_newer ?xs)"
    by (metis chain_order.slice_stable_mset mset_eq_imp_distinct_iff)
  then show ?thesis
    using set chain_order.slice_stable_sorted [of ?xs] chain_order.slice_stable_set [of ?xs] by auto
qed

context storage_live
begin

lemma BuildChain_live:
  assumes "inv s" and "permutes_values visit" and start: "evs s eventID = Some startEvent"
  shows "\<exists>linked ordered. fst (TraverseChain S g None eventID s) = Inr linked \<and>
    members_ok (evs s) startEvent linked ordered \<and>
    BuildChain S g visit None eventID s = (Inr (chain_of startEvent eventID ordered), s)"
proof -
  from TraverseChain_live [OF assms(1), of g eventID] obtain linked where
    t: "TraverseChain S g None eventID s = (Inr linked, s)" and w: "walk_result (evs s) g eventID linked"
    by blast
  have "set linked \<subseteq> ran (evs s)"
    using w unfolding walk_result_def by (auto simp: ran_def)
  then have inj: "\<forall>e \<in> set linked. \<forall>e' \<in> set linked. ev_ID e = ev_ID e' \<longrightarrow> e = e'"
    using ev_ID_inj [OF assms(1)] by (auto simp: inj_on_def)
  note l = add_linked_map_of [OF inj, THEN conjunct1] add_linked_map_of [OF inj, THEN conjunct2]
  have g: "GetEvent S None eventID s = (Inr startEvent, s)"
    using live_get_ev_eq [OF assms(1), of eventID] start by simp
  show ?thesis
  proof (cases "ev_ChainID startEvent = []")
    case True
    from ordered_members [OF l assms(2)] t g True show ?thesis
      by (auto simp: BuildChain_def members_ok_def chain_of_def Let_def)
  next
    case False
    obtain es s' where "GetEventsByChain S None (ev_ChainID startEvent) s = (Inr es, s')"
      using live_chain [of "ev_ChainID startEvent" s] by (metis prod.collapse)
    with get_chain [OF assms(1) this] have c: "GetEventsByChain S None (ev_ChainID startEvent) s = (Inr es, s)"
      and es: "set es = {e \<in> ran (evs s). ev_ChainID e = ev_ChainID startEvent}"
      using False by auto
    have "\<forall>e \<in> set linked \<union> set es. \<forall>e' \<in> set linked \<union> set es. ev_ID e = ev_ID e' \<longrightarrow> e = e'"
      using ev_ID_inj [OF assms(1)] \<open>set linked \<subseteq> ran (evs s)\<close> es by (auto simp: inj_on_def)
    note b = add_siblings_map_of [OF l this, THEN conjunct1] add_siblings_map_of [OF l this, THEN conjunct2]
    from ordered_members [OF b assms(2)] t g c es False show ?thesis
      by (auto simp: BuildChain_def members_ok_def chain_of_def Let_def)
  qed
qed

end

lemma sorted_key_unique:
  fixes key :: "'a \<Rightarrow> 'k::linorder"
  assumes "set xs = set ys" and "sorted (map key xs)" and "sorted (map key ys)"
    and "distinct xs" and "distinct ys" and "inj_on key (set xs)"
  shows "xs = ys"
proof -
  have "distinct (map key xs)" "distinct (map key ys)"
    using assms(1,4-6) by (simp_all add: distinct_map)
  moreover have "set (map key xs) = set (map key ys)" using assms(1) by simp
  ultimately have "map key xs = map key ys"
    using assms(2,3) by (intro sorted_distinct_set_unique)
  with assms(1,6) show ?thesis
    by (metis inj_on_map_eq_map Un_absorb)
qed

lemma sorted_key_last:
  fixes key :: "'a \<Rightarrow> 'k::linorder"
  assumes "sorted (map key xs)" and "xs \<noteq> []"
  shows "\<forall>x \<in> set xs. key x \<le> key (last xs)"
  using assms by (induction xs rule: rev_induct) (auto simp: sorted_append)

lemma TraverseChain_live_memory:
  assumes "memory_plain m" and "visit_ok rng"
    and "fst (TraverseChain (MemoryStorage rng) g None start m) = Inr out"
  shows "set out \<subseteq> ran (memory_evs m)"
  using storage_live.TraverseChain_live [OF memory_contract [OF assms(2)] assms(1), of g start] assms(3)
  by (auto simp: walk_result_def ran_def)

section \<open>Properties\<close>

text \<open>
  C1. The chain of a stored event is built without failing, in any visiting order: its events
  are, once each and newest first, exactly the events of the link walk together with all events
  of the start event's chain id, when it has one; and it carries the root cause of that list.
\<close>

theorem BuildChain_events:
  assumes "memory_plain m" and "visit_ok rng" and "permutes_values visit"
    and "memory_evs m eventID = Some startEvent"
  shows "\<exists>linked ordered chain.
    fst (TraverseChain (MemoryStorage rng) g None eventID m) = Inr linked \<and>
    BuildChain (MemoryStorage rng) g visit None eventID m = (Inr chain, m) \<and>
    chain_ChainID chain = ev_ChainID startEvent \<and> chain_StartEvent chain = eventID \<and>
    chain_Events chain = map toChainEvent ordered \<and> chain_RootCause chain = FindRootCause ordered \<and>
    distinct ordered \<and> sorted (map event_key ordered) \<and>
    set ordered = set linked \<union>
      {e \<in> ran (memory_evs m). ev_ChainID startEvent \<noteq> [] \<and> ev_ChainID e = ev_ChainID startEvent}"
proof -
  from storage_live.BuildChain_live [OF memory_contract [OF assms(2)] assms(1,3,4), of g]
  obtain linked ordered where
    "fst (TraverseChain (MemoryStorage rng) g None eventID m) = Inr linked"
    "members_ok (memory_evs m) startEvent linked ordered"
    "BuildChain (MemoryStorage rng) g visit None eventID m = (Inr (chain_of startEvent eventID ordered), m)"
    by blast
  then show ?thesis
    by (intro exI [of _ linked] exI [of _ ordered] exI [of _ "chain_of startEvent eventID ordered"])
      (simp add: members_ok_def chain_of_def)
qed

lemma cyclic_store_d:
  "memory_evs cyclic_store ''d'' = Some (sample_event ''d'' ''service.deployed'' ''c'' 30 [''p'', ''gone''])"
  by code_simp

theorem BuildChain_events_witness:
  "\<exists>chain ordered. BuildChain (MemoryStorage stored_order) NewEventGraph rev None ''d'' cyclic_store =
       (Inr chain, cyclic_store) \<and>
     map ce_ID (chain_Events chain) = [''x'', ''d'', ''p'', ''m''] \<and>
     chain_Events chain = map toChainEvent ordered \<and> sorted (map event_key ordered)"
proof -
  have ids: "map_prod (map_sum (\<lambda>_. ()) (\<lambda>c. map ce_ID (chain_Events c))) (\<lambda>_. ())
      (BuildChain (MemoryStorage stored_order) NewEventGraph rev None ''d'' cyclic_store) =
    (Inr [''x'', ''d'', ''p'', ''m''], ())"
    by code_simp
  from BuildChain_events [OF cyclic_store_plain visit_ok_orders(1) permutes_values_id(2) cyclic_store_d,
      of NewEventGraph]
  obtain chain ordered where
    c: "BuildChain (MemoryStorage stored_order) NewEventGraph rev None ''d'' cyclic_store =
      (Inr chain, cyclic_store)"
    "chain_Events chain = map toChainEvent ordered" "sorted (map event_key ordered)" by blast
  moreover from ids c(1) have "map ce_ID (chain_Events chain) = [''x'', ''d'', ''p'', ''m'']" by simp
  ultimately show ?thesis by (intro exI [of _ chain] exI [of _ ordered] conjI)
qed

text \<open>
  C14. A chain does not depend on the order in which the runtime visits a map, neither the maps
  of the store nor the map of the events collected.
\<close>

theorem BuildChain_deterministic:
  assumes "memory_plain m" and "visit_ok r1" and "visit_ok r2"
    and "permutes_values v1" and "permutes_values v2"
    and "memory_evs m eventID = Some startEvent"
  shows "BuildChain (MemoryStorage r1) g v1 None eventID m = BuildChain (MemoryStorage r2) g v2 None eventID m"
proof -
  have trav: "TraverseChain (MemoryStorage r1) g None eventID m = TraverseChain (MemoryStorage r2) g None eventID m"
  proof -
    have "traverse_loop (MemoryStorage r1) g ctx vs q res s = traverse_loop (MemoryStorage r2) g ctx vs q res s"
      for ctx vs q res s
    proof (induction "MemoryStorage r1" g ctx vs q res s rule: traverse_loop.induct)
      case (2 g ctx vs i d q res s)
      then show ?case
        by (auto simp: traverse_loop.simps split: prod.splits sum.splits)
    qed (simp add: traverse_loop.simps)
    then show ?thesis by (simp add: TraverseChain_def)
  qed
  from storage_live.BuildChain_live [OF memory_contract [OF assms(2)] assms(1,4,6), of g]
  obtain l1 o1 where l1: "fst (TraverseChain (MemoryStorage r1) g None eventID m) = Inr l1"
    "members_ok (memory_evs m) startEvent l1 o1"
    "BuildChain (MemoryStorage r1) g v1 None eventID m = (Inr (chain_of startEvent eventID o1), m)" by blast
  from storage_live.BuildChain_live [OF memory_contract [OF assms(3)] assms(1,5,6), of g]
  obtain l2 o2 where l2: "fst (TraverseChain (MemoryStorage r2) g None eventID m) = Inr l2"
    "members_ok (memory_evs m) startEvent l2 o2"
    "BuildChain (MemoryStorage r2) g v2 None eventID m = (Inr (chain_of startEvent eventID o2), m)" by blast
  have eq: "l1 = l2" using l1(1) l2(1) trav by simp
  have walk: "set l1 \<subseteq> ran (memory_evs m)"
    using TraverseChain_live_memory [OF assms(1,2) l1(1)] .
  have "set o1 = set o2" "sorted (map event_key o1)" "sorted (map event_key o2)" "distinct o1" "distinct o2"
    using l1(2) l2(2) eq by (auto simp: members_ok_def)
  moreover have "inj_on event_key (set o1)"
  proof -
    have "set o1 \<subseteq> ran (memory_evs m)" using l1(2) walk by (auto simp: members_ok_def)
    with memory_keys_inj(2) [OF assms(1)] show ?thesis
      by (blast intro: event_key_inj inj_on_subset)
  qed
  ultimately have "o1 = o2" by (rule sorted_key_unique)
  with l1(3) l2(3) show ?thesis by simp
qed

theorem BuildChain_deterministic_witness:
  "BuildChain (MemoryStorage stored_order) NewEventGraph (\<lambda>es. es) None ''d'' cyclic_store =
   BuildChain (MemoryStorage reverse_order) NewEventGraph rev None ''d'' cyclic_store"
  by (rule BuildChain_deterministic [OF cyclic_store_plain visit_ok_orders permutes_values_id cyclic_store_d])

text \<open>
  C4. The root cause of a chain is the change of its earliest \<open>change.merged\<close> event that carries
  a commit: no such event of the chain is older. Only a chain without one falls back, to its
  earliest deployment event that carries a commit.
\<close>

theorem BuildChain_root_cause:
  assumes "memory_plain m" and "visit_ok rng" and "permutes_values visit"
    and "memory_evs m eventID = Some startEvent"
    and "BuildChain (MemoryStorage rng) g visit None eventID m = (Inr chain, m')"
  shows "\<exists>ordered. chain_Events chain = map toChainEvent ordered \<and>
    (case chain_RootCause chain of
       None \<Rightarrow> \<forall>e \<in> set ordered. \<not> is_change e \<and> \<not> is_release e
     | Some rc \<Rightarrow> \<exists>e \<in> set ordered. rc = event_cause e \<and>
         ((is_change e \<and> (\<forall>e' \<in> set ordered. is_change e' \<longrightarrow>
             gt_ns (ev_Timestamp e) \<le> gt_ns (ev_Timestamp e'))) \<or>
          (is_release e \<and> (\<forall>e' \<in> set ordered. \<not> is_change e') \<and>
            (\<forall>e' \<in> set ordered. is_release e' \<longrightarrow> gt_ns (ev_Timestamp e) \<le> gt_ns (ev_Timestamp e')))))"
proof -
  from storage_live.BuildChain_live [OF memory_contract [OF assms(2)] assms(1,3,4), of g] assms(5)
  obtain linked ordered where mem: "members_ok (memory_evs m) startEvent linked ordered"
    and chain: "chain = chain_of startEvent eventID ordered" by auto
  have last: "last (filter P ordered) \<in> set ordered \<and> P (last (filter P ordered)) \<and>
      (\<forall>e' \<in> set ordered. P e' \<longrightarrow> gt_ns (ev_Timestamp (last (filter P ordered))) \<le> gt_ns (ev_Timestamp e'))"
    if ne: "filter P ordered \<noteq> []" for P
  proof -
    have "sorted (map event_key (filter P ordered))"
      using mem by (simp add: members_ok_def sorted_filter)
    from sorted_key_last [OF this ne]
    have "\<forall>e' \<in> set (filter P ordered). event_key e' \<le> event_key (last (filter P ordered))" .
    moreover have "last (filter P ordered) \<in> set (filter P ordered)" using ne by (rule last_in_set)
    ultimately show ?thesis by (auto simp: event_key_def)
  qed
  show ?thesis
  proof (intro exI [of _ ordered] conjI)
    show "chain_Events chain = map toChainEvent ordered" by (simp add: chain chain_of_def)
    have rc: "chain_RootCause chain = FindRootCause ordered" by (simp add: chain chain_of_def)
    note spec = FindRootCause_closed [of ordered]
    show "case chain_RootCause chain of
       None \<Rightarrow> \<forall>e \<in> set ordered. \<not> is_change e \<and> \<not> is_release e
     | Some rc \<Rightarrow> \<exists>e \<in> set ordered. rc = event_cause e \<and>
         ((is_change e \<and> (\<forall>e' \<in> set ordered. is_change e' \<longrightarrow>
             gt_ns (ev_Timestamp e) \<le> gt_ns (ev_Timestamp e'))) \<or>
          (is_release e \<and> (\<forall>e' \<in> set ordered. \<not> is_change e') \<and>
            (\<forall>e' \<in> set ordered. is_release e' \<longrightarrow> gt_ns (ev_Timestamp e) \<le> gt_ns (ev_Timestamp e'))))"
    proof (cases "filter is_change ordered = []")
      case False
      with spec rc have "chain_RootCause chain = Some (event_cause (last (filter is_change ordered)))" by simp
      with last [OF False] show ?thesis by auto
    next
      case no_change: True
      then have nc: "\<forall>e \<in> set ordered. \<not> is_change e" by (simp add: filter_empty_conv)
      show ?thesis
      proof (cases "filter is_release ordered = []")
        case True
        with no_change spec rc have "chain_RootCause chain = None" by simp
        with nc True show ?thesis by (simp add: filter_empty_conv)
      next
        case False
        with no_change spec rc
        have "chain_RootCause chain = Some (event_cause (last (filter is_release ordered)))" by simp
        with last [OF False] nc show ?thesis by auto
      qed
    qed
  qed
qed

theorem BuildChain_root_cause_witness:
  "\<exists>chain. fst (BuildChain (MemoryStorage stored_order) NewEventGraph rev None ''d'' cyclic_store) =
       Inr chain \<and>
     map_option rc_Commit (chain_RootCause chain) = Some ''sha-m'' \<and>
     (\<exists>ordered. chain_Events chain = map toChainEvent ordered)"
proof -
  have rc: "map_sum (\<lambda>_. ()) (\<lambda>c. map_option rc_Commit (chain_RootCause c))
      (fst (BuildChain (MemoryStorage stored_order) NewEventGraph rev None ''d'' cyclic_store)) =
    Inr (Some ''sha-m'')"
    by code_simp
  obtain r m' where b: "BuildChain (MemoryStorage stored_order) NewEventGraph rev None ''d'' cyclic_store =
      (r, m')" by fastforce
  with rc obtain chain where r: "r = Inr chain" by (cases r) auto
  from BuildChain_root_cause [OF cyclic_store_plain visit_ok_orders(1) permutes_values_id(2)
      cyclic_store_d b [unfolded r]]
  have "\<exists>ordered. chain_Events chain = map toChainEvent ordered" by blast
  with b r rc show ?thesis by simp
qed

text \<open>
  C17. A chain is refused exactly when its start event cannot be loaded or the store fails on the
  way, and the error is a not-found error exactly when the start event is not stored.
\<close>

theorem BuildChain_not_found:
  assumes "memory_plain m" and "visit_ok rng" and "permutes_values visit"
  shows "(\<exists>err. fst (BuildChain (MemoryStorage rng) g visit ctx eventID m) = Inl err \<and>
      errors_is err ErrNotFound) \<longleftrightarrow> ctx = None \<and> memory_evs m eventID = None"
proof (cases ctx)
  case None
  show ?thesis
  proof (cases "memory_evs m eventID")
    case nf: None
    then show ?thesis
      by (simp add: None BuildChain_def mem_GetEvent_def memory_evs_def)
  next
    case (Some e)
    with storage_live.BuildChain_live [OF memory_contract [OF assms(2)] assms(1,3) Some, of g] None
    show ?thesis by auto
  qed
next
  case (Some t)
  then show ?thesis
    by (simp add: BuildChain_def mem_GetEvent_def)
qed

theorem BuildChain_not_found_witness:
  "\<exists>err. fst (BuildChain (MemoryStorage stored_order) NewEventGraph rev None ''gone'' cyclic_store) =
     Inl err \<and> errors_is err ErrNotFound"
proof -
  have "memory_evs cyclic_store ''gone'' = None" by code_simp
  with BuildChain_not_found [OF cyclic_store_plain visit_ok_orders(1) permutes_values_id(2),
      of NewEventGraph None "''gone''"]
  show ?thesis by blast
qed

text \<open>A store with \<open>n + 1\<close> unlinked events of one chain id.\<close>

definition wide_store :: "nat \<Rightarrow> memory" where
  "wide_store n = run_saves
     (map (\<lambda>k. Save_Event (sample_event (replicate k CHR ''e'') ''service.deployed'' ''c'' (int k) [])) [0..<Suc n])"

lemma wide_store_events:
  "memory_plain (wide_store n)"
  "memory_evs (wide_store n) i =
     (if set i \<subseteq> {CHR ''e''} \<and> length i \<le> n
      then Some (sample_event i ''service.deployed'' ''c'' (int (length i)) []) else None)"
proof -
  let ?ev = "\<lambda>k. sample_event (replicate k CHR ''e'') ''service.deployed'' ''c'' (int k) []"
  let ?ops = "map (\<lambda>k. Save_Event (?ev k)) [0..<Suc n]"
  have p: "list_all plain_save ?ops" by (auto simp: list_all_iff plain_save_def)
  from run_saves_state [OF p] show "memory_plain (wide_store n)"
    by (simp add: wide_store_def)
  have se: "saved_events i ?ops = (if set i \<subseteq> {CHR ''e''} \<and> length i \<le> n then [?ev (length i)] else [])"
  proof -
    have "saved_events i ?ops = map ?ev (filter (\<lambda>k. replicate k CHR ''e'' = i) [0..<Suc n])"
      by (induction n) (auto simp: saved_events_def sample_event_def)
    moreover have "filter (\<lambda>k. replicate k CHR ''e'' = i) [0..<Suc n] =
        (if set i \<subseteq> {CHR ''e''} \<and> length i \<le> n then [length i] else [])"
    proof (induction n)
      case 0
      then show ?case by auto
    next
      case (Suc n)
      have "replicate (Suc n) CHR ''e'' = i \<longleftrightarrow> set i \<subseteq> {CHR ''e''} \<and> length i = Suc n"
        by (metis length_replicate set_replicate_Suc replicate_eqI subset_singleton_iff
            singletonD subsetD order_refl)
      then have "filter (\<lambda>k. replicate k CHR ''e'' = i) [Suc n] =
          (if set i \<subseteq> {CHR ''e''} \<and> length i = Suc n then [length i] else [])"
        by (simp del: replicate_Suc)
      moreover have "[0..<Suc (Suc n)] = [0..<Suc n] @ [Suc n]"
        by simp
      ultimately show ?case
        unfolding filter_append using Suc by (auto simp del: upt_Suc)
    qed
    ultimately show ?thesis by (simp del: upt_Suc)
  qed
  have "replicate (length i) CHR ''e'' = i" if "set i \<subseteq> {CHR ''e''}"
    using that by (metis replicate_eqI singletonD subsetD)
  with se run_saves_state [OF p] show "memory_evs (wide_store n) i =
     (if set i \<subseteq> {CHR ''e''} \<and> length i \<le> n
      then Some (sample_event i ''service.deployed'' ''c'' (int (length i)) []) else None)"
    by (simp add: wide_store_def last_of_def)
qed

text \<open>
  The limits of the walk do not bound a chain: the events that share the start event's chain
  id are all in it, so there are chains of every length, beyond the 256 events and 32 hops that
  the architecture document gives as the end of a chain.
\<close>

theorem BuildChain_siblings_unbounded:
  "\<exists>m eventID chain. memory_plain m \<and>
     BuildChain (MemoryStorage stored_order) NewEventGraph (\<lambda>es. es) None eventID m = (Inr chain, m) \<and>
     length (chain_Events chain) = Suc n"
proof -
  let ?m = "wide_store n" and ?ev = "\<lambda>i. sample_event i ''service.deployed'' ''c'' (int (length i)) []"
  note plain = wide_store_events(1) [of n]
  have start: "memory_evs ?m [] = Some (?ev [])"
    by (simp add: wide_store_events(2))
  from storage_live.BuildChain_live [OF memory_contract [OF visit_ok_orders(1)] plain
      permutes_values_id(1) start, of NewEventGraph]
  obtain linked ordered where l: "fst (TraverseChain (MemoryStorage stored_order) NewEventGraph None [] ?m) = Inr linked"
    and mem: "members_ok (memory_evs ?m) (?ev []) linked ordered"
    and b: "BuildChain (MemoryStorage stored_order) NewEventGraph (\<lambda>es. es) None [] ?m =
      (Inr (chain_of (?ev []) [] ordered), ?m)" by blast
  have ran: "ran (memory_evs ?m) = (\<lambda>k. ?ev (replicate k CHR ''e'')) ` {..n}"
  proof -
    have r: "replicate (length i) CHR ''e'' = i" if "set i \<subseteq> {CHR ''e''}" for i :: string
      using that by (metis replicate_eqI singletonD subsetD)
    have "x \<in> ran (memory_evs ?m) \<longleftrightarrow> (\<exists>i. (set i \<subseteq> {CHR ''e''} \<and> length i \<le> n) \<and> ?ev i = x)" for x
      unfolding ran_def wide_store_events(2) mem_Collect_eq by (metis option.inject option.distinct(1))
    moreover have "(\<exists>i. (set i \<subseteq> {CHR ''e''} \<and> length i \<le> n) \<and> ?ev i = x) \<longleftrightarrow>
        x \<in> (\<lambda>k. ?ev (replicate k CHR ''e'')) ` {..n}" for x
    proof
      assume "\<exists>i. (set i \<subseteq> {CHR ''e''} \<and> length i \<le> n) \<and> ?ev i = x"
      then obtain i where i: "set i \<subseteq> {CHR ''e''}" "length i \<le> n" "x = ?ev i" by blast
      then have "x = ?ev (replicate (length i) CHR ''e'')" by (simp only: r)
      with i(2) show "x \<in> (\<lambda>k. ?ev (replicate k CHR ''e'')) ` {..n}" by blast
    next
      assume "x \<in> (\<lambda>k. ?ev (replicate k CHR ''e'')) ` {..n}"
      then obtain k where "k \<le> n" "?ev (replicate k CHR ''e'') = x" by blast
      then show "\<exists>i. (set i \<subseteq> {CHR ''e''} \<and> length i \<le> n) \<and> ?ev i = x"
        by (intro exI [of _ "replicate k CHR ''e''"]) auto
    qed
    ultimately show ?thesis by blast
  qed
  have inj: "inj_on (\<lambda>k. ?ev (replicate k CHR ''e'')) {..n}"
    by (rule inj_onI) (simp add: sample_event_def)
  have "ev_ChainID e = ''c''" if "e \<in> ran (memory_evs ?m)" for e
    using that unfolding ran by (auto simp: sample_event_def)
  moreover have "ev_ChainID (?ev []) = ''c''" by (simp add: sample_event_def)
  ultimately have "set ordered = set linked \<union> ran (memory_evs ?m)"
    using mem unfolding members_ok_def by auto
  then have "set ordered = ran (memory_evs ?m)"
    using TraverseChain_live_memory [OF plain visit_ok_orders(1) l] by blast
  then have "card (set ordered) = Suc n"
    using card_image [OF inj] ran by simp
  moreover have "card (set ordered) = length ordered"
    using mem unfolding members_ok_def by (metis distinct_card)
  ultimately have "length (chain_Events (chain_of (?ev []) [] ordered)) = Suc n"
    by (simp add: chain_of_def)
  with plain b show ?thesis by blast
qed

end
