(* ===== verification/Go_Json_Text.thy ===== *)
theory Go_Json_Text
  imports Go_Json
begin

text \<open>
  The lexer and the grammar of \<open>encoding/json\<close>: the bytes of a document into its syntax tree.
  The whole input must be one value with blanks around it; arrays and objects nest at most
  ten thousand deep.
\<close>

section \<open>Tokens\<close>

definition is_blank :: "char \<Rightarrow> bool" where
  "is_blank c \<longleftrightarrow> c = CHR 0x20 \<or> c = CHR 0x09 \<or> c = CHR 0x0D \<or> c = CHR 0x0A"

definition skip_blanks :: "string \<Rightarrow> string" where
  "skip_blanks s = dropWhile is_blank s"

definition is_hex :: "char \<Rightarrow> bool" where
  "is_hex c \<longleftrightarrow> hex_val c \<noteq> None"

definition simple_escape :: "char \<Rightarrow> bool" where
  "simple_escape c \<longleftrightarrow> c \<in> set [CHR ''b'', CHR ''f'', CHR ''n'', CHR ''r'', CHR ''t'', CHR 0x5C, CHR ''/'', CHR 0x22]"

text \<open>A string literal after its opening quote: the bytes up to the closing quote and the rest.\<close>

fun lex_string :: "string \<Rightarrow> (string \<times> string) option" where
  "lex_string [] = None"
| "lex_string (c # s) =
     (if c = CHR 0x22 then Some ([], s)
      else if of_char c < (0x20 :: nat) then None
      else if c \<noteq> CHR 0x5C then map_option (apfst ((#) c)) (lex_string s)
      else case s of
        e # r \<Rightarrow>
          if simple_escape e then map_option (apfst (\<lambda>b. c # e # b)) (lex_string r)
          else if e = CHR ''u'' then
            (case r of
               h1 # h2 # h3 # h4 # r' \<Rightarrow>
                 if is_hex h1 \<and> is_hex h2 \<and> is_hex h3 \<and> is_hex h4
                 then map_option (apfst (\<lambda>b. c # e # h1 # h2 # h3 # h4 # b)) (lex_string r')
                 else None
             | _ \<Rightarrow> None)
          else None
      | [] \<Rightarrow> None)"

text \<open>A number literal: sign, integer part, fraction, exponent.\<close>

definition lex_digits :: "string \<Rightarrow> (string \<times> string) option" where
  "lex_digits s =
     (let ds = takeWhile is_digit s in if ds = [] then None else Some (ds, dropWhile is_digit s))"

definition lex_int :: "string \<Rightarrow> (string \<times> string) option" where
  "lex_int s = (if has_prefix ''0'' s then Some (''0'', drop 1 s) else lex_digits s)"

definition lex_frac :: "string \<Rightarrow> (string \<times> string) option" where
  "lex_frac s =
     (if has_prefix ''.'' s then map_option (apfst ((#) CHR ''.'')) (lex_digits (drop 1 s))
      else Some ([], s))"

definition lex_exp :: "string \<Rightarrow> (string \<times> string) option" where
  "lex_exp s =
     (case s of
        e # r \<Rightarrow>
          if e = CHR ''e'' \<or> e = CHR ''E'' then
            (case r of
               sg # r' \<Rightarrow>
                 if sg = CHR ''+'' \<or> sg = CHR ''-''
                 then map_option (apfst (\<lambda>d. e # sg # d)) (lex_digits r')
                 else map_option (apfst ((#) e)) (lex_digits r)
             | [] \<Rightarrow> None)
          else Some ([], s)
      | [] \<Rightarrow> Some ([], s))"

definition lex_number :: "string \<Rightarrow> (string \<times> string) option" where
  "lex_number s = do {
     let (sign, s) = (if has_prefix ''-'' s then (''-'', drop 1 s) else ([], s));
     (i, s) \<leftarrow> lex_int s;
     (f, s) \<leftarrow> lex_frac s;
     (e, s) \<leftarrow> lex_exp s;
     Some (sign @ i @ f @ e, s)
   }"

section \<open>Grammar\<close>

definition max_depth :: nat where
  "max_depth = 10000"

text \<open>
  Recursive descent. The first argument is fuel, spent by every call; the second is how much
  deeper arrays and objects may nest. \<open>parse_elems\<close> and \<open>parse_members\<close> start at an element
  of a non-empty array or object.
\<close>

fun parse_value :: "nat \<Rightarrow> nat \<Rightarrow> string \<Rightarrow> (json \<times> string) option"
  and parse_elems :: "nat \<Rightarrow> nat \<Rightarrow> string \<Rightarrow> (json list \<times> string) option"
  and parse_members :: "nat \<Rightarrow> nat \<Rightarrow> string \<Rightarrow> ((string \<times> json) list \<times> string) option"
where
  "parse_value 0 d s = None"
| "parse_value (Suc n) d s =
     (case skip_blanks s of
        [] \<Rightarrow> None
      | c # r \<Rightarrow>
          if c = CHR 0x22 then map_option (apfst JStr) (lex_string r)
          else if c = CHR ''['' then
            (if d = 0 then None
             else if has_prefix '']'' (skip_blanks r) then Some (JArr [], drop 1 (skip_blanks r))
             else map_option (apfst JArr) (parse_elems n (d - 1) r))
          else if c = CHR ''{'' then
            (if d = 0 then None
             else if has_prefix ''}'' (skip_blanks r) then Some (JObj [], drop 1 (skip_blanks r))
             else map_option (apfst JObj) (parse_members n (d - 1) r))
          else if has_prefix ''null'' (c # r) then Some (JNull, drop 4 (c # r))
          else if has_prefix ''true'' (c # r) then Some (JBool True, drop 4 (c # r))
          else if has_prefix ''false'' (c # r) then Some (JBool False, drop 5 (c # r))
          else map_option (apfst JNum) (lex_number (c # r)))"
| "parse_elems 0 d s = None"
| "parse_elems (Suc n) d s = do {
     (j, s) \<leftarrow> parse_value n d s;
     (case skip_blanks s of
        [] \<Rightarrow> None
      | c # r \<Rightarrow>
          if c = CHR '']'' then Some ([j], r)
          else if c = CHR '','' then map_option (apfst ((#) j)) (parse_elems n d r)
          else None)
   }"
| "parse_members 0 d s = None"
| "parse_members (Suc n) d s =
     (case skip_blanks s of
        [] \<Rightarrow> None
      | q # r0 \<Rightarrow>
          if q \<noteq> CHR 0x22 then None
          else do {
            (k, s) \<leftarrow> lex_string r0;
            (case skip_blanks s of
               [] \<Rightarrow> None
             | c # r \<Rightarrow>
                 if c \<noteq> CHR '':'' then None
                 else do {
                   (j, s) \<leftarrow> parse_value n d r;
                   (case skip_blanks s of
                      [] \<Rightarrow> None
                    | c' # r' \<Rightarrow>
                        if c' = CHR ''}'' then Some ([(k, j)], r')
                        else if c' = CHR '','' then map_option (apfst ((#) (k, j))) (parse_members n d r')
                        else None)
                 })
          })"

text \<open>\<open>json.Unmarshal\<close> first checks the whole text against the grammar.\<close>

definition parse_json :: "string \<Rightarrow> json option" where
  "parse_json s =
     (case parse_value (2 * length s + 1) max_depth s of
        Some (j, rest) \<Rightarrow> if skip_blanks rest = [] then Some j else None
      | None \<Rightarrow> None)"

section \<open>Every token makes progress\<close>

lemma skip_blanks_length: "length (skip_blanks s) \<le> length s"
  by (simp add: skip_blanks_def length_dropWhile_le)

lemma skip_blanks_idem [simp]: "skip_blanks (skip_blanks s) = skip_blanks s"
  unfolding skip_blanks_def by (induction s) auto

lemma apfst_Some: "map_option (apfst f) x = Some (b, r) \<longleftrightarrow> (\<exists>b'. x = Some (b', r) \<and> b = f b')"
  by (cases x) auto

lemma lex_string_length: "lex_string s = Some (b, r) \<Longrightarrow> length r < length s"
proof (induction s arbitrary: b r rule: lex_string.induct)
  case 1
  then show ?case by simp
next
  case (2 c s)
  consider "c = CHR 0x22" | "c \<noteq> CHR 0x22" "c \<noteq> CHR 0x5C" | "c = CHR 0x5C"
    by blast
  then show ?case
  proof cases
    case 1
    with "2.prems" show ?thesis by simp
  next
    case 2
    with "2.prems" "2.IH"(1) show ?thesis
      by (auto simp: apfst_Some less_Suc_eq split: if_splits)
  next
    case 3
    then obtain e t where s: "s = e # t"
      using "2.prems" by (cases s) auto
    show ?thesis
    proof (cases "simple_escape e")
      case True
      with 3 s "2.prems" "2.IH"(2) [of e t] show ?thesis
        by (auto simp: apfst_Some less_Suc_eq)
    next
      case False
      with 3 s "2.prems" obtain h1 h2 h3 h4 t' b' where t: "t = h1 # h2 # h3 # h4 # t'"
          and hex: "e = CHR ''u''" "is_hex h1 \<and> is_hex h2 \<and> is_hex h3 \<and> is_hex h4"
          and lex: "lex_string t' = Some (b', r)"
        by (auto simp: apfst_Some split: if_splits list.splits)
      have "length r < length t'"
        using "2.IH"(3) [of e t h1 _ h2 _ h3 _ h4 t'] 3 s t hex lex False by simp
      with s t show ?thesis by simp
    qed
  qed
qed

lemma lex_digits_length: "lex_digits s = Some (b, r) \<Longrightarrow> length r < length s"
  by (cases s) (auto simp: lex_digits_def Let_def length_dropWhile_le less_Suc_eq_le split: if_splits)

lemma lex_int_length: "lex_int s = Some (b, r) \<Longrightarrow> length r < length s"
  by (cases s) (auto simp: lex_int_def has_prefix_def dest: lex_digits_length split: if_splits)

lemma lex_frac_length: "lex_frac s = Some (b, r) \<Longrightarrow> length r \<le> length s"
  by (cases s) (auto simp: lex_frac_def has_prefix_def dest: lex_digits_length split: if_splits)

lemma lex_exp_length: "lex_exp s = Some (b, r) \<Longrightarrow> length r \<le> length s"
  by (auto simp: lex_exp_def dest: lex_digits_length split: if_splits list.splits)

lemma lex_number_length:
  assumes "lex_number s = Some (b, r)"
  shows "length r < length s"
proof -
  let ?s = "if has_prefix ''-'' s then drop 1 s else s"
  obtain i f e s1 s2 where "lex_int ?s = Some (i, s1)" "lex_frac s1 = Some (f, s2)"
      "lex_exp s2 = Some (e, r)"
    using assms by (auto simp: lex_number_def Let_def split: if_splits bind_splits)
  moreover have "length ?s \<le> length s" by simp
  ultimately show ?thesis
    by (meson le_trans lex_exp_length lex_frac_length lex_int_length not_le)
qed

lemma has_prefix_drop_length: "has_prefix p s \<Longrightarrow> p \<noteq> [] \<Longrightarrow> length (drop (length p) s) < length s"
  by (auto simp: has_prefix_iff)

lemma skip_blanks_Cons_length: "skip_blanks s = c # r \<Longrightarrow> length r < length s"
  using skip_blanks_length [of s] by simp

lemma parse_length:
  "parse_value n d s = Some (j, r) \<Longrightarrow> length r < length s"
  "parse_elems n d s = Some (js, r) \<Longrightarrow> length r < length s"
  "parse_members n d s = Some (ms, r) \<Longrightarrow> length r < length s"
proof (induction n d s and n d s and n d s arbitrary: j r and js r and ms r
    rule: parse_value_parse_elems_parse_members.induct)
  case (2 n d s)
  then obtain c t where s: "skip_blanks s = c # t"
    by (auto split: list.splits)
  have t: "length t < length s" and b: "length (skip_blanks t) \<le> length t"
    using skip_blanks_Cons_length [OF s] skip_blanks_length by auto
  consider "c = CHR 0x22" | "c = CHR ''[''" | "c = CHR ''{''"
    | "c \<noteq> CHR 0x22" "c \<noteq> CHR ''[''" "c \<noteq> CHR ''{''"
    by blast
  then show ?case
  proof cases
    case 1
    with 2 s t show ?thesis
      by (auto simp: apfst_Some dest!: lex_string_length)
  next
    case 2
    with "2.prems" "2.IH"(1) [OF s] s t b show ?thesis
      by (fastforce simp: apfst_Some split: if_splits)
  next
    case 3
    with "2.prems" "2.IH"(2) [OF s] s t b show ?thesis
      by (fastforce simp: apfst_Some split: if_splits)
  next
    case 4
    with 2 s t show ?thesis
      by (auto simp: apfst_Some split: if_splits dest!: lex_number_length)
  qed
next
  case (4 n d s)
  then obtain j' s' c t where v: "parse_value n d s = Some (j', s')" and s': "skip_blanks s' = c # t"
    and res: "(if c = CHR '']'' then Some ([j'], t)
      else if c = CHR '','' then map_option (apfst ((#) j')) (parse_elems n d t) else None) = Some (js, r)"
    by (auto split: bind_splits list.splits)
  have "length t < length s'" "length s' < length s"
    using skip_blanks_Cons_length [OF s'] "4.IH"(1) [OF v] by auto
  with res "4.IH"(2) [OF v refl s'] show ?case
    by (fastforce simp: apfst_Some split: if_splits)
next
  case (6 n d s)
  then obtain t k s1 t1 j' s2 c t2 where s: "skip_blanks s = CHR 0x22 # t"
      and k: "lex_string t = Some (k, s1)" and s1: "skip_blanks s1 = CHR '':'' # t1"
      and v: "parse_value n d t1 = Some (j', s2)" and s2: "skip_blanks s2 = c # t2"
      and res: "(if c = CHR ''}'' then Some ([(k, j')], t2)
        else if c = CHR '','' then map_option (apfst ((#) (k, j'))) (parse_members n d t2)
        else None) = Some (ms, r)"
    by (auto split: bind_splits list.splits if_splits)
  have "length t < length s" "length s1 < length t" "length t1 < length s1" "length t2 < length s2"
    using skip_blanks_Cons_length s s1 s2 lex_string_length [OF k] by blast+
  moreover have "length s2 < length t1"
    using "6.IH"(1) [OF s _ k refl s1 _ v] by simp
  ultimately show ?case
    using res "6.IH"(2) [OF s _ k refl s1 _ v refl s2]
    by (fastforce simp: apfst_Some split: if_splits)
qed simp_all

section \<open>The fuel is enough\<close>

lemma parse_fuel_step:
  "2 * length s + 1 \<le> n \<Longrightarrow> parse_value (Suc n) d s = parse_value n d s"
  "2 * length s + 2 \<le> n \<Longrightarrow> parse_elems (Suc n) d s = parse_elems n d s"
  "2 * length s + 2 \<le> n \<Longrightarrow> parse_members (Suc n) d s = parse_members n d s"
proof (induction n arbitrary: d s)
  case 0
  { case 1 then show ?case by simp next
    case 2 then show ?case by simp next
    case 3 then show ?case by simp }
next
  case (Suc m)
  { case 1
    show ?case
    proof (cases "skip_blanks s")
      case Nil
      then show ?thesis by simp
    next
      case (Cons c r)
      then have "length r < length s" by (rule skip_blanks_Cons_length)
      with 1 have "2 * length r + 2 \<le> m" by simp
      then have "parse_elems (Suc m) (d - 1) r = parse_elems m (d - 1) r"
        and "parse_members (Suc m) (d - 1) r = parse_members m (d - 1) r"
        using Suc.IH(2,3) by blast+
      with Cons show ?thesis
        by (simp only: parse_value.simps(2) [of "Suc m" d s] parse_value.simps(2) [of m d s] list.case)
    qed
  next
    case 2
    then have v: "parse_value (Suc m) d s = parse_value m d s"
      by (intro Suc.IH(1)) simp
    have e: "parse_elems (Suc m) d r = parse_elems m d r"
      if "parse_value m d s = Some (j, s')" "skip_blanks s' = c # r" for j s' c r
    proof -
      have "length r < length s"
        using parse_length(1) [OF that(1)] skip_blanks_Cons_length [OF that(2)] by simp
      with 2 show ?thesis by (intro Suc.IH(2)) simp
    qed
    show ?case
      by (simp only: parse_elems.simps(2) [of "Suc m" d s] parse_elems.simps(2) [of m d s] v)
        (auto intro!: Option.bind_cong list.case_cong simp: e simp del: parse_elems.simps split: list.splits)
  next
    case 3
    have v: "parse_value (Suc m) d r = parse_value m d r"
      if "skip_blanks s = q # r0" "lex_string r0 = Some (k, s')" "skip_blanks s' = c # r" for q r0 k s' c r
    proof -
      have "length r < length s"
        using lex_string_length [OF that(2)] skip_blanks_Cons_length [OF that(1)]
          skip_blanks_Cons_length [OF that(3)] by simp
      with 3 show ?thesis by (intro Suc.IH(1)) simp
    qed
    have e: "parse_members (Suc m) d r' = parse_members m d r'"
      if "skip_blanks s = q # r0" "lex_string r0 = Some (k, s')" "skip_blanks s' = c # r"
        "parse_value m d r = Some (j, s2)" "skip_blanks s2 = c' # r'" for q r0 k s' c r j s2 c' r'
    proof -
      have "length r' < length s"
        using lex_string_length [OF that(2)] skip_blanks_Cons_length [OF that(1)]
          skip_blanks_Cons_length [OF that(3)] parse_length(1) [OF that(4)]
          skip_blanks_Cons_length [OF that(5)] by simp
      with 3 show ?thesis by (intro Suc.IH(3)) simp
    qed
    show ?case
      by (simp only: parse_members.simps(2) [of "Suc m" d s] parse_members.simps(2) [of m d s])
        (auto intro!: Option.bind_cong simp: v e simp del: parse_value.simps parse_members.simps
          split: list.splits)
  }
qed

lemma parse_value_fuel:
  assumes "2 * length s + 1 \<le> n"
  shows "parse_value n d s = parse_value (2 * length s + 1) d s"
  using assms
proof (induction n rule: dec_induct)
  case base
  then show ?case by simp
next
  case (step n)
  then show ?case by (simp add: parse_fuel_step(1) del: parse_value.simps)
qed

end
