(* ===== verification/Event_Decode.thy ===== *)
theory Event_Decode
  imports Event_Parser Go_Json_Text
begin

text \<open>
  \<open>Parse\<close> of \<open>internal/cdevents/parser.go\<close>: the bytes of a request into a CDEvent with its
  links normalized, by way of the JSON tree and the struct tags of the event types.
\<close>

section \<open>Struct tags\<close>

definition zero_context :: event_context where
  "zero_context =
     \<lparr>ctx_Version = [], ctx_ID = [], ctx_Source = [], ctx_Type = [], ctx_Timestamp = zero_time,
      ctx_ChainID = [], ctx_Links = []\<rparr>"

definition zero_subject :: event_subject where
  "zero_subject = \<lparr>subj_ID = [], subj_Source = [], subj_Type = [], subj_Content = None\<rparr>"

definition zero_event :: cdevent where
  "zero_event = \<lparr>Context = zero_context, Subject = zero_subject, CustomData = None, Links = []\<rparr>"

definition context_fields :: "(string \<times> event_context decoder) list" where
  "context_fields =
     [(''version'', field decode_string ctx_Version ctx_Version_update),
      (''id'', field decode_string ctx_ID ctx_ID_update),
      (''source'', field decode_string ctx_Source ctx_Source_update),
      (''type'', field decode_string ctx_Type ctx_Type_update),
      (''timestamp'', field decode_time ctx_Timestamp ctx_Timestamp_update),
      (''chainId'', field decode_string ctx_ChainID ctx_ChainID_update),
      (''links'', field (decode_slice UnmarshalLink) ctx_Links ctx_Links_update)]"

definition subject_fields :: "(string \<times> event_subject decoder) list" where
  "subject_fields =
     [(''id'', field decode_string subj_ID subj_ID_update),
      (''source'', field decode_string subj_Source subj_Source_update),
      (''type'', field decode_string subj_Type subj_Type_update),
      (''content'', field decode_map subj_Content subj_Content_update)]"

definition event_fields :: "(string \<times> cdevent decoder) list" where
  "event_fields =
     [(''context'', field (decode_struct context_fields) Context Context_update),
      (''subject'', field (decode_struct subject_fields) Subject Subject_update),
      (''customData'', field decode_map CustomData CustomData_update),
      (''links'', field (decode_slice UnmarshalLink) Links Links_update)]"

section \<open>Parse\<close>

definition decode_event :: "json \<Rightarrow> cdevent result" where
  "decode_event j = decode_struct event_fields j zero_event"

definition unmarshal_event :: "string \<Rightarrow> cdevent result" where
  "unmarshal_event data =
     (case parse_json data of
        None \<Rightarrow> Inl (ErrLib ''json: syntax error'')
      | Some j \<Rightarrow> decode_event j)"

definition Parse :: "string \<Rightarrow> cdevent result" where
  "Parse data =
     (case unmarshal_event data of
        Inl err \<Rightarrow> Inl (ErrWrap ''failed to unmarshal CDEvent: '' err [])
      | Inr event \<Rightarrow>
          (case NormalizeLinks (Some event) of
             Some event' \<Rightarrow> Inr event'
           | None \<Rightarrow> Inr event))"

section \<open>What every parsed event satisfies\<close>

definition anymap_ok :: "anymap \<Rightarrow> bool" where
  "anymap_ok m \<longleftrightarrow> (case m of None \<Rightarrow> True | Some al \<Rightarrow> gomap_ok al)"

definition event_maps_ok :: "cdevent \<Rightarrow> bool" where
  "event_maps_ok e \<longleftrightarrow> anymap_ok (subj_Content (Subject e)) \<and> anymap_ok (CustomData e)"

lemma decode_map_ok: "decode_map j old = Inr m \<Longrightarrow> anymap_ok old \<Longrightarrow> anymap_ok m"
  by (auto simp: decode_map_def anymap_ok_def bind_result_Inr type_error_def
      dest: to_members_ok split: json.splits option.splits)

lemma decode_struct_inv:
  assumes "decode_struct fs j r = Inr r'" and "P r"
    and "\<And>tag d j s s'. (tag, d) \<in> set fs \<Longrightarrow> P s \<Longrightarrow> d j s = Inr s' \<Longrightarrow> P s'"
  shows "P r'"
  using assms(1,2) decode_members_inv [OF _ _ assms(3)]
  by (auto simp: decode_struct_def type_error_def split: json.splits)

lemma decode_subject_ok:
  assumes "decode_struct subject_fields j s = Inr s'" and "anymap_ok (subj_Content s)"
  shows "anymap_ok (subj_Content s')"
  using assms
  by (rule decode_struct_inv [where P = "\<lambda>s. anymap_ok (subj_Content s)"])
    (auto simp: subject_fields_def field_def bind_result_Inr, metis decode_map_ok)

lemma decode_event_ok:
  assumes "decode_event j = Inr e"
  shows "event_maps_ok e"
proof -
  have "event_maps_ok zero_event"
    by (simp add: event_maps_ok_def zero_event_def zero_subject_def anymap_ok_def)
  with assms[unfolded decode_event_def] show ?thesis
    by (rule decode_struct_inv)
      (auto simp: event_fields_def field_def bind_result_Inr event_maps_ok_def,
        (metis decode_map_ok decode_subject_ok)+)
qed

lemma Parse_Inr:
  "Parse data = Inr e \<longleftrightarrow>
     (\<exists>j e0. parse_json data = Some j \<and> decode_event j = Inr e0 \<and> NormalizeLinks (Some e0) = Some e)"
  by (auto simp: Parse_def unmarshal_event_def NormalizeLinks_def Let_def
      split: sum.splits option.splits)

text \<open>
  C7. Every event \<open>Parse\<close> returns is canonical: its links all sit in the context, none lacks a
  target, no two share type and target, normalizing it again changes nothing, and its two
  dynamic maps have one entry per key.
\<close>

theorem Parse_canonical:
  assumes "Parse data = Inr e"
  shows "Links e = [] \<and> (\<forall>l \<in> set (ctx_Links (Context e)). LinkID l \<noteq> []) \<and>
    distinct (ctx_Links (Context e)) \<and> NormalizeLinks (Some e) = Some e \<and> event_maps_ok e"
proof -
  from assms obtain j e0 where e0: "decode_event j = Inr e0" and e: "NormalizeLinks (Some e0) = Some e"
    by (auto simp: Parse_Inr)
  let ?ls = "ctx_Links (Context e0) @ Links e0"
  have "event_maps_ok e"
    using decode_event_ok [OF e0] e by (auto simp: NormalizeLinks_def event_maps_ok_def)
  moreover have "distinct (merge_links ?ls)"
    using merge_links_distinct [of ?ls] by (simp add: distinct_map)
  moreover have "NormalizeLinks (Some e) = Some e"
    using e by (auto simp: NormalizeLinks_def merge_links_idem)
  ultimately show ?thesis
    using e merge_links_targets [of _ ?ls] by (auto simp: NormalizeLinks_def)
qed

text \<open>A request body with a link given twice at the top level.\<close>

definition sample_body :: string where
  "sample_body =
     ''{\"links\":[{\"type\":\"C\",\"target\":\"m\"},{\"type\":\"C\",\"target\":\"m\"}]}''"

theorem Parse_canonical_witness:
  "\<exists>e. Parse sample_body = Inr e \<and> Links e = [] \<and>
     ctx_Links (Context e) = [\<lparr>LinkType = ''C'', LinkID = ''m''\<rparr>] \<and> event_maps_ok e"
proof -
  have "case Parse sample_body of Inl _ \<Rightarrow> False
     | Inr e \<Rightarrow> ctx_Links (Context e) = [\<lparr>LinkType = ''C'', LinkID = ''m''\<rparr>]"
    by code_simp
  then obtain e where "Parse sample_body = Inr e"
    and "ctx_Links (Context e) = [\<lparr>LinkType = ''C'', LinkID = ''m''\<rparr>]"
    by (auto split: sum.splits)
  with Parse_canonical [OF this(1)] show ?thesis
    by blast
qed

text \<open>
  The three link shapes producers send decode to the same link; a CDEvents-native link
  takes its type from \<open>linkKind\<close>, and from \<open>linkType\<close> when there is none.
\<close>

theorem link_shapes:
  assumes "t \<noteq> []" and "i \<noteq> []" and "unquote t = t" and "unquote i = i"
  shows "UnmarshalLink (JObj [(''linkType'', JStr t), (''linkId'', JStr i)]) =
      Inr \<lparr>LinkType = t, LinkID = i\<rparr> \<and>
    UnmarshalLink (JObj [(''type'', JStr t), (''target'', JStr i)]) =
      Inr \<lparr>LinkType = t, LinkID = i\<rparr> \<and>
    UnmarshalLink (JObj [(''linkType'', JStr r), (''linkKind'', JStr t),
        (''from'', JObj [(''contextId'', JStr i)])]) =
      Inr \<lparr>LinkType = t, LinkID = i\<rparr> \<and>
    UnmarshalLink (JObj [(''linkType'', JStr t), (''from'', JObj [(''contextId'', JStr i)])]) =
      Inr \<lparr>LinkType = t, LinkID = i\<rparr>"
proof -
  have tags: "find_field (unquote ''linkType'') raw_link_fields = Some (field decode_string raw_LinkType raw_LinkType_update)"
    "find_field (unquote ''linkId'') raw_link_fields = Some (field decode_string raw_LinkID raw_LinkID_update)"
    "find_field (unquote ''linkKind'') raw_link_fields = Some (field decode_string raw_LinkKind raw_LinkKind_update)"
    "find_field (unquote ''type'') raw_link_fields = Some (field decode_string raw_Type raw_Type_update)"
    "find_field (unquote ''target'') raw_link_fields = Some (field decode_string raw_Target raw_Target_update)"
    "find_field (unquote ''from'') raw_link_fields = Some (decode_struct
       [(''contextId'', field decode_string raw_From_ContextID raw_From_ContextID_update)])"
    "find_field (unquote ''contextId'') [(''contextId'', d)] = Some d" for d :: "raw_link decoder"
    by (simp_all add: raw_link_fields_def utf8_head_def between_def upper_def has_prefix_def)
  show ?thesis
    using assms
    by (simp add: UnmarshalLink_def decode_struct_def tags field_def decode_string_def
        zero_raw_link_def link_of_raw_def del: unquote.simps find_field.simps)
qed

theorem link_shapes_witness:
  "UnmarshalLink (JObj [(''type'', JStr ''CAUSE''), (''target'', JStr ''m1'')]) =
     Inr \<lparr>LinkType = ''CAUSE'', LinkID = ''m1''\<rparr>"
proof -
  have "unquote ''CAUSE'' = ''CAUSE''" "unquote ''m1'' = ''m1''"
    by code_simp+
  with link_shapes [of "''CAUSE''" "''m1''"] show ?thesis
    by simp
qed

end
