(* ===== verification/Metrics.thy ===== *)
theory Metrics
  imports Prelude
begin

text \<open>
  The counters of \<open>internal/metrics/metrics.go\<close>. A Prometheus counter vector is a Go map from the
  label value to the number of increments; the histogram keeps its observations, from which its
  buckets, sum and count are computed on export. The registry and its two standard collectors
  belong to the library.
\<close>

record metrics =
  received :: "(string, nat) gomap"
  rejected :: "(string, nat) gomap"
  durations :: "int list"

definition New_metrics :: metrics where
  "New_metrics = \<lparr>received = [], rejected = [], durations = []\<rparr>"

definition count_of :: "(string, nat) gomap \<Rightarrow> string \<Rightarrow> nat" where
  "count_of c label = (case map_of c label of None \<Rightarrow> 0 | Some n \<Rightarrow> n)"

definition inc_label :: "string \<Rightarrow> (string, nat) gomap \<Rightarrow> (string, nat) gomap" where
  "inc_label label c = AList.update label (Suc (count_of c label)) c"

definition EventReceived :: "string \<Rightarrow> metrics \<Rightarrow> metrics" where
  "EventReceived eventType m = m\<lparr>received := inc_label eventType (received m)\<rparr>"

definition EventRejected :: "string \<Rightarrow> metrics \<Rightarrow> metrics" where
  "EventRejected reason m = m\<lparr>rejected := inc_label reason (rejected m)\<rparr>"

definition ObserveProcessing :: "int \<Rightarrow> metrics \<Rightarrow> metrics" where
  "ObserveProcessing d m = m\<lparr>durations := durations m @ [d]\<rparr>"

text \<open>The sum over all labels, as a query over the exported series adds them.\<close>

definition total :: "(string, nat) gomap \<Rightarrow> nat" where
  "total c = sum_list (map snd c)"

lemma count_inc: "count_of (inc_label l c) k = (if k = l then Suc (count_of c k) else count_of c k)"
  by (simp add: inc_label_def count_of_def)

lemma total_update:
  "total (AList.update l n c) + (case map_of c l of None \<Rightarrow> 0 | Some k \<Rightarrow> k) = total c + n"
  if "gomap_ok c"
  using that
proof (induction c)
  case (Cons p c)
  have *: "map_of c (fst p) = None" using Cons.prems by (auto simp: gomap_ok_def map_of_eq_None_iff)
  from Cons have "total (AList.update l n c) + (case map_of c l of None \<Rightarrow> 0 | Some k \<Rightarrow> k) = total c + n"
    by (simp add: gomap_ok_def)
  with * show ?case by (cases p) (auto simp: total_def)
qed (simp add: total_def)

lemma total_inc: "gomap_ok c \<Longrightarrow> total (inc_label l c) = Suc (total c)"
  using total_update [of c l "Suc (count_of c l)"]
  by (auto simp: inc_label_def count_of_def split: option.splits)

lemma inc_ok [simp]: "gomap_ok c \<Longrightarrow> gomap_ok (inc_label l c)"
  by (simp add: inc_label_def)

definition metrics_ok :: "metrics \<Rightarrow> bool" where
  "metrics_ok m \<longleftrightarrow> gomap_ok (received m) \<and> gomap_ok (rejected m) \<and>
     total (received m) = length (durations m)"

lemma metrics_ok_new: "metrics_ok New_metrics"
  by (simp add: metrics_ok_def New_metrics_def total_def)

end
