(* ===== verification/Go_Json_Encode.thy ===== *)
theory Go_Json_Encode
  imports Go_Json_Text
begin

text \<open>
  The encoding half of \<open>encoding/json\<close>: string literals with the escapes of \<open>appendString\<close>, instants
  in the strict RFC 3339 form with their fraction, and syntax trees as text without blanks. The
  lexer and the grammar of \<open>Go_Json_Text\<close> read back what is written here.
\<close>

section \<open>String literals\<close>

definition hex_digit :: "nat \<Rightarrow> char" where
  "hex_digit k = (if k < 10 then char_of (48 + k) else char_of (87 + k))"

definition html_safe :: "char \<Rightarrow> bool" where
  "html_safe c \<longleftrightarrow> between 0x20 0x7F c \<and>
     c \<notin> set [CHR 0x22, CHR 0x5C, CHR ''<'', CHR ''>'', CHR ''&'']"

definition escape_ascii :: "char \<Rightarrow> string" where
  "escape_ascii c =
     (if c = CHR 0x5C \<or> c = CHR 0x22 then [CHR 0x5C, c]
      else if c = CHR 0x08 then [CHR 0x5C, CHR ''b'']
      else if c = CHR 0x0C then [CHR 0x5C, CHR ''f'']
      else if c = CHR 0x0A then [CHR 0x5C, CHR ''n'']
      else if c = CHR 0x0D then [CHR 0x5C, CHR ''r'']
      else if c = CHR 0x09 then [CHR 0x5C, CHR ''t'']
      else [CHR 0x5C, CHR ''u'', CHR ''0'', CHR ''0'',
            hex_digit (of_char c div 16), hex_digit (of_char c mod 16)])"

text \<open>The line and the paragraph separator, which JavaScript takes for line ends.\<close>

definition line_separator :: "string \<Rightarrow> bool" where
  "line_separator s \<longleftrightarrow> has_prefix [CHR 0xE2, CHR 0x80, CHR 0xA8] s \<or> has_prefix [CHR 0xE2, CHR 0x80, CHR 0xA9] s"

fun quote :: "string \<Rightarrow> string" where
  "quote [] = []"
| "quote (c # s) =
     (if between 0 0x7F c then (if html_safe c then [c] else escape_ascii c) @ quote s
      else if utf8_head (c # s) = 0 then CHR 0x5C # ''ufffd'' @ quote s
      else if line_separator (c # s) then
        CHR 0x5C # ''u202'' @ [hex_digit (of_char (s ! 1) mod 16)] @ quote (drop (utf8_head (c # s) - 1) s)
      else take (utf8_head (c # s)) (c # s) @ quote (drop (utf8_head (c # s) - 1) s))"

text \<open>What reading a text rune by rune makes of it: a byte that starts no rune is replaced.\<close>

fun to_valid :: "string \<Rightarrow> string" where
  "to_valid [] = []"
| "to_valid (c # s) =
     (if utf8_head (c # s) = 0 then replacement @ to_valid s
      else take (utf8_head (c # s)) (c # s) @ to_valid (drop (utf8_head (c # s) - 1) s))"

definition valid_utf8 :: "string \<Rightarrow> bool" where
  "valid_utf8 s \<longleftrightarrow> to_valid s = s"

lemma between_char: "between lo hi c \<longleftrightarrow> lo \<le> (of_char c :: nat) \<and> of_char c \<le> hi"
  by (simp add: between_def)

lemma utf8_head_stable:
  assumes "utf8_head x = n" and "0 < n"
  shows "n \<le> length x \<and> utf8_head (take n x @ y) = n"
proof -
  obtain c r where x: "x = c # r" using assms by (cases x) (auto simp: utf8_head_def)
  have n: "n = 1 \<or> n = 2 \<or> n = 3 \<or> n = 4"
    using assms by (auto simp: x utf8_head_def Let_def split: if_splits)
  consider "r = []" | a where "r = [a]" | a b where "r = [a, b]" | a b d s where "r = a # b # d # s"
    by (metis list.exhaust)
  then show ?thesis
    using assms n unfolding x
    by cases (auto simp: utf8_head_def Let_def numeral_2_eq_2 numeral_3_eq_3 split: if_splits)
qed

lemma utf8_head_shape:
  assumes "utf8_head (c # s) = n" and "\<not> between 0 0x7F c"
  shows "n = 0 \<or> (n = 2 \<and> (\<exists>a r. s = a # r \<and> between 0x80 0xBF a)) \<or>
    (n = 3 \<and> (\<exists>a b r. s = a # b # r \<and> between 0x80 0xBF a \<and> between 0x80 0xBF b)) \<or>
    (n = 4 \<and> (\<exists>a b d r. s = a # b # d # r \<and> between 0x80 0xBF a \<and> between 0x80 0xBF b \<and> between 0x80 0xBF d))"
proof -
  have sub: "between 0xA0 0xBF a \<Longrightarrow> between 0x80 0xBF a" "between 0x80 0x9F a \<Longrightarrow> between 0x80 0xBF a"
    "between 0x90 0xBF a \<Longrightarrow> between 0x80 0xBF a" "between 0x80 0x8F a \<Longrightarrow> between 0x80 0xBF a" for a
    by (auto simp: between_def)
  consider "s = []" | a where "s = [a]" | a b where "s = [a, b]" | a b d r where "s = a # b # d # r"
    by (metis list.exhaust)
  then show ?thesis
    using assms
    by cases (simp_all add: utf8_head_def Let_def numeral_2_eq_2 numeral_3_eq_3 split: if_splits,
      (blast intro: sub)+)
qed

lemma utf8_head_high:
  assumes "utf8_head (c # s) = n" and "\<not> between 0 0x7F c"
  shows "\<forall>b \<in> set (take n (c # s)). 0x80 \<le> (of_char b :: nat)"
  using utf8_head_shape [OF assms] assms(2) by (auto simp: between_def)

lemma unquote_rune:
  assumes "utf8_head x = n" and "0 < n" and "hd x \<noteq> CHR 0x5C"
  shows "unquote (take n x @ y) = take n x @ unquote y"
proof -
  obtain c r where x: "x = c # r" using assms(1,2) by (cases x) (auto simp: utf8_head_def)
  have st: "n \<le> length x" "utf8_head (take n x @ y) = n"
    using utf8_head_stable [OF assms(1,2), of y] by auto
  obtain m where m: "n = Suc m" using assms(2) by (cases n) auto
  have "take n x @ y = c # take m r @ y" by (simp add: x m)
  with st assms(3) show ?thesis
    by (simp add: x m del: take_Suc_Cons) (simp add: x m)
qed

lemma hex_val_digit: "k < 16 \<Longrightarrow> hex_val (hex_digit k) = Some k"
  by (auto simp: hex_val_def hex_digit_def between_def)

lemma line_separator_head:
  assumes "line_separator s"
  obtains k r where "k = 8 \<or> k = 9" and "s = CHR 0xE2 # CHR 0x80 # char_of (160 + k :: nat) # r"
    and "utf8_head s = 3"
proof -
  obtain k r where k: "k = 8 \<or> k = (9 :: nat)" "s = CHR 0xE2 # CHR 0x80 # char_of (160 + k) # r"
  proof -
    obtain r where "s = [CHR 0xE2, CHR 0x80, CHR 0xA8] @ r \<or> s = [CHR 0xE2, CHR 0x80, CHR 0xA9] @ r"
      using assms unfolding line_separator_def has_prefix_iff by blast
    moreover have "CHR 0xA8 = char_of (168 :: nat)" "CHR 0xA9 = char_of (169 :: nat)" by code_simp+
    ultimately show ?thesis using that [of 8 r] that [of 9 r] by auto
  qed
  moreover from k have "utf8_head s = 3" by (auto simp: utf8_head_def between_def)
  ultimately show ?thesis by (rule that)
qed

lemma hex_val_lits [simp]: "hex_val (CHR ''0'') = Some 0" "hex_val (CHR ''2'') = Some 2"
  "hex_val (CHR ''f'') = Some 15" "hex_val (CHR ''d'') = Some 13"
  by (simp_all add: hex_val_def between_def)

lemma char_lits: "char_of (239 :: nat) = CHR 0xEF" "char_of (191 :: nat) = CHR 0xBF"
  "char_of (189 :: nat) = CHR 0xBD"
  "char_of (226 :: nat) = CHR 0xE2" "char_of (128 :: nat) = CHR 0x80"
  by code_simp+

lemma unquote_u:
  assumes "getu4 h = Some v" and "v < 0xD800 \<or> 0xE000 \<le> v" and "length h = 4"
  shows "unquote (CHR 0x5C # CHR ''u'' # h @ y) = encode_rune v @ unquote y"
proof -
  obtain a b c d where h: "h = [a, b, c, d]"
    using assms(3) by (auto simp: length_Suc_conv numeral_eq_Suc)
  have "unescape (CHR ''u'' # h @ y) = (encode_rune v, 5)"
    using assms by (simp add: unescape_def unescape_u_def h getu4_def)
  then show ?thesis by (simp add: h)
qed

lemma unquote_escape: "unquote (escape_ascii c @ y) = c # unquote y"
  if "between 0 0x7F c" "\<not> html_safe c"
proof -
  let ?n = "of_char c :: nat"
  consider (short) "c \<in> {CHR 0x5C, CHR 0x22, CHR 0x08, CHR 0x0C, CHR 0x0A, CHR 0x0D, CHR 0x09}"
    | (long) "c \<notin> {CHR 0x5C, CHR 0x22, CHR 0x08, CHR 0x0C, CHR 0x0A, CHR 0x0D, CHR 0x09}"
    by blast
  then show ?thesis
  proof cases
    case short
    then show ?thesis by (auto simp: escape_ascii_def unescape_def)
  next
    case long
    have n: "?n < 128" using that by (simp add: between_def)
    then have "?n div 16 < 16" "?n mod 16 < 16" by auto
    moreover have "?n div 16 * 16 + ?n mod 16 = ?n" by simp
    ultimately have "getu4 [CHR ''0'', CHR ''0'', hex_digit (?n div 16), hex_digit (?n mod 16)] = Some ?n"
      by (simp add: getu4_def hex_val_digit)
    moreover have "encode_rune ?n = [c]" using n by (simp add: encode_rune_def byte_def)
    ultimately show ?thesis
      using long n unquote_u [of "[CHR ''0'', CHR ''0'', hex_digit (?n div 16), hex_digit (?n mod 16)]" ?n y]
      by (simp add: escape_ascii_def)
  qed
qed

text \<open>A literal that is written is read back, its invalid bytes replaced.\<close>

lemma unquote_quote: "unquote (quote s) = to_valid s"
proof (induction s rule: quote.induct)
  case 1
  show ?case by simp
next
  case (2 c s)
  consider (safe) "between 0 0x7F c" "html_safe c" | (escaped) "between 0 0x7F c" "\<not> html_safe c"
    | (bad) "\<not> between 0 0x7F c" "utf8_head (c # s) = 0"
    | (line) "\<not> between 0 0x7F c" "utf8_head (c # s) \<noteq> 0" "line_separator (c # s)"
    | (rune) "\<not> between 0 0x7F c" "utf8_head (c # s) \<noteq> 0" "\<not> line_separator (c # s)"
    by blast
  then show ?case
  proof cases
    case safe
    then have "c \<noteq> CHR 0x5C" by (auto simp: html_safe_def)
    with safe 2(1) show ?thesis by (simp add: utf8_head_ascii)
  next
    case escaped
    with 2(1) show ?thesis by (simp add: unquote_escape utf8_head_ascii)
  next
    case bad
    have "unquote (CHR 0x5C # CHR ''u'' # ''fffd'' @ quote s) = encode_rune 0xFFFD @ unquote (quote s)"
      by (rule unquote_u) (simp_all add: getu4_def)
    moreover have "encode_rune 0xFFFD = replacement"
      by (simp add: encode_rune_def byte_def replacement_def char_lits)
    ultimately show ?thesis
      using bad 2(2) by simp
  next
    case line
    from line(3) obtain k r where k: "k = 8 \<or> k = 9" and "c # s = CHR 0xE2 # CHR 0x80 # char_of (160 + k :: nat) # r"
      and h: "utf8_head (c # s) = 3"
      by (rule line_separator_head)
    then have cs: "c = CHR 0xE2" "s = CHR 0x80 # char_of (160 + k) # r" by auto
    have "(of_char (s ! 1) :: nat) mod 16 = k" using k by (auto simp: cs)
    moreover have "unquote (CHR 0x5C # CHR ''u'' # [CHR ''2'', CHR ''0'', CHR ''2'', hex_digit k] @ quote r) =
        encode_rune (0x2020 + k) @ unquote (quote r)"
      by (rule unquote_u) (use k in \<open>auto simp: getu4_def hex_val_digit\<close>)
    moreover have "encode_rune (0x2020 + k) = [CHR 0xE2, CHR 0x80, char_of (160 + k)]"
      using k by (auto simp: encode_rune_def byte_def char_lits)
    moreover have "(160 + k) mod 16 = k" using k by auto
    ultimately show ?thesis
      using line 2(3) h by (simp add: cs)
  next
    case rune
    let ?n = "utf8_head (c # s)"
    have "c \<noteq> CHR 0x5C" using rune by (auto simp: between_def)
    then have "unquote (take ?n (c # s) @ quote (drop (?n - 1) s)) =
        take ?n (c # s) @ unquote (quote (drop (?n - 1) s))"
      using rune by (intro unquote_rune) simp_all
    with rune 2(4) show ?thesis by simp
  qed
qed

declare lex_string.simps(2) [simp del]

text \<open>The lexer reads a written literal up to its closing quote.\<close>

lemma lex_plain:
  "\<forall>b \<in> set w. 0x20 \<le> (of_char b :: nat) \<and> b \<noteq> CHR 0x22 \<and> b \<noteq> CHR 0x5C \<Longrightarrow>
     lex_string (w @ x) = map_option (apfst ((@) w)) (lex_string x)"
proof (induction w)
  case Nil
  show ?case by (cases "lex_string x") auto
next
  case (Cons b w)
  then have b: "b \<noteq> CHR 0x22" "\<not> (of_char b :: nat) < 0x20" "b \<noteq> CHR 0x5C" by auto
  have "lex_string (b # w @ x) = map_option (apfst ((#) b)) (lex_string (w @ x))"
    using b by (simp only: lex_string.simps(2) if_False not_False_eq_True if_True)
  moreover have "lex_string (w @ x) = map_option (apfst ((@) w)) (lex_string x)"
    by (rule Cons.IH) (use Cons.prems in simp)
  ultimately show ?case by (cases "lex_string x") (simp_all add: prod_eq_iff)
qed

lemma lex_high:
  assumes "\<forall>b \<in> set w. 0x80 \<le> (of_char b :: nat)"
  shows "lex_string (w @ x) = map_option (apfst ((@) w)) (lex_string x)"
  by (rule lex_plain) (use assms in fastforce)

lemma is_hex_digit [simp]: "k < 16 \<Longrightarrow> is_hex (hex_digit k)"
  by (simp add: is_hex_def hex_val_digit)

lemma is_hex_lits [simp]: "is_hex (CHR ''0'')" "is_hex (CHR ''2'')" "is_hex (CHR ''f'')" "is_hex (CHR ''d'')"
  by (simp_all add: is_hex_def)

lemma lex_u:
  assumes "is_hex a" "is_hex b" "is_hex c" "is_hex d"
  shows "lex_string (CHR 0x5C # CHR ''u'' # a # b # c # d # x) =
    map_option (apfst (\<lambda>w. CHR 0x5C # CHR ''u'' # a # b # c # d # w)) (lex_string x)"
  using assms by (subst lex_string.simps(2)) (simp add: simple_escape_def)

lemma lex_escape:
  assumes "between 0 0x7F c"
  shows "lex_string (escape_ascii c @ x) = map_option (apfst ((@) (escape_ascii c))) (lex_string x)"
proof -
  have "(of_char c :: nat) < 128" using assms by (simp add: between_def)
  then have "(of_char c :: nat) div 16 < 16" "(of_char c :: nat) mod 16 < 16" by auto
  note n = this
  show ?thesis
  proof (cases "c \<in> {CHR 0x5C, CHR 0x22, CHR 0x08, CHR 0x0C, CHR 0x0A, CHR 0x0D, CHR 0x09}")
    case True
    then obtain e where e: "escape_ascii c = [CHR 0x5C, e]" "simple_escape e"
      by (auto simp: escape_ascii_def simple_escape_def)
    then have "lex_string (CHR 0x5C # e # x) = map_option (apfst (\<lambda>b. CHR 0x5C # e # b)) (lex_string x)"
      by (subst lex_string.simps(2)) simp
    moreover have "(@) [CHR 0x5C, e] = (\<lambda>b. CHR 0x5C # e # b)" by (simp add: fun_eq_iff)
    ultimately show ?thesis using e by simp
  next
    case False
    with n show ?thesis
      by (cases "lex_string x") (simp_all add: escape_ascii_def lex_u)
  qed
qed

definition literal_ok :: "string \<Rightarrow> bool" where
  "literal_ok w \<longleftrightarrow> (\<forall>r. lex_string (w @ CHR 0x22 # r) = Some (w, r))"

lemma lex_quote: "literal_ok (quote s)"
  unfolding literal_ok_def
proof (induction s rule: quote.induct)
  case 1
  show ?case by (simp add: lex_string.simps(2))
next
  case (2 c s)
  consider (safe) "between 0 0x7F c" "html_safe c" | (escaped) "between 0 0x7F c" "\<not> html_safe c"
    | (bad) "\<not> between 0 0x7F c" "utf8_head (c # s) = 0"
    | (line) "\<not> between 0 0x7F c" "utf8_head (c # s) \<noteq> 0" "line_separator (c # s)"
    | (rune) "\<not> between 0 0x7F c" "utf8_head (c # s) \<noteq> 0" "\<not> line_separator (c # s)"
    by blast
  then show ?case
  proof cases
    case safe
    then have "\<forall>b \<in> set [c]. 0x20 \<le> (of_char b :: nat) \<and> b \<noteq> CHR 0x22 \<and> b \<noteq> CHR 0x5C"
      by (auto simp: html_safe_def between_def)
    from lex_plain [OF this] safe 2(1) show ?thesis by simp
  next
    case escaped
    with 2(1) show ?thesis by (simp add: lex_escape)
  next
    case bad
    with 2(2) show ?thesis by (simp add: lex_u)
  next
    case line
    then have "(of_char (s ! 1) :: nat) mod 16 < 16" by simp
    with line 2(3) show ?thesis by (simp add: lex_u)
  next
    case rune
    with 2(4) lex_high [OF utf8_head_high [OF refl rune(1)]] show ?thesis
      by simp
  qed
qed

section \<open>Documents\<close>

fun print_json :: "json \<Rightarrow> string"
  and print_elems :: "json list \<Rightarrow> string"
  and print_members :: "(string \<times> json) list \<Rightarrow> string"
where
  "print_json JNull = ''null''"
| "print_json (JBool b) = (if b then ''true'' else ''false'')"
| "print_json (JNum n) = n"
| "print_json (JStr s) = CHR 0x22 # s @ [CHR 0x22]"
| "print_json (JArr []) = ''[]''"
| "print_json (JArr (j # js)) = CHR ''['' # print_json j @ print_elems js"
| "print_json (JObj []) = ''{}''"
| "print_json (JObj ((k, j) # ms)) =
     CHR ''{'' # CHR 0x22 # k @ CHR 0x22 # CHR '':'' # print_json j @ print_members ms"
| "print_elems [] = '']''"
| "print_elems (j # js) = CHR '','' # print_json j @ print_elems js"
| "print_members [] = ''}''"
| "print_members ((k, j) # ms) =
     CHR '','' # CHR 0x22 # k @ CHR 0x22 # CHR '':'' # print_json j @ print_members ms"

text \<open>The trees the encoder builds: literals the lexer reads, and a bounded depth.\<close>

fun json_ok :: "nat \<Rightarrow> json \<Rightarrow> bool" where
  "json_ok d (JNum n) = (lex_number n = Some (n, []))"
| "json_ok d (JStr s) = literal_ok s"
| "json_ok d (JArr js) = (0 < d \<and> (\<forall>j \<in> set js. json_ok (d - 1) j))"
| "json_ok d (JObj ms) = (0 < d \<and> (\<forall>p \<in> set ms. literal_ok (fst p) \<and> json_ok (d - 1) (snd p)))"
| "json_ok d j = True"

text \<open>A value ends where the document ends or a separator follows.\<close>

definition delim :: "string \<Rightarrow> bool" where
  "delim r \<longleftrightarrow> r = [] \<or> hd r \<in> set [CHR '','', CHR '']'', CHR ''}'']"

lemma takeWhile_stop: "r = [] \<or> \<not> P (hd r) \<Longrightarrow> takeWhile P (xs @ r) = takeWhile P xs"
  by (induction xs) (cases r, auto)

lemma dropWhile_stop: "r = [] \<or> \<not> P (hd r) \<Longrightarrow> dropWhile P (xs @ r) = dropWhile P xs @ r"
  by (induction xs) (cases r, auto)

lemma delim_digit: "delim r \<Longrightarrow> r = [] \<or> \<not> is_digit (hd r)"
  by (auto simp: delim_def is_digit_def)

lemma lex_digits_delim: "delim r \<Longrightarrow> lex_digits (s @ r) = map_option (apsnd (\<lambda>x. x @ r)) (lex_digits s)"
  by (simp add: lex_digits_def Let_def takeWhile_stop dropWhile_stop delim_digit)

lemma has_prefix1: "has_prefix [c] s \<longleftrightarrow> s \<noteq> [] \<and> hd s = c"
  by (cases s) (auto simp: has_prefix_def)

lemma lex_int_delim:
  "delim r \<Longrightarrow> s \<noteq> [] \<Longrightarrow> lex_int (s @ r) = map_option (apsnd (\<lambda>x. x @ r)) (lex_int s)"
  by (cases s) (simp_all add: lex_int_def lex_digits_delim has_prefix1 flip: append_Cons)

lemma delim_not: "delim r \<Longrightarrow> r \<noteq> [] \<Longrightarrow> hd r \<noteq> CHR ''.'' \<and> hd r \<noteq> CHR ''e'' \<and> hd r \<noteq> CHR ''E''"
  by (auto simp: delim_def)

lemma map_option_apsnd_apfst:
  "map_option (apsnd f) (map_option (apfst g) x) = map_option (apfst g) (map_option (apsnd f) x)"
  by (cases x) auto

lemma map_option_apsnd_id [simp]: "map_option (apsnd (\<lambda>x. x)) z = z"
  by (cases z) auto

lemma lex_frac_delim: "delim r \<Longrightarrow> lex_frac (s @ r) = map_option (apsnd (\<lambda>x. x @ r)) (lex_frac s)"
  using delim_not [of r]
  by (cases s; cases r) (auto simp: lex_frac_def has_prefix1 lex_digits_delim map_option_apsnd_apfst
      simp flip: append_Cons)

lemma lex_exp_delim:
  "delim r \<Longrightarrow> lex_exp s = Some (e, []) \<Longrightarrow> lex_exp (s @ r) = Some (e, r)"
  using delim_not [of r] lex_digits_delim [of r] lex_digits_delim [of r "c # s" for c s, unfolded append_Cons]
  by (cases s; cases r) (auto simp: lex_exp_def split: if_splits list.splits)

lemma lex_number_delim:
  assumes "lex_number n = Some (n, [])" and "delim r"
  shows "lex_number (n @ r) = Some (n, r)"
proof -
  let ?s = "if has_prefix ''-'' n then drop 1 n else n"
  let ?sign = "if has_prefix ''-'' n then ''-'' else []"
  from assms(1) obtain i f e s1 s2 where l: "lex_int ?s = Some (i, s1)" "lex_frac s1 = Some (f, s2)"
      "lex_exp s2 = Some (e, [])" "n = ?sign @ i @ f @ e"
    by (auto simp: lex_number_def Let_def split: if_splits bind_splits)
  have "?s \<noteq> []" using l(1) by (auto simp: lex_int_def has_prefix1 lex_digits_def)
  then have "n \<noteq> []" by (auto split: if_splits)
  then have p: "has_prefix ''-'' (n @ r) = has_prefix ''-'' n" by (simp add: has_prefix1)
  have "(if has_prefix ''-'' n then drop 1 (n @ r) else n @ r) = ?s @ r"
    using \<open>n \<noteq> []\<close> by (cases n) auto
  then have "lex_int (if has_prefix ''-'' n then drop 1 (n @ r) else n @ r) = Some (i, s1 @ r)"
    using lex_int_delim [OF assms(2) \<open>?s \<noteq> []\<close>] l(1) by simp
  moreover have "lex_frac (s1 @ r) = Some (f, s2 @ r)" using lex_frac_delim [OF assms(2)] l(2) by simp
  moreover have "lex_exp (s2 @ r) = Some (e, r)" using lex_exp_delim [OF assms(2) l(3)] .
  ultimately have "lex_number (n @ r) = Some (?sign @ i @ f @ e, r)"
    by (auto simp: lex_number_def p split: if_splits)
  with l(4) show ?thesis by argo
qed

lemma number_head:
  assumes "lex_number n = Some (n, [])"
  shows "n \<noteq> [] \<and> (hd n = CHR ''-'' \<or> is_digit (hd n))"
proof (cases n)
  case Nil
  with assms show ?thesis by (simp add: lex_number_def lex_int_def has_prefix1 lex_digits_def)
next
  case (Cons c s)
  with assms show ?thesis
    by (cases "c = CHR ''-''"; cases "c = CHR ''0''"; cases "is_digit c")
      (auto simp: lex_number_def lex_int_def has_prefix1 lex_digits_def is_digit_def)
qed

text \<open>With enough fuel the parser reads the printed tree, whatever follows it.\<close>

definition reads :: "nat \<Rightarrow> json \<Rightarrow> bool" where
  "reads d j \<longleftrightarrow> (\<exists>N. \<forall>n \<ge> N. \<forall>r. delim r \<longrightarrow> parse_value n d (print_json j @ r) = Some (j, r))"

lemma readsI: "(\<And>n r. delim r \<Longrightarrow> parse_value (Suc n) d (print_json j @ r) = Some (j, r)) \<Longrightarrow> reads d j"
  unfolding reads_def by (metis Suc_le_D)

lemma skip_nonblank: "\<not> is_blank c \<Longrightarrow> skip_blanks (c # s) = c # s"
  by (simp add: skip_blanks_def)

lemma delim_comma [simp]: "delim (CHR '','' # r)" "delim (CHR '']'' # r)" "delim (CHR ''}'' # r)"
  by (simp_all add: delim_def)

lemma print_elems_delim [simp]: "delim (print_elems js @ r)"
  by (cases js) simp_all

lemma print_members_delim [simp]: "delim (print_members ms @ r)"
  by (cases ms) auto

lemma print_json_head:
  assumes "json_ok d j"
  shows "\<exists>c s. print_json j = c # s \<and> \<not> is_blank c \<and> c \<notin> set [CHR '']'', CHR ''}'', CHR '','']"
proof (cases j)
  case (JNum n)
  with assms number_head [of n] show ?thesis
    by (cases n) (auto simp: is_blank_def is_digit_def)
next
  case (JArr js)
  then show ?thesis by (cases js) (simp_all add: is_blank_def)
next
  case (JObj ms)
  then show ?thesis by (cases ms) (auto simp: is_blank_def)
qed (auto simp: is_blank_def)

lemma print_json_skip: "json_ok d j \<Longrightarrow> skip_blanks (print_json j @ s) = print_json j @ s"
  using print_json_head [of d j] by (auto simp: skip_nonblank)

lemma print_json_no_close:
  "json_ok d j \<Longrightarrow> \<not> has_prefix '']'' (print_json j @ s) \<and> \<not> has_prefix ''}'' (print_json j @ s)"
  using print_json_head [of d j] by (auto simp: has_prefix1)

lemma reads_elems:
  assumes "\<forall>j \<in> set (j # js). reads d j"
  shows "\<exists>N. \<forall>n \<ge> N. \<forall>r. parse_elems n d (print_json j @ print_elems js @ r) = Some (j # js, r)"
  using assms
proof (induction js arbitrary: j)
  case Nil
  then have "reads d j" by simp
  then obtain N where N: "\<And>n r. N \<le> n \<Longrightarrow> delim r \<Longrightarrow> parse_value n d (print_json j @ r) = Some (j, r)"
    unfolding reads_def by blast
  have "parse_elems n d (print_json j @ print_elems [] @ r) = Some ([j], r)" if "Suc N \<le> n" for n r
    using that N [of "n - 1" "CHR '']'' # r"] by (cases n) (simp_all add: skip_nonblank is_blank_def)
  then show ?case by blast
next
  case (Cons k js)
  then have "reads d j" by simp
  then obtain N where N: "\<And>n r. N \<le> n \<Longrightarrow> delim r \<Longrightarrow> parse_value n d (print_json j @ r) = Some (j, r)"
    unfolding reads_def by blast
  from Cons obtain M where M: "\<And>n r. M \<le> n \<Longrightarrow>
      parse_elems n d (print_json k @ print_elems js @ r) = Some (k # js, r)" by fastforce
  have "parse_elems n d (print_json j @ print_elems (k # js) @ r) = Some (j # k # js, r)"
    if "Suc (max N M) \<le> n" for n r
    using that N [of "n - 1" "CHR '','' # print_json k @ print_elems js @ r"] M [of "n - 1" r]
    by (cases n) (simp_all add: skip_nonblank is_blank_def)
  then show ?case by blast
qed

lemma reads_members:
  assumes "\<forall>p \<in> set ((k, j) # ms). literal_ok (fst p) \<and> reads d (snd p)"
  shows "\<exists>N. \<forall>n \<ge> N. \<forall>r.
    parse_members n d (CHR 0x22 # k @ CHR 0x22 # CHR '':'' # print_json j @ print_members ms @ r) =
      Some ((k, j) # ms, r)"
  using assms
proof (induction ms arbitrary: k j)
  case Nil
  then have "reads d j" by simp
  then obtain N where N: "\<And>n r. N \<le> n \<Longrightarrow> delim r \<Longrightarrow> parse_value n d (print_json j @ r) = Some (j, r)"
    unfolding reads_def by blast
  have l: "lex_string (k @ CHR 0x22 # r) = Some (k, r)" for r
    using Nil by (simp add: literal_ok_def)
  have "parse_members n d (CHR 0x22 # k @ CHR 0x22 # CHR '':'' # print_json j @ print_members [] @ r) =
      Some ([(k, j)], r)" if "Suc N \<le> n" for n r
    using that N [of "n - 1" "CHR ''}'' # r"] by (cases n) (simp_all add: skip_nonblank is_blank_def l)
  then show ?case by blast
next
  case (Cons p ms)
  obtain k' j' where p: "p = (k', j')" by fastforce
  from Cons.prems have "reads d j" by simp
  then obtain N where N: "\<And>n r. N \<le> n \<Longrightarrow> delim r \<Longrightarrow> parse_value n d (print_json j @ r) = Some (j, r)"
    unfolding reads_def by blast
  have l: "lex_string (k @ CHR 0x22 # r) = Some (k, r)" for r
    using Cons.prems by (simp add: literal_ok_def)
  from Cons p obtain M where M: "\<And>n r. M \<le> n \<Longrightarrow>
      parse_members n d (CHR 0x22 # k' @ CHR 0x22 # CHR '':'' # print_json j' @ print_members ms @ r) =
        Some ((k', j') # ms, r)" by fastforce
  have "parse_members n d (CHR 0x22 # k @ CHR 0x22 # CHR '':'' # print_json j @ print_members (p # ms) @ r) =
      Some ((k, j) # p # ms, r)" if "Suc (max N M) \<le> n" for n r
    using that N [of "n - 1" "print_members (p # ms) @ r"] M [of "n - 1" r]
    by (cases n) (simp_all add: skip_nonblank is_blank_def l p)
  then show ?case by blast
qed

lemma print_reads: "json_ok d j \<Longrightarrow> reads d j"
proof (induction j arbitrary: d)
  case JNull
  show ?case by (rule readsI) (simp add: skip_nonblank is_blank_def has_prefix_def)
next
  case (JBool b)
  show ?case by (rule readsI) (cases b, simp_all add: skip_nonblank is_blank_def has_prefix_def)
next
  case (JNum n)
  then have l: "lex_number n = Some (n, [])" by simp
  obtain c s where n: "n = c # s" and c: "c = CHR ''-'' \<or> is_digit c"
    using number_head [OF l] by (cases n) auto
  have lits: "\<not> is_blank c" "c \<notin> set [CHR 0x22, CHR ''['', CHR ''{'', CHR ''n'', CHR ''t'', CHR ''f'']"
    using c by (auto simp: is_blank_def is_digit_def)
  show ?case
    by (rule readsI)
      (use lits lex_number_delim [OF l] in \<open>simp add: n skip_nonblank has_prefix_def\<close>)
next
  case (JStr s)
  then show ?case
    by (intro readsI) (simp add: skip_nonblank is_blank_def literal_ok_def)
next
  case (JArr js)
  show ?case
  proof (cases js)
    case Nil
    with JArr show ?thesis
      by (intro readsI) (simp add: skip_nonblank is_blank_def has_prefix1)
  next
    case (Cons j ks)
    with JArr have ok: "\<forall>k \<in> set (j # ks). reads (d - 1) k" "json_ok (d - 1) j" "0 < d" by auto
    obtain N where N: "\<And>n r. N \<le> n \<Longrightarrow>
        parse_elems n (d - 1) (print_json j @ print_elems ks @ r) = Some (j # ks, r)"
      using reads_elems [OF ok(1)] by blast
    have "parse_value n d (print_json (JArr js) @ r) = Some (JArr js, r)" if "Suc N \<le> n" for n r
      using that N [of "n - 1" r] ok
      by (cases n) (simp_all add: Cons skip_nonblank is_blank_def print_json_skip print_json_no_close)
    then show ?thesis unfolding reads_def by blast
  qed
next
  case (JObj ms)
  show ?case
  proof (cases ms)
    case Nil
    with JObj show ?thesis
      by (intro readsI) (simp add: skip_nonblank is_blank_def has_prefix1)
  next
    case (Cons p ps)
    obtain k j where p: "p = (k, j)" by fastforce
    have "reads (d - 1) (snd q)" if "q \<in> set ms" for q
      by (rule JObj.IH) (use JObj.prems that in \<open>auto simp: snds.simps\<close>)
    with JObj.prems have ok: "\<forall>q \<in> set ((k, j) # ps). literal_ok (fst q) \<and> reads (d - 1) (snd q)" "0 < d"
      unfolding Cons p by auto
    obtain N where N: "\<And>n r. N \<le> n \<Longrightarrow>
        parse_members n (d - 1) (CHR 0x22 # k @ CHR 0x22 # CHR '':'' # print_json j @ print_members ps @ r) =
          Some ((k, j) # ps, r)"
      using reads_members [OF ok(1)] by blast
    have "parse_value n d (print_json (JObj ms) @ r) = Some (JObj ms, r)" if "Suc N \<le> n" for n r
      using that N [of "n - 1" r] ok(2)
      by (cases n) (simp_all add: Cons p skip_nonblank is_blank_def has_prefix1)
    then show ?thesis unfolding reads_def by blast
  qed
qed

theorem parse_print: "json_ok max_depth j \<Longrightarrow> parse_json (print_json j) = Some j"
proof -
  assume "json_ok max_depth j"
  then obtain N where N: "\<And>n. N \<le> n \<Longrightarrow> parse_value n max_depth (print_json j @ []) = Some (j, [])"
    using print_reads [of max_depth j] unfolding reads_def delim_def by blast
  let ?s = "print_json j"
  have "parse_value (2 * length ?s + 1) max_depth ?s = parse_value (max N (2 * length ?s + 1)) max_depth ?s"
    using parse_value_fuel [of ?s "max N (2 * length ?s + 1)" max_depth] by simp
  also have "\<dots> = Some (j, [])" using N [of "max N (2 * length ?s + 1)"] by simp
  finally show ?thesis by (simp add: parse_json_def skip_blanks_def)
qed

section \<open>Instants\<close>

text \<open>
  \<open>Time.MarshalJSON\<close>: the layout with the fraction of a second, its trailing zeros dropped. The
  strict form refuses years that do not have four digits and zones of 24 hours or more.
\<close>

definition trim_zeros :: "string \<Rightarrow> string" where
  "trim_zeros s = rev (dropWhile (\<lambda>c. c = CHR ''0'') (rev s))"

definition format_nanos :: "int \<Rightarrow> string" where
  "format_nanos ns = (if ns = 0 then [] else CHR ''.'' # trim_zeros (dec 9 ns))"

definition FormatNano :: "gotime \<Rightarrow> string" where
  "FormatNano t =
     (case clock t of ((y, m, d), hh, mm, ss) \<Rightarrow>
        append_int y 4 @ ''-'' @ append_int m 2 @ ''-'' @ append_int d 2 @ ''T'' @
        append_int hh 2 @ '':'' @ append_int mm 2 @ '':'' @ append_int ss 2 @
        format_nanos (gt_ns t mod 10 ^ 9) @ format_zone (gt_off t))"

definition time_marshals :: "gotime \<Rightarrow> bool" where
  "time_marshals t \<longleftrightarrow> 0 \<le> fst (fst (clock t)) \<and> fst (fst (clock t)) \<le> 9999 \<and> \<bar>gt_off t\<bar> < 86400"

definition marshal_time :: "gotime \<Rightarrow> json result" where
  "marshal_time t =
     (if time_marshals t then Inr (JStr (FormatNano t))
      else Inl (ErrLib ''json: error calling MarshalJSON for type time.Time''))"

lemma trim_zeros_pad: "\<exists>k. s = trim_zeros s @ replicate k (CHR ''0'')"
proof (induction s rule: rev_induct)
  case Nil
  show ?case by (intro exI [of _ 0]) (simp add: trim_zeros_def)
next
  case (snoc c s)
  then obtain k where k: "s = trim_zeros s @ replicate k (CHR ''0'')" by blast
  show ?case
  proof (cases "c = CHR ''0''")
    case True
    then have "trim_zeros (s @ [c]) = trim_zeros s" by (simp add: trim_zeros_def)
    moreover have "s @ [c] = trim_zeros s @ replicate (Suc k) (CHR ''0'')"
      using k True by (metis append.assoc replicate_append_same replicate_Suc)
    ultimately show ?thesis by metis
  next
    case False
    then show ?thesis by (intro exI [of _ 0]) (simp add: trim_zeros_def)
  qed
qed

lemma digits_val_pad: "digits_val (s @ replicate k (CHR ''0'')) = digits_val s * 10 ^ k"
proof (induction k arbitrary: s)
  case (Suc k)
  have "digits_val (s @ replicate (Suc k) (CHR ''0'')) = digits_val ((s @ ''0'') @ replicate k (CHR ''0''))"
    by simp
  also have "\<dots> = digits_val s * 10 ^ Suc k"
    by (simp only: Suc digits_val_snoc) (simp add: digit_val_def)
  finally show ?case .
qed simp

lemma parse_nanos:
  assumes "0 < ns" and "ns < 10 ^ 9" and "z = [] \<or> \<not> is_digit (hd z)"
  shows "parse_frac {CHR ''.''} (format_nanos ns @ z) = (ns, z)"
proof -
  let ?ds = "trim_zeros (dec 9 ns)"
  obtain k where k: "dec 9 ns = ?ds @ replicate k (CHR ''0'')" using trim_zeros_pad by blast
  have v: "digits_val ?ds * 10 ^ k = ns"
    using digits_val_dec [of ns 9] assms(1,2) digits_val_pad [of ?ds k] k by simp
  then obtain c r where ds: "?ds = c # r" using assms(1) by (cases ?ds) (auto simp: digits_val_def)
  have len: "length ?ds + k = 9" using arg_cong [OF k, of length] by simp
  have "\<forall>c \<in> set ?ds. is_digit c" using dec_digits [of 9 ns] by (subst (asm) k) auto
  then have "takeWhile is_digit (?ds @ z) = ?ds" "dropWhile is_digit (?ds @ z) = z" "is_digit c"
    unfolding takeWhile_stop [of z is_digit, OF assms(3)] dropWhile_stop [of z is_digit, OF assms(3)]
    by (simp_all add: ds)
  moreover have "nanos_of ?ds = ns"
  proof -
    have "9 - length ?ds = k" using len by simp
    with v len show ?thesis by (simp add: nanos_of_def Let_def)
  qed
  ultimately show ?thesis
    using assms(1) by (simp add: format_nanos_def parse_frac_def ds)
qed

lemma format_zone_head: "\<not> is_digit (hd (format_zone off))"
  by (auto simp: format_zone_def is_digit_def)

lemma parse_frac_nano:
  "0 \<le> ns \<Longrightarrow> ns < 10 ^ 9 \<Longrightarrow>
     parse_frac {CHR ''.''} (format_nanos ns @ format_zone off) = (ns, format_zone off)"
  using parse_nanos [of ns "format_zone off"] format_zone_head
  by (cases "ns = 0") (simp_all add: format_nanos_def parse_frac_format)

lemma parse_exact_nanos:
  assumes "length Y = 4" "length M = 2" "length D = 2" "length h = 2" "length n = 2" "length c = 2"
    and "parse_uint Y 0 9999 = Some y" "parse_uint M 1 12 = Some m"
    and "parse_uint D 1 (days_in m y) = Some d" "parse_uint h 0 23 = Some hh"
    and "parse_uint n 0 59 = Some mm" "parse_uint c 0 59 = Some ss"
    and "parse_frac {CHR ''.''} z = (ns, z')" "parse_zone_exact z' = Some off"
  shows "parse_exact (Y @ ''-'' @ M @ ''-'' @ D @ ''T'' @ h @ '':'' @ n @ '':'' @ c @ z) =
         Some (time_of_date y m d hh mm ss ns off)"
  using assms by (simp add: parse_exact_def nth_append)

lemma parse_FormatNano:
  assumes "time_marshals t" and "offset_ok (gt_off t)"
  shows "ParseRFC3339 (FormatNano t) = Some t"
proof -
  obtain y m d hh mm ss where c: "clock t = ((y, m, d), hh, mm, ss)"
    by (cases "clock t") auto
  note f = clock_fields [OF c]
  have y: "0 \<le> y" "y \<le> 9999" using assms(1) c by (auto simp: time_marshals_def)
  let ?ns = "gt_ns t mod 10 ^ 9"
  have "FormatNano t = dec 4 y @ ''-'' @ dec 2 m @ ''-'' @ dec 2 d @ ''T'' @
      dec 2 hh @ '':'' @ dec 2 mm @ '':'' @ dec 2 ss @ format_nanos ?ns @ format_zone (gt_off t)"
    using f y by (simp add: FormatNano_def c append_int_dec)
  moreover have "parse_exact \<dots> = Some (time_of_date y m d hh mm ss ?ns (gt_off t))"
    by (rule parse_exact_nanos)
      (use f y in \<open>auto intro!: parse_uint_dec simp: parse_frac_nano parse_zone_format [OF assms(2)]\<close>)
  moreover have "time_of_date y m d hh mm ss ?ns (gt_off t) = t"
  proof -
    have "gt_ns (time_of_date y m d hh mm ss ?ns (gt_off t)) =
        gt_ns (time_of_date y m d hh mm ss 0 (gt_off t)) + ?ns"
      by (simp add: time_of_date_def)
    also have "\<dots> = gt_ns t div 10 ^ 9 * 10 ^ 9 + ?ns" by (simp add: f(12))
    finally show ?thesis by (simp add: time_of_date_def)
  qed
  ultimately show ?thesis by (simp add: ParseRFC3339_def)
qed

text \<open>The text of an instant needs no escape.\<close>

lemma literal_okI:
  "\<forall>b \<in> set w. 0x20 \<le> (of_char b :: nat) \<and> b \<noteq> CHR 0x22 \<and> b \<noteq> CHR 0x5C \<Longrightarrow> literal_ok w"
  unfolding literal_ok_def by (simp add: lex_plain lex_string.simps(2))

lemma FormatNano_literal:
  assumes "time_marshals t"
  shows "literal_ok (FormatNano t)"
proof -
  obtain y m d hh mm ss where c: "clock t = ((y, m, d), hh, mm, ss)"
    by (cases "clock t") auto
  note f = clock_fields [OF c]
  have y: "0 \<le> y" "y \<le> 9999" and off: "\<bar>gt_off t\<bar> < 86400"
    using assms c by (auto simp: time_marshals_def)
  let ?h = "\<bar>gt_off t\<bar> div 60 div 60" and ?m = "\<bar>gt_off t\<bar> div 60 mod 60"
  have zone: "format_zone (gt_off t) = (if gt_off t = 0 then ''Z''
      else (if gt_off t < 0 then ''-'' else ''+'') @ dec 2 ?h @ '':'' @ dec 2 ?m)"
  proof -
    have "0 \<le> ?h" "?h < 10 ^ 2" "0 \<le> ?m" "?m < 10 ^ 2" using off by simp_all
    then show ?thesis by (simp add: format_zone_def append_int_dec)
  qed
  have sub: "set (trim_zeros s) \<subseteq> set s" for s
    using trim_zeros_pad [of s] by (metis set_append Un_upper1)
  let ?ds = "{b. is_digit b} \<union> set ''-:.TZ+''"
  have "set (dec w n) \<subseteq> ?ds" for w n using dec_digits [of w n] by auto
  moreover have "set (format_nanos n) \<subseteq> ?ds" for n
    using sub [of "dec 9 n"] dec_digits [of 9 n] by (auto simp: format_nanos_def)
  ultimately have "set (FormatNano t) \<subseteq> ?ds"
    using f y by (simp add: FormatNano_def c append_int_dec zone)
  then show ?thesis
    by (intro literal_okI ballI) (auto simp: is_digit_def dest!: subsetD)
qed

lemma marshal_time_ok: "marshal_time t = Inr j \<Longrightarrow> json_ok d j"
  by (auto simp: marshal_time_def FormatNano_literal split: if_splits)

lemma decode_marshal_time:
  "marshal_time t = Inr j \<Longrightarrow> offset_ok (gt_off t) \<Longrightarrow> decode_time j old = Inr t"
  by (auto simp: marshal_time_def decode_time_def parse_FormatNano split: if_splits)

end
