(* ===== verification/Handlers.thy ===== *)
theory Handlers
  imports Correlator Event_Decode Metrics Go_Json_Encode
begin

text \<open>
  The request handlers of \<open>internal/api/handlers.go\<close> and the response writers of
  \<open>internal/api/responses.go\<close>. A handler maps what the router and \<open>net/url\<close> extract from the
  request, and the state of the bridge, to the response and the new state. Log lines are
  in \<^theory_text>\<open>Ingestion_Log\<close>; what the handlers read from the clock is an argument.
\<close>

section \<open>Responses\<close>

definition errInvalidRequest :: string where "errInvalidRequest = ''invalid_request''"
definition errInvalidEvent :: string where "errInvalidEvent = ''invalid_event''"
definition errValidation :: string where "errValidation = ''validation_error''"
definition errPayloadTooLarge :: string where "errPayloadTooLarge = ''payload_too_large''"
definition errNotFound :: string where "errNotFound = ''not_found''"
definition errStorage :: string where "errStorage = ''storage_error''"
definition errCorrelation :: string where "errCorrelation = ''correlation_error''"

definition rejectParse :: string where "rejectParse = ''parse''"
definition rejectValidation :: string where "rejectValidation = ''validation''"
definition rejectStorage :: string where "rejectStorage = ''storage''"
definition rejectTooLarge :: string where "rejectTooLarge = ''payload_too_large''"
definition rejectUnreadable :: string where "rejectUnreadable = ''unreadable_body''"

text \<open>The values the handlers encode, one constructor per response type.\<close>

datatype payload =
    ErrorResponse string string
  | SuccessResponse string string string string
  | DeploymentResponse string deployment "(string \<times> string) list"
  | ListResponse "deployment list" int int
  | EventResponse stored_event
  | ChainResponse event_chain
  | HealthResponse string string string "(string \<times> string) list"

datatype body = JsonBody payload | PlainBody string

record response =
  resp_status :: int
  resp_body :: body

text \<open>
  \<open>json.Marshal\<close> fails on none of these values but for an instant it cannot write in RFC 3339
  (\<^const>\<open>time_marshals\<close>).
\<close>

fun payload_times :: "payload \<Rightarrow> gotime list" where
  "payload_times (DeploymentResponse service d links) = [dep_DeployedAt d]"
| "payload_times (ListResponse ds n limit) = map dep_DeployedAt ds"
| "payload_times (EventResponse e) = [ev_Timestamp e]"
| "payload_times (ChainResponse c) = map ce_Timestamp (chain_Events c)"
| "payload_times _ = []"

definition marshals :: "payload \<Rightarrow> bool" where
  "marshals p \<longleftrightarrow> list_all time_marshals (payload_times p)"

definition encoding_error :: string where
  "encoding_error = ''{\"error\":\"encoding_error\",\"message\":\"Failed to encode response\"}''"

definition respondJSON :: "int \<Rightarrow> payload \<Rightarrow> response" where
  "respondJSON status data =
     (if \<not> marshals data then \<lparr>resp_status = 500, resp_body = PlainBody encoding_error\<rparr>
      else \<lparr>resp_status = status, resp_body = JsonBody data\<rparr>)"

definition respondError :: "int \<Rightarrow> string \<Rightarrow> string \<Rightarrow> response" where
  "respondError status errType message = respondJSON status (ErrorResponse errType message)"

section \<open>The handler and the state of the bridge\<close>

record 's handler =
  h_storage :: "'s storage"
  h_graph :: event_graph
  h_visit :: "stored_event list \<Rightarrow> stored_event list"
  h_version :: string

record 's bridge =
  br_metrics :: metrics
  br_store :: 's

definition maxBodyBytes :: nat where
  "maxBodyBytes = 2 ^ 20"

text \<open>
  What the connection delivers as the request body: all of its bytes, or some bytes and then an
  error. \<open>http.MaxBytesReader\<close> fails with its own error as soon as more bytes than the limit have
  been read.
\<close>

datatype request_body = FullBody string | BrokenBody string gerror

datatype read_error = MaxBytesError | ReadError gerror

fun read_all :: "request_body \<Rightarrow> read_error + string" where
  "read_all (FullBody b) = (if maxBodyBytes < length b then Inl MaxBytesError else Inr b)"
| "read_all (BrokenBody b err) = (if maxBodyBytes < length b then Inl MaxBytesError else Inl (ReadError err))"

section \<open>Ingestion\<close>

definition HandlePostEvent ::
  "'s handler \<Rightarrow> ctx \<Rightarrow> request_body \<Rightarrow> duration \<Rightarrow> 's bridge \<Rightarrow> response \<times> 's bridge" where
  "HandlePostEvent h ctx req elapsed br =
     (case read_all req of
        Inl MaxBytesError \<Rightarrow>
          (respondError 413 errPayloadTooLarge ''Request body exceeds 1048576 bytes'',
           br\<lparr>br_metrics := EventRejected rejectTooLarge (br_metrics br)\<rparr>)
      | Inl (ReadError err) \<Rightarrow>
          (respondError 400 errInvalidRequest ''Failed to read request body'',
           br\<lparr>br_metrics := EventRejected rejectUnreadable (br_metrics br)\<rparr>)
      | Inr body \<Rightarrow>
     (case Parse body of
        Inl err \<Rightarrow>
          (respondError 400 errInvalidEvent (''Failed to parse CDEvent: '' @ err_text err),
           br\<lparr>br_metrics := EventRejected rejectParse (br_metrics br)\<rparr>)
      | Inr event \<Rightarrow>
     (case Validate (Some event) of
        Some err \<Rightarrow>
          (respondError 400 errValidation (''CDEvent validation failed: '' @ err_text err),
           br\<lparr>br_metrics := EventRejected rejectValidation (br_metrics br)\<rparr>)
      | None \<Rightarrow>
     (let kind = event_ShortType event;
          saved =
            (if IsDeployment event
             then SaveDeployment (h_storage h) ctx (ToDeployment (Some event)) (br_store br)
             else (Inr (), br_store br))
      in case saved of
           (Inl err, s) \<Rightarrow>
             (respondError 500 errStorage ''Failed to save deployment'',
              br\<lparr>br_metrics := EventRejected rejectStorage (br_metrics br), br_store := s\<rparr>)
         | (Inr _, s) \<Rightarrow>
             (case SaveEvent (h_storage h) ctx (ToStoredEvent (Some event)) s of
                (Inl err, s) \<Rightarrow>
                  (respondError 500 errStorage ''Failed to save event'',
                   br\<lparr>br_metrics := EventRejected rejectStorage (br_metrics br), br_store := s\<rparr>)
              | (Inr _, s) \<Rightarrow>
                  (respondJSON 201
                     (SuccessResponse ''accepted'' (ctx_ID (Context event)) (ctx_Type (Context event))
                       (FormatRFC3339 (UTC (ctx_Timestamp (Context event))))),
                   br\<lparr>br_metrics := ObserveProcessing elapsed (EventReceived kind (br_metrics br)),
                      br_store := s\<rparr>))))))"

section \<open>Queries\<close>

definition deployment_links :: "string \<Rightarrow> deployment \<Rightarrow> (string \<times> string) list" where
  "deployment_links service d =
     [(''self'', ''/api/v1/deployments/'' @ service @ ''?environment='' @ dep_Environment d),
      (''event'', ''/api/v1/events/'' @ dep_EventID d),
      (''chain'', ''/api/v1/chain/'' @ dep_EventID d)]"

definition HandleGetDeployment ::
  "'s handler \<Rightarrow> ctx \<Rightarrow> string \<Rightarrow> string \<Rightarrow> 's bridge \<Rightarrow> response \<times> 's bridge" where
  "HandleGetDeployment h ctx service environment br =
     (if service = [] then (respondError 400 errInvalidRequest ''Service name is required'', br)
      else
        (case
           (if environment = [] then GetLatestDeployment (h_storage h) ctx service (br_store br)
            else GetDeployment (h_storage h) ctx service environment (br_store br)) of
           (Inl err, s) \<Rightarrow>
             (if errors_is err ErrNotFound then
                respondError 404 errNotFound
                  (''No deployment found for service '' @ [CHR 0x27] @ service @ [CHR 0x27] @
                   (if environment \<noteq> [] then '' in environment '' @ [CHR 0x27] @ environment @ [CHR 0x27]
                    else []))
              else respondError 500 errStorage ''Failed to retrieve deployment'',
              br\<lparr>br_store := s\<rparr>)
         | (Inr deployment, s) \<Rightarrow>
             (respondJSON 200
                (DeploymentResponse service deployment (deployment_links service deployment)),
              br\<lparr>br_store := s\<rparr>)))"

text \<open>\<open>strconv.Atoi\<close>: an optional sign and decimal digits, in the range of a 64-bit integer.\<close>

definition atoi_digits :: "string \<Rightarrow> int option" where
  "atoi_digits s = (if s \<noteq> [] \<and> list_all is_digit s then Some (digits_val s) else None)"

definition Atoi :: "string \<Rightarrow> int option" where
  "Atoi s =
     (case s of
        [] \<Rightarrow> None
      | c # r \<Rightarrow>
          let v = (if c = CHR ''-'' then map_option uminus (atoi_digits r)
                   else if c = CHR ''+'' then atoi_digits r else atoi_digits s)
          in case v of
               None \<Rightarrow> None
             | Some n \<Rightarrow> if - (2 ^ 63) \<le> n \<and> n < 2 ^ 63 then Some n else None)"

definition defaultListLimit :: int where
  "defaultListLimit = 50"

definition maxListLimit :: int where
  "maxListLimit = 100"

definition parse_limit :: "string \<Rightarrow> int option" where
  "parse_limit limitStr =
     (if limitStr = [] then Some defaultListLimit
      else case Atoi limitStr of
             None \<Rightarrow> None
           | Some limit \<Rightarrow>
               if limit < 1 then None
               else Some (if maxListLimit < limit then maxListLimit else limit))"

definition parse_since :: "string \<Rightarrow> gotime option" where
  "parse_since sinceStr = (if sinceStr = [] then Some zero_time else ParseRFC3339 sinceStr)"

definition HandleListDeployments ::
  "'s handler \<Rightarrow> ctx \<Rightarrow> string \<Rightarrow> string \<Rightarrow> string \<Rightarrow> 's bridge \<Rightarrow> response \<times> 's bridge" where
  "HandleListDeployments h ctx environment limitStr sinceStr br =
     (case parse_limit limitStr of
        None \<Rightarrow>
          (respondError 400 errInvalidRequest ''Invalid limit parameter: must be a positive integer'', br)
      | Some limit \<Rightarrow>
     (case parse_since sinceStr of
        None \<Rightarrow>
          (respondError 400 errInvalidRequest ''Invalid since parameter: must be an RFC 3339 timestamp'', br)
      | Some since \<Rightarrow>
     (case ListDeployments (h_storage h) ctx
        \<lparr>lf_Environment = environment, lf_Since = since, lf_Limit = limit\<rparr> (br_store br) of
        (Inl err, s) \<Rightarrow>
          (respondError 500 errStorage ''Failed to list deployments'', br\<lparr>br_store := s\<rparr>)
      | (Inr deployments, s) \<Rightarrow>
          (respondJSON 200 (ListResponse deployments (int (length deployments)) limit),
           br\<lparr>br_store := s\<rparr>))))"

definition HandleGetEvent :: "'s handler \<Rightarrow> ctx \<Rightarrow> string \<Rightarrow> 's bridge \<Rightarrow> response \<times> 's bridge" where
  "HandleGetEvent h ctx eventID br =
     (if eventID = [] then (respondError 400 errInvalidRequest ''Event ID is required'', br)
      else
        (case GetEvent (h_storage h) ctx eventID (br_store br) of
           (Inl err, s) \<Rightarrow>
             (if errors_is err ErrNotFound then respondError 404 errNotFound (''Event not found: '' @ eventID)
              else respondError 500 errStorage ''Failed to retrieve event'',
              br\<lparr>br_store := s\<rparr>)
         | (Inr event, s) \<Rightarrow> (respondJSON 200 (EventResponse event), br\<lparr>br_store := s\<rparr>)))"

definition HandleGetChain :: "'s handler \<Rightarrow> ctx \<Rightarrow> string \<Rightarrow> 's bridge \<Rightarrow> response \<times> 's bridge" where
  "HandleGetChain h ctx eventID br =
     (if eventID = [] then (respondError 400 errInvalidRequest ''Event ID is required'', br)
      else
        (case BuildChain (h_storage h) (h_graph h) (h_visit h) ctx eventID (br_store br) of
           (Inl err, s) \<Rightarrow>
             (if errors_is err ErrNotFound then respondError 404 errNotFound (''Event not found: '' @ eventID)
              else respondError 500 errCorrelation ''Failed to build event chain'',
              br\<lparr>br_store := s\<rparr>)
         | (Inr chain, s) \<Rightarrow> (respondJSON 200 (ChainResponse chain), br\<lparr>br_store := s\<rparr>)))"

text \<open>\<open>ctx\<close> is the context after its two-second timeout was added; \<open>uptime\<close> is a formatted duration.\<close>

definition HandleHealth :: "'s handler \<Rightarrow> ctx \<Rightarrow> string \<Rightarrow> 's bridge \<Rightarrow> response \<times> 's bridge" where
  "HandleHealth h ctx uptime br =
     (case Ping (h_storage h) ctx (br_store br) of
        (Inl err, s) \<Rightarrow>
          (respondJSON 503
             (HealthResponse ''unhealthy'' (h_version h) uptime [(''storage'', err_text err)]),
           br\<lparr>br_store := s\<rparr>)
      | (Inr _, s) \<Rightarrow>
          (respondJSON 200 (HealthResponse ''healthy'' (h_version h) uptime [(''storage'', ''ok'')]),
           br\<lparr>br_store := s\<rparr>))"

lemmas reject_defs =
  rejectParse_def rejectValidation_def rejectStorage_def rejectTooLarge_def rejectUnreadable_def

lemma respondError_eq [simp]:
  "respondError status e msg = \<lparr>resp_status = status, resp_body = JsonBody (ErrorResponse e msg)\<rparr>"
  by (simp add: respondError_def respondJSON_def marshals_def)

lemma respond_success [simp]:
  "respondJSON status (SuccessResponse a b c d) =
     \<lparr>resp_status = status, resp_body = JsonBody (SuccessResponse a b c d)\<rparr>"
  by (simp add: respondJSON_def marshals_def)

end
