(* ===== verification/Go_Format.thy ===== *)
theory Go_Format
  imports Handlers
begin

text \<open>
  Formatting and parsing of the standard library that the start-up code uses: the verbs \<open>%q\<close> and
  \<open>%d\<close>, the errors of \<open>strconv.Atoi\<close>, \<open>strconv.ParseBool\<close> and \<open>net.JoinHostPort\<close>. Which
  code points beyond ASCII are printable depends on the Unicode tables of the toolchain: they are
  the argument \<open>printable\<close>.
\<close>

section \<open>Verbs\<close>

definition show_int :: "int \<Rightarrow> string" where
  "show_int n = (if n < 0 then ''-'' else []) @ show_nat (nat \<bar>n\<bar>)"

text \<open>The code point of one UTF-8 sequence.\<close>

definition rune_of :: "string \<Rightarrow> nat" where
  "rune_of s =
     (case map of_char s of
        [a] \<Rightarrow> a
      | [a, b] \<Rightarrow> a mod 32 * 64 + b mod 64
      | [a, b, c] \<Rightarrow> (a mod 16 * 64 + b mod 64) * 64 + c mod 64
      | [a, b, c, d] \<Rightarrow> ((a mod 8 * 64 + b mod 64) * 64 + c mod 64) * 64 + d mod 64
      | _ \<Rightarrow> 0)"

fun hex_digits :: "nat \<Rightarrow> nat \<Rightarrow> string" where
  "hex_digits 0 n = []"
| "hex_digits (Suc w) n = hex_digits w (n div 16) @ [hex_digit (n mod 16)]"

definition quote_rune :: "(nat \<Rightarrow> bool) \<Rightarrow> string \<Rightarrow> string" where
  "quote_rune printable s =
     (let r = rune_of s
      in if r = 0x22 \<or> r = 0x5C then CHR 0x5C # s
         else if (if r < 0x80 then 0x20 \<le> r \<and> r < 0x7F else printable r) then s
         else if r = 0x07 then CHR 0x5C # ''a''
         else if r = 0x08 then CHR 0x5C # ''b''
         else if r = 0x0C then CHR 0x5C # ''f''
         else if r = 0x0A then CHR 0x5C # ''n''
         else if r = 0x0D then CHR 0x5C # ''r''
         else if r = 0x09 then CHR 0x5C # ''t''
         else if r = 0x0B then CHR 0x5C # ''v''
         else if r < 0x20 \<or> r = 0x7F then CHR 0x5C # CHR ''x'' # hex_digits 2 r
         else if r < 0x10000 then CHR 0x5C # CHR ''u'' # hex_digits 4 r
         else CHR 0x5C # CHR ''U'' # hex_digits 8 r)"

fun quote_body :: "(nat \<Rightarrow> bool) \<Rightarrow> string \<Rightarrow> string" where
  "quote_body printable [] = []"
| "quote_body printable (c # s) =
     (let n = utf8_head (c # s)
      in if n = 0 then CHR 0x5C # CHR ''x'' # hex_digits 2 (of_char c) @ quote_body printable s
         else quote_rune printable (take n (c # s)) @ quote_body printable (drop (n - 1) s))"

definition go_quote :: "(nat \<Rightarrow> bool) \<Rightarrow> string \<Rightarrow> string" where
  "go_quote printable s = CHR 0x22 # quote_body printable s @ [CHR 0x22]"

section \<open>Parsing\<close>

text \<open>The \<open>NumError\<close> of a parser: which function, what it was given and why it failed.\<close>

definition num_error :: "(nat \<Rightarrow> bool) \<Rightarrow> string \<Rightarrow> string \<Rightarrow> string \<Rightarrow> gerror" where
  "num_error printable func s why =
     ErrWrap (''strconv.'' @ func @ '': parsing '' @ go_quote printable s @ '': '') (ErrLib why) []"

definition atoi_syntax :: "string \<Rightarrow> bool" where
  "atoi_syntax s \<longleftrightarrow>
     atoi_digits (if s \<noteq> [] \<and> (s ! 0 = CHR ''-'' \<or> s ! 0 = CHR ''+'') then drop 1 s else s) \<noteq> None"

definition atoi_result :: "(nat \<Rightarrow> bool) \<Rightarrow> string \<Rightarrow> int result" where
  "atoi_result printable s =
     (case Atoi s of
        Some n \<Rightarrow> Inr n
      | None \<Rightarrow>
          Inl (num_error printable ''Atoi'' s
            (if atoi_syntax s then ''value out of range'' else ''invalid syntax'')))"

definition ParseBool :: "string \<Rightarrow> bool option" where
  "ParseBool s =
     (if s \<in> set [''1'', ''t'', ''T'', ''true'', ''TRUE'', ''True''] then Some True
      else if s \<in> set [''0'', ''f'', ''F'', ''false'', ''FALSE'', ''False''] then Some False
      else None)"

definition parse_bool_result :: "(nat \<Rightarrow> bool) \<Rightarrow> string \<Rightarrow> bool result" where
  "parse_bool_result printable s =
     (case ParseBool s of
        Some b \<Rightarrow> Inr b
      | None \<Rightarrow> Inl (num_error printable ''ParseBool'' s ''invalid syntax''))"

text \<open>\<open>net.JoinHostPort\<close>: a host with a colon is put into brackets.\<close>

definition JoinHostPort :: "string \<Rightarrow> string \<Rightarrow> string" where
  "JoinHostPort host port =
     (if CHR '':'' \<in> set host then CHR ''['' # host @ '']:'' @ port else host @ '':'' @ port)"

text \<open>\<open>strings.Contains\<close>.\<close>

definition strings_Contains :: "string \<Rightarrow> string \<Rightarrow> bool" where
  "strings_Contains s sub \<longleftrightarrow> list_ex (\<lambda>i. has_prefix sub (drop i s)) [0..<Suc (length s)]"

lemma strings_Contains_iff: "strings_Contains s sub \<longleftrightarrow> (\<exists>a b. s = a @ sub @ b)"
proof
  assume "strings_Contains s sub"
  then obtain i where "has_prefix sub (drop i s)" unfolding strings_Contains_def list_ex_iff by blast
  then obtain r where "drop i s = sub @ r" by (auto simp: has_prefix_iff)
  then have "s = take i s @ sub @ r" by (metis append_take_drop_id)
  then show "\<exists>a b. s = a @ sub @ b" by blast
next
  assume "\<exists>a b. s = a @ sub @ b"
  then obtain a b where s: "s = a @ sub @ b" by blast
  then have "has_prefix sub (drop (length a) s)" by (auto simp: has_prefix_iff)
  moreover have "length a \<in> set [0..<Suc (length s)]" using s by simp
  ultimately show "strings_Contains s sub" unfolding strings_Contains_def list_ex_iff by blast
qed

lemma atoi_result_Inr [simp]: "atoi_result printable s = Inr n \<longleftrightarrow> Atoi s = Some n"
  by (simp add: atoi_result_def split: option.splits)

lemma parse_bool_result_Inr [simp]: "parse_bool_result printable s = Inr b \<longleftrightarrow> ParseBool s = Some b"
  by (simp add: parse_bool_result_def split: option.splits)

text \<open>Plain text is quoted as it is.\<close>

lemma char_codes: "char_of (0x22 :: nat) = CHR 0x22" "char_of (0x5C :: nat) = CHR 0x5C"
  by code_simp+

lemma go_quote_plain:
  "list_all (\<lambda>c. between 0x20 0x7E c \<and> c \<noteq> CHR 0x22 \<and> c \<noteq> CHR 0x5C) s \<Longrightarrow>
     go_quote printable s = CHR 0x22 # s @ [CHR 0x22]"
proof -
  have "quote_body printable s = s"
    if "list_all (\<lambda>c. between 0x20 0x7E c \<and> c \<noteq> CHR 0x22 \<and> c \<noteq> CHR 0x5C) s"
    using that
  proof (induction s)
    case (Cons c s)
    then have c: "between 0x20 0x7E c" "c \<noteq> CHR 0x22" "c \<noteq> CHR 0x5C" by simp_all
    then have "utf8_head (c # s) = 1" by (intro utf8_head_ascii) (simp add: between_def)
    moreover have "quote_rune printable [c] = [c]"
    proof -
      have "c = CHR 0x22" if "of_char c = (0x22 :: nat)"
        using char_of_char [of c, where ?'a = nat] unfolding that by (simp add: char_codes)
      moreover have "c = CHR 0x5C" if "of_char c = (0x5C :: nat)"
        using char_of_char [of c, where ?'a = nat] unfolding that by (simp add: char_codes)
      ultimately have "(of_char c :: nat) \<noteq> 0x22" "(of_char c :: nat) \<noteq> 0x5C"
        using c(2,3) by blast+
      with c(1) show ?thesis by (simp add: quote_rune_def rune_of_def between_def)
    qed
    ultimately show ?case using Cons by simp
  qed simp
  then show "list_all (\<lambda>c. between 0x20 0x7E c \<and> c \<noteq> CHR 0x22 \<and> c \<noteq> CHR 0x5C) s \<Longrightarrow>
     go_quote printable s = CHR 0x22 # s @ [CHR 0x22]" by (simp add: go_quote_def)
qed

end
