(* ===== verification/Deployment_Resolver.thy ===== *)
theory Deployment_Resolver
  imports Memory_Storage
begin

text \<open>
  The abstraction the span processor depends on, \<open>DeploymentResolver\<close> of
  \<open>pkg/otelbridge/resolver.go\<close>, its contract as a locale, the resolver over the storage of the
  bridge (\<open>internal/otel/resolver.go\<close>), and the attributes a deployment gives a span
  (\<open>pkg/otelbridge/attributes.go\<close>).
\<close>

section \<open>Resolvers\<close>

text \<open>A Go answer: a pointer and an error, each of which may be \<open>nil\<close>.\<close>

type_synonym answer = "deployment option \<times> gerror option"

type_synonym 'r resolver = "ctx \<Rightarrow> string \<Rightarrow> 'r \<Rightarrow> answer \<times> 'r"

text \<open>\<open>ResolverFunc\<close> is the function itself seen as a resolver.\<close>

definition ResolverFunc_ResolveDeployment :: "'r resolver \<Rightarrow> 'r resolver" where
  "ResolverFunc_ResolveDeployment f ctx service s = f ctx service s"

definition StorageResolver_ResolveDeployment :: "'s storage \<Rightarrow> 's resolver" where
  "StorageResolver_ResolveDeployment store ctx service s =
     (case GetLatestDeployment store ctx service s of
        (Inl err, s) \<Rightarrow>
          if errors_is err ErrNotFound then ((None, Some ErrBridgeNotFound), s)
          else ((None, Some err), s)
      | (Inr d, s) \<Rightarrow> ((Some d, None), s))"

text \<open>
  What the users of a resolver rely on: an answer holds a deployment or an error, never both and
  never none; and, of a resolver that looks deployments up itself, that a deployment belongs to
  the service asked for.
\<close>

locale resolver_answers =
  fixes resolve :: "'r resolver" and inv :: "'r \<Rightarrow> bool"
  assumes keeps_inv: "inv s \<Longrightarrow> resolve ctx svc s = ((od, oe), s') \<Longrightarrow> inv s'"
    and exclusive: "inv s \<Longrightarrow> resolve ctx svc s = ((od, oe), s') \<Longrightarrow> od = None \<longleftrightarrow> oe \<noteq> None"
begin

lemma answer_split:
  assumes "inv s" and "resolve ctx svc s = (a, s')"
  obtains d where "a = (Some d, None)" | err where "a = (None, Some err)"
  using exclusive [OF assms(1), of ctx svc "fst a" "snd a" s'] assms(2)
  by (cases a; cases "fst a"; cases "snd a") auto

end

locale resolver_contract = resolver_answers +
  assumes of_service: "inv s \<Longrightarrow> resolve ctx svc s = ((Some d, oe), s') \<Longrightarrow> dep_Service d = svc"
begin

lemma answer_cases:
  assumes "inv s" and "resolve ctx svc s = (a, s')"
  obtains d where "a = (Some d, None)" "dep_Service d = svc" | err where "a = (None, Some err)"
  using exclusive [OF assms(1), of ctx svc "fst a" "snd a" s'] of_service [OF assms(1)] assms(2)
  by (cases a; cases "fst a") auto

lemma resolver_func: "resolver_contract (ResolverFunc_ResolveDeployment resolve) inv"
  by unfold_locales
    (auto simp: ResolverFunc_ResolveDeployment_def dest: keeps_inv exclusive of_service)

end

lemma storage_resolver_contract:
  assumes "storage_contract S I deps evs key_ok"
  shows "resolver_contract (StorageResolver_ResolveDeployment S) I"
proof
  fix s ctx svc od oe s'
  assume inv: "I s" and r: "StorageResolver_ResolveDeployment S ctx svc s = ((od, oe), s')"
  obtain rd s1 where g: "GetLatestDeployment S ctx svc s = (rd, s1)"
    by (cases "GetLatestDeployment S ctx svc s")
  note l = storage_contract.get_latest [OF assms inv g]
  show "I s'"
    using r g l inv
    by (auto simp: StorageResolver_ResolveDeployment_def split: sum.splits if_splits)
  show "od = None \<longleftrightarrow> oe \<noteq> None"
    using r g by (auto simp: StorageResolver_ResolveDeployment_def split: sum.splits if_splits)
next
  fix s ctx svc d oe s'
  assume inv: "I s" and r: "StorageResolver_ResolveDeployment S ctx svc s = ((Some d, oe), s')"
  obtain rd s1 where g: "GetLatestDeployment S ctx svc s = (rd, s1)"
    by (cases "GetLatestDeployment S ctx svc s")
  from r g have "rd = Inr d"
    by (auto simp: StorageResolver_ResolveDeployment_def split: sum.splits if_splits)
  with storage_contract.get_latest [OF assms inv g] show "dep_Service d = svc"
    by blast
qed

interpretation mem_resolver: resolver_contract
    "StorageResolver_ResolveDeployment (MemoryStorage stored_order)" memory_plain
  by (rule storage_resolver_contract) (rule mem.storage_contract_axioms)

text \<open>
  The current deployment of a service, of what is stored: the newest of its deployments, the
  first environment in byte order among those of the same instant; none when it runs nowhere.
\<close>

definition newest_of :: "memory \<Rightarrow> string \<Rightarrow> deployment option \<Rightarrow> bool" where
  "newest_of m svc od =
     (case od of
        Some d \<Rightarrow> d \<in> ran (memory_deps m) \<and> dep_Service d = svc \<and>
          (\<forall>d' \<in> ran (memory_deps m). dep_Service d' = svc \<longrightarrow> deployment_key d \<le> deployment_key d')
      | None \<Rightarrow> \<forall>d' \<in> ran (memory_deps m). dep_Service d' \<noteq> svc)"

lemma storage_resolver_newest:
  assumes "memory_plain m"
    and "StorageResolver_ResolveDeployment (MemoryStorage stored_order) None svc m = ((od, oe), m')"
  shows "newest_of m svc od \<and> m' = m \<and> oe = (if od = None then Some ErrBridgeNotFound else None)"
proof -
  obtain r m1 where g: "GetLatestDeployment (MemoryStorage stored_order) None svc m = (r, m1)"
    by fastforce
  note l = mem.get_latest [OF assms(1) g]
  have "\<And>err. r = Inl err \<Longrightarrow> err = ErrNotFound"
    using mem.live_get_latest [of svc m] g by simp
  with l g assms(2) show ?thesis
    by (auto simp: StorageResolver_ResolveDeployment_def newest_of_def split: sum.splits)
qed

section \<open>Span attributes\<close>

definition DeploymentIDKey :: string where "DeploymentIDKey = ''deployment.id''"
definition DeploymentVersionKey :: string where "DeploymentVersionKey = ''deployment.version''"
definition DeploymentCommitKey :: string where "DeploymentCommitKey = ''deployment.commit''"
definition DeploymentEnvironmentKey :: string where "DeploymentEnvironmentKey = ''deployment.environment''"
definition DeploymentPipelineIDKey :: string where "DeploymentPipelineIDKey = ''deployment.pipeline_id''"
definition DeploymentRepositoryKey :: string where "DeploymentRepositoryKey = ''deployment.repository''"
definition DeploymentBranchKey :: string where "DeploymentBranchKey = ''deployment.branch''"
definition DeploymentDeployedAtKey :: string where "DeploymentDeployedAtKey = ''deployment.deployed_at''"
definition DeploymentDeployedByKey :: string where "DeploymentDeployedByKey = ''deployment.deployed_by''"
definition DeploymentEventIDKey :: string where "DeploymentEventIDKey = ''deployment.event_id''"

lemmas attribute_keys =
  DeploymentIDKey_def DeploymentVersionKey_def DeploymentCommitKey_def DeploymentEnvironmentKey_def
  DeploymentPipelineIDKey_def DeploymentRepositoryKey_def DeploymentBranchKey_def
  DeploymentDeployedAtKey_def DeploymentDeployedByKey_def DeploymentEventIDKey_def

type_synonym attribute = "string \<times> string"

text \<open>The closure \<open>add\<close>, applied to the attributes collected so far.\<close>

definition add_attribute :: "attribute \<Rightarrow> attribute list \<Rightarrow> attribute list" where
  "add_attribute kv attrs = (if snd kv \<noteq> [] then attrs @ [kv] else attrs)"

definition attribute_candidates :: "deployment \<Rightarrow> attribute list" where
  "attribute_candidates d =
     (let ident = (if dep_ID d = [] then dep_EventID d else dep_ID d)
      in [(DeploymentIDKey, ident),
          (DeploymentVersionKey, dep_Version d),
          (DeploymentCommitKey, dep_CommitSha d),
          (DeploymentEnvironmentKey, dep_Environment d),
          (DeploymentPipelineIDKey, dep_PipelineID d),
          (DeploymentRepositoryKey, dep_Repository d),
          (DeploymentBranchKey, dep_Branch d)] @
         (if \<not> IsZero (dep_DeployedAt d)
          then [(DeploymentDeployedAtKey, FormatRFC3339 (UTC (dep_DeployedAt d)))] else []) @
         [(DeploymentDeployedByKey, dep_DeployedBy d),
          (DeploymentEventIDKey, dep_EventID d)])"

definition Attributes :: "deployment option \<Rightarrow> attribute list" where
  "Attributes od =
     (case od of None \<Rightarrow> [] | Some d \<Rightarrow> fold add_attribute (attribute_candidates d) [])"

lemma fold_add_attribute: "fold add_attribute kvs acc = acc @ filter (\<lambda>kv. snd kv \<noteq> []) kvs"
  by (induction kvs arbitrary: acc) (auto simp: add_attribute_def)

lemma Attributes_filter: "Attributes (Some d) = filter (\<lambda>kv. snd kv \<noteq> []) (attribute_candidates d)"
  by (simp add: Attributes_def fold_add_attribute)

lemma candidates_distinct: "distinct (map fst (attribute_candidates d))"
  by (simp add: attribute_candidates_def attribute_keys Let_def)

lemma map_of_nonempty:
  "distinct (map fst kvs) \<Longrightarrow> map_of (filter (\<lambda>kv. snd kv \<noteq> []) kvs) k =
     (case map_of kvs k of Some v \<Rightarrow> if v = [] then None else Some v | None \<Rightarrow> None)"
  by (induction kvs) (auto simp: map_of_eq_None_iff split: option.splits)

lemma distinct_attributes: "distinct (map fst (Attributes (Some d)))"
  unfolding Attributes_filter by (rule distinct_map_filter [OF candidates_distinct])

text \<open>
  The documented table of the span attributes (\<open>README.md\<close>), over the fields of a deployment: the
  value a deployment gives a key, empty when it gives none.
\<close>

definition attribute_value :: "deployment \<Rightarrow> string \<Rightarrow> string" where
  "attribute_value d k =
     (if k = ''deployment.id'' then (if dep_ID d \<noteq> [] then dep_ID d else dep_EventID d)
      else if k = ''deployment.version'' then dep_Version d
      else if k = ''deployment.commit'' then dep_CommitSha d
      else if k = ''deployment.environment'' then dep_Environment d
      else if k = ''deployment.pipeline_id'' then dep_PipelineID d
      else if k = ''deployment.repository'' then dep_Repository d
      else if k = ''deployment.branch'' then dep_Branch d
      else if k = ''deployment.deployed_at'' then
        (if gt_ns (dep_DeployedAt d) = 0 then [] else FormatRFC3339 (UTC (dep_DeployedAt d)))
      else if k = ''deployment.deployed_by'' then dep_DeployedBy d
      else if k = ''deployment.event_id'' then dep_EventID d
      else [])"

definition attribute_key_names :: "string list" where
  "attribute_key_names =
     [''deployment.id'', ''deployment.version'', ''deployment.commit'', ''deployment.environment'',
      ''deployment.pipeline_id'', ''deployment.repository'', ''deployment.branch'',
      ''deployment.deployed_at'', ''deployment.deployed_by'', ''deployment.event_id'']"

lemma attribute_value_other: "k \<notin> set attribute_key_names \<Longrightarrow> attribute_value d k = []"
  by (simp add: attribute_key_names_def attribute_value_def)

lemma attribute_candidates_other:
  "k \<notin> set attribute_key_names \<Longrightarrow> map_of (attribute_candidates d) k = None"
  by (auto simp: attribute_key_names_def map_of_eq_None_iff attribute_candidates_def attribute_keys Let_def)

lemma attribute_key_names_prefix: "list_all (has_prefix ''deployment.'') attribute_key_names"
  by code_simp

lemma attribute_value_prefix: "\<not> has_prefix ''deployment.'' k \<Longrightarrow> attribute_value d k = []"
  using attribute_key_names_prefix attribute_value_other [of k d] by (auto simp: list_all_iff)

lemma attribute_candidates_value:
  "(case map_of (attribute_candidates d) k of None \<Rightarrow> [] | Some v \<Rightarrow> v) = attribute_value d k"
proof (cases "k \<in> set attribute_key_names")
  case True
  then show ?thesis
    unfolding attribute_key_names_def set_simps
    by (elim insertE emptyE)
      (simp_all add: attribute_candidates_def attribute_keys attribute_value_def Let_def go_simps)
qed (simp add: attribute_value_other attribute_candidates_other)

lemma attributes_lookup:
  "map_of (Attributes (Some d)) k =
     (if attribute_value d k = [] then None else Some (attribute_value d k))"
  unfolding Attributes_filter map_of_nonempty [OF candidates_distinct]
    attribute_candidates_value [symmetric]
  by (simp split: option.splits)

text \<open>
  C29. The attributes of a deployment are exactly the non-empty entries of the table: for every
  key, one of the ten or not, the value is the one of its field (the identifier falling back to
  the event id, the time written as RFC 3339 in UTC and absent when it is zero), and a key whose
  field is empty is left out. No key occurs twice, and there are none for no deployment.
\<close>

theorem Attributes_spec:
  "distinct (map fst (Attributes (Some d))) \<and>
   (\<forall>k v. (k, v) \<in> set (Attributes (Some d)) \<longleftrightarrow> v \<noteq> [] \<and> v = attribute_value d k) \<and>
   Attributes None = []"
proof -
  have "(k, v) \<in> set (Attributes (Some d)) \<longleftrightarrow> map_of (Attributes (Some d)) k = Some v" for k v
    using distinct_attributes by (rule map_of_eq_Some_iff [symmetric])
  then show ?thesis
    unfolding attributes_lookup by (auto simp: distinct_attributes Attributes_def [of None])
qed

end
