(* ===== verification/Cached_Resolver.thy ===== *)
theory Cached_Resolver
  imports Deployment_Resolver
begin

text \<open>
  The time-bounded cache of \<open>pkg/otelbridge/resolver.go\<close>: its sequential behaviour over any
  resolver, and its concurrent behaviour. \<open>ResolveDeployment\<close> holds the lock only to read and to
  write the map, so concurrently it is two atomic steps around a call of the inner resolver.
\<close>

section \<open>State\<close>

record cacheEntry =
  entry_deployment :: "deployment option"
  entry_err :: "gerror option"
  expiresAt :: gotime

record CachedResolver =
  cacheTTL :: duration
  negativeTTL :: duration
  entries :: "(string, cacheEntry) gomap"

definition DefaultCacheTTL :: duration where
  "DefaultCacheTTL = 30 * second"

definition DefaultNegativeTTL :: duration where
  "DefaultNegativeTTL = 10 * second"

type_synonym CacheOption = "CachedResolver \<Rightarrow> CachedResolver"

definition WithCacheTTL :: "duration \<Rightarrow> CacheOption" where
  "WithCacheTTL ttl r = (if 0 < ttl then r\<lparr>cacheTTL := ttl\<rparr> else r)"

definition WithNegativeCacheTTL :: "duration \<Rightarrow> CacheOption" where
  "WithNegativeCacheTTL ttl r = (if 0 < ttl then r\<lparr>negativeTTL := ttl\<rparr> else r)"

definition NewCachedResolver :: "CacheOption list \<Rightarrow> CachedResolver" where
  "NewCachedResolver opts =
     fold (\<lambda>opt r. opt r) opts
       \<lparr>cacheTTL = DefaultCacheTTL, negativeTTL = DefaultNegativeTTL, entries = []\<rparr>"

section \<open>Operations\<close>

definition store_entry :: "string \<Rightarrow> cacheEntry \<Rightarrow> CachedResolver \<Rightarrow> CachedResolver" where
  "store_entry service entry r = r\<lparr>entries := AList.update service entry (entries r)\<rparr>"

definition Invalidate :: "string \<Rightarrow> CachedResolver \<Rightarrow> CachedResolver" where
  "Invalidate service r = r\<lparr>entries := AList.delete service (entries r)\<rparr>"

definition Reset :: "CachedResolver \<Rightarrow> CachedResolver" where
  "Reset r = r\<lparr>entries := []\<rparr>"

text \<open>The first locked section and the test after it: the answer of a fresh entry.\<close>

definition fresh_answer :: "gotime \<Rightarrow> cacheEntry option \<Rightarrow> answer option" where
  "fresh_answer now seen =
     (case seen of
        None \<Rightarrow> None
      | Some entry \<Rightarrow>
          if Before now (expiresAt entry) then Some (entry_deployment entry, entry_err entry) else None)"

text \<open>The part after the call of the inner resolver, given the entry seen before it.\<close>

definition finish_lookup ::
  "gotime \<Rightarrow> string \<Rightarrow> cacheEntry option \<Rightarrow> answer \<Rightarrow> CachedResolver \<Rightarrow> answer \<times> CachedResolver" where
  "finish_lookup now service seen inner r =
     (case inner of
        (deployment, None) \<Rightarrow>
          (inner, store_entry service
             \<lparr>entry_deployment = deployment, entry_err = None, expiresAt = Add now (cacheTTL r)\<rparr> r)
      | (deployment, Some err) \<Rightarrow>
          if errors_is err ErrBridgeNotFound then
            (inner, store_entry service
               \<lparr>entry_deployment = None, entry_err = Some ErrBridgeNotFound,
                expiresAt = Add now (negativeTTL r)\<rparr> r)
          else
            (case seen of
               Some entry \<Rightarrow> if entry_err entry = None then ((entry_deployment entry, None), r) else (inner, r)
             | None \<Rightarrow> (inner, r)))"

definition Cached_ResolveDeployment ::
  "'r resolver \<Rightarrow> gotime \<Rightarrow> ctx \<Rightarrow> string \<Rightarrow> CachedResolver \<times> 'r \<Rightarrow> answer \<times> CachedResolver \<times> 'r" where
  "Cached_ResolveDeployment resolve now ctx service s =
     (let seen = map_of (entries (fst s)) service
      in case fresh_answer now seen of
           Some a \<Rightarrow> (a, s)
         | None \<Rightarrow>
             (let (inner, s') = resolve ctx service (snd s);
                  (a, r) = finish_lookup now service seen inner (fst s)
              in (a, r, s')))"

section \<open>The entries are well formed\<close>

definition entry_ok :: "string \<Rightarrow> cacheEntry \<Rightarrow> bool" where
  "entry_ok service e \<longleftrightarrow>
     (case entry_deployment e of
        Some d \<Rightarrow> entry_err e = None \<and> dep_Service d = service
      | None \<Rightarrow> entry_err e = Some ErrBridgeNotFound)"

definition cache_ok :: "CachedResolver \<Rightarrow> bool" where
  "cache_ok r \<longleftrightarrow> gomap_ok (entries r) \<and> (\<forall>svc e. map_of (entries r) svc = Some e \<longrightarrow> entry_ok svc e)"

definition answer_ok :: "string \<Rightarrow> answer \<Rightarrow> bool" where
  "answer_ok service a \<longleftrightarrow>
     (case a of (Some d, oe) \<Rightarrow> oe = None \<and> dep_Service d = service | (None, oe) \<Rightarrow> oe \<noteq> None)"

lemma cache_ok_new: "cache_ok \<lparr>cacheTTL = t, negativeTTL = n, entries = []\<rparr>"
  by (simp add: cache_ok_def)

lemma cache_ok_option:
  "cache_ok r \<Longrightarrow> cache_ok (WithCacheTTL ttl r)" "cache_ok r \<Longrightarrow> cache_ok (WithNegativeCacheTTL ttl r)"
  by (simp_all add: cache_ok_def WithCacheTTL_def WithNegativeCacheTTL_def)

lemma cache_ok_store: "cache_ok r \<Longrightarrow> entry_ok svc e \<Longrightarrow> cache_ok (store_entry svc e r)"
  by (auto simp: cache_ok_def store_entry_def)

lemma cache_ok_drop: "cache_ok r \<Longrightarrow> cache_ok (Invalidate svc r)" "cache_ok (Reset r)"
  by (auto simp: cache_ok_def Invalidate_def Reset_def)

lemma fresh_answer_ok:
  assumes "cache_ok r" and "fresh_answer now (map_of (entries r) svc) = Some a"
  shows "answer_ok svc a"
proof -
  from assms(2) obtain e where e: "map_of (entries r) svc = Some e" and a: "a = (entry_deployment e, entry_err e)"
    by (auto simp: fresh_answer_def split: option.splits if_splits)
  from assms(1) e have "entry_ok svc e" by (simp add: cache_ok_def)
  with a show ?thesis by (auto simp: entry_ok_def answer_ok_def split: option.splits)
qed

lemma finish_lookup_ok:
  assumes "cache_ok r" and "answer_ok svc inner" and "\<forall>e. seen = Some e \<longrightarrow> entry_ok svc e"
    and "finish_lookup now svc seen inner r = (a, r')"
  shows "cache_ok r' \<and> answer_ok svc a"
  using assms
  by (auto simp: finish_lookup_def answer_ok_def entry_ok_def intro!: cache_ok_store
      split: option.splits prod.splits if_splits)

text \<open>A cache over a resolver that honours the contract honours it again.\<close>

context resolver_contract
begin

lemma cached_contract:
  "resolver_contract (Cached_ResolveDeployment resolve now) (\<lambda>s. cache_ok (fst s) \<and> inv (snd s))"
proof -
  have step: "cache_ok (fst s') \<and> inv (snd s') \<and> answer_ok svc a"
    if s: "cache_ok (fst s) \<and> inv (snd s)" and r: "Cached_ResolveDeployment resolve now ctx svc s = (a, s')"
    for s ctx svc a s'
  proof (cases "fresh_answer now (map_of (entries (fst s)) svc)")
    case (Some b)
    with r s fresh_answer_ok [of "fst s" now svc b] show ?thesis
      by (simp add: Cached_ResolveDeployment_def Let_def)
  next
    case None
    obtain inner t where i: "resolve ctx svc (snd s) = (inner, t)" by fastforce
    obtain b c where f: "finish_lookup now svc (map_of (entries (fst s)) svc) inner (fst s) = (b, c)"
      by fastforce
    have "answer_ok svc inner"
      using exclusive [of "snd s" ctx svc "fst inner" "snd inner" t] of_service [of "snd s" ctx svc _ "snd inner" t] s i
      by (cases inner) (auto simp: answer_ok_def split: option.splits)
    moreover have "\<forall>e. map_of (entries (fst s)) svc = Some e \<longrightarrow> entry_ok svc e"
      using s by (simp add: cache_ok_def)
    ultimately have "cache_ok c \<and> answer_ok svc b"
      using finish_lookup_ok [OF _ _ _ f] s by blast
    moreover have "inv t" using keeps_inv [of "snd s" ctx svc "fst inner" "snd inner" t] s i by simp
    ultimately show ?thesis
      using r None i f by (auto simp: Cached_ResolveDeployment_def Let_def)
  qed
  show ?thesis
  proof
    fix s ctx svc od oe s'
    assume s: "cache_ok (fst s) \<and> inv (snd s)"
    assume "Cached_ResolveDeployment resolve now ctx svc s = ((od, oe), s')"
    from step [OF s this] show "cache_ok (fst s') \<and> inv (snd s')" and "od = None \<longleftrightarrow> oe \<noteq> None"
      by (auto simp: answer_ok_def split: option.splits)
  next
    fix s ctx svc d oe s'
    assume s: "cache_ok (fst s) \<and> inv (snd s)"
    assume "Cached_ResolveDeployment resolve now ctx svc s = ((Some d, oe), s')"
    from step [OF s this] show "dep_Service d = svc" by (simp add: answer_ok_def)
  qed
qed

end

interpretation mem_cached: resolver_contract
    "Cached_ResolveDeployment (StorageResolver_ResolveDeployment (MemoryStorage stored_order)) now"
    "\<lambda>s. cache_ok (fst s) \<and> memory_plain (snd s)" for now
  by (rule mem_resolver.cached_contract)

section \<open>Sequential properties\<close>

text \<open>The two kinds of inner answer that are kept, with the entry made of them.\<close>

definition kept_entry :: "CachedResolver \<Rightarrow> gotime \<Rightarrow> answer \<Rightarrow> cacheEntry option" where
  "kept_entry r start inner =
     (case snd inner of
        None \<Rightarrow> Some \<lparr>entry_deployment = fst inner, entry_err = None, expiresAt = Add start (cacheTTL r)\<rparr>
      | Some err \<Rightarrow>
          if errors_is err ErrBridgeNotFound
          then Some \<lparr>entry_deployment = None, entry_err = Some ErrBridgeNotFound,
                  expiresAt = Add start (negativeTTL r)\<rparr>
          else None)"

lemma finish_lookup_kept:
  "kept_entry r start inner = Some e \<Longrightarrow>
     finish_lookup start svc seen inner r = (inner, store_entry svc e r)"
  by (auto simp: kept_entry_def finish_lookup_def split: option.splits if_splits prod.splits)

lemma finish_lookup_not_kept:
  "kept_entry r start inner = None \<Longrightarrow>
     finish_lookup start svc seen inner r =
       ((case seen of
           Some e \<Rightarrow> if entry_err e = None then (entry_deployment e, None) else inner
         | None \<Rightarrow> inner), r)"
  by (auto simp: kept_entry_def finish_lookup_def split: option.splits if_splits prod.splits)

text \<open>
  C27. An answer that was fetched is served from the cache, without the inner resolver, until its
  time to live has passed: the deployment for the cache's, a not-found for the negative one; and
  the entries of other services are not affected.
\<close>

theorem cached_within_ttl:
  assumes "fresh_answer t (map_of (entries r) svc) = None"
    and "resolve ctx svc w = (inner, w1)"
    and "kept_entry r t inner = Some e"
    and "Cached_ResolveDeployment resolve t ctx svc (r, w) = (a, r1, w2)"
    and "gt_ns t' < gt_ns t + (if snd inner = None then cacheTTL r else negativeTTL r)"
  shows "a = inner \<and> w2 = w1 \<and>
    Cached_ResolveDeployment resolve' t' ctx' svc (r1, w') =
      ((entry_deployment e, entry_err e), r1, w') \<and>
    (\<forall>other. other \<noteq> svc \<longrightarrow> map_of (entries r1) other = map_of (entries r) other)"
proof -
  note f = finish_lookup_kept [OF assms(3), of svc "map_of (entries r) svc"]
  from assms(1,2,4) have "a = inner" "w2 = w1" and r1: "r1 = store_entry svc e r"
    by (simp_all add: Cached_ResolveDeployment_def f Let_def)
  moreover have "Before t' (expiresAt e)"
    using assms(3,5) by (auto simp: kept_entry_def go_simps Add_def split: option.splits if_splits)
  then have "fresh_answer t' (map_of (entries r1) svc) = Some (entry_deployment e, entry_err e)"
    by (simp add: r1 store_entry_def fresh_answer_def)
  moreover have "\<forall>other. other \<noteq> svc \<longrightarrow> map_of (entries r1) other = map_of (entries r) other"
    by (simp add: r1 store_entry_def)
  ultimately show ?thesis
    by (simp add: Cached_ResolveDeployment_def)
qed

text \<open>A resolver that always fails and counts its calls, and one that finds what a map holds.\<close>

definition failing_resolver :: "gerror \<Rightarrow> nat resolver" where
  "failing_resolver err ctx service n = ((None, Some err), Suc n)"

definition map_resolver :: "(string \<Rightarrow> deployment option) resolver" where
  "map_resolver ctx service m =
     ((case m service of Some d \<Rightarrow> (Some d, None) | None \<Rightarrow> (None, Some ErrBridgeNotFound)), m)"

theorem cached_within_ttl_witness:
  "Cached_ResolveDeployment map_resolver \<lparr>gt_ns = 29 * second, gt_off = 0\<rparr> None ''api''
     (fst (snd (Cached_ResolveDeployment map_resolver zero_time None ''api''
        (NewCachedResolver [], [''api'' \<mapsto> sample_deployment ''api'' ''prod'' ''1'' 5]))), Map.empty) =
   ((Some (sample_deployment ''api'' ''prod'' ''1'' 5), None),
    fst (snd (Cached_ResolveDeployment map_resolver zero_time None ''api''
        (NewCachedResolver [], [''api'' \<mapsto> sample_deployment ''api'' ''prod'' ''1'' 5]))), Map.empty)"
proof -
  let ?d = "sample_deployment ''api'' ''prod'' ''1'' 5" and ?r = "NewCachedResolver []"
  let ?e = "\<lparr>entry_deployment = Some ?d, entry_err = None, expiresAt = Add zero_time (cacheTTL ?r)\<rparr>"
  obtain a r1 w2 where c: "Cached_ResolveDeployment map_resolver zero_time None ''api'' (?r, [''api'' \<mapsto> ?d]) =
      (a, r1, w2)" by (metis prod.collapse)
  have "fresh_answer zero_time (map_of (entries ?r) ''api'') = None"
    by (simp add: fresh_answer_def NewCachedResolver_def)
  moreover have "map_resolver None ''api'' [''api'' \<mapsto> ?d] = ((Some ?d, None), [''api'' \<mapsto> ?d])"
    by (simp add: map_resolver_def)
  moreover have "kept_entry ?r zero_time (Some ?d, None) = Some ?e"
    by (simp add: kept_entry_def)
  moreover have "29 * second < gt_ns zero_time + cacheTTL ?r"
    by (simp add: NewCachedResolver_def DefaultCacheTTL_def second_def zero_time_def)
  ultimately show ?thesis
    using cached_within_ttl [OF _ _ _ c, of "(Some ?d, None)" "[''api'' \<mapsto> ?d]" ?e
        "\<lparr>gt_ns = 29 * second, gt_off = 0\<rparr>" map_resolver None Map.empty]
    by (simp add: c)
qed

text \<open>
  A failure other than not-found is never cached: while a resolver fails and no answer is
  kept, every single lookup of a service calls it again.
\<close>

theorem failures_not_cached:
  assumes "map_of (entries r) svc = None" and "\<not> errors_is err ErrBridgeNotFound"
  shows "foldl (\<lambda>s t. snd (Cached_ResolveDeployment (failing_resolver err) t ctx svc s)) (r, n) ts =
    (r, n + length ts)"
  using assms
proof (induction ts arbitrary: n)
  case (Cons t ts)
  have "Cached_ResolveDeployment (failing_resolver err) t ctx svc (r, n) = ((None, Some err), r, Suc n)"
    using assms
    by (simp add: Cached_ResolveDeployment_def fresh_answer_def failing_resolver_def finish_lookup_def)
  with Cons show ?case by simp
qed simp

theorem failures_not_cached_witness:
  "snd (foldl (\<lambda>s t. snd (Cached_ResolveDeployment (failing_resolver (ErrLib ''connection refused''))
       t None ''api'' s)) (NewCachedResolver [], 0) [zero_time, zero_time, zero_time]) = 3"
  by (subst failures_not_cached) (simp_all add: NewCachedResolver_def)

text \<open>
  While the inner resolver fails, an expired deployment is still answered, without an error,
  and the cache is left as it is, so that it is answered again on the next failure; an expired
  not-found is answered with the failure.
\<close>

theorem stale_on_error:
  assumes "cache_ok r" and "map_of (entries r) svc = Some e" and "\<not> Before t (expiresAt e)"
    and "resolve ctx svc w = ((od, Some err), w1)" and "\<not> errors_is err ErrBridgeNotFound"
  shows "Cached_ResolveDeployment resolve t ctx svc (r, w) =
    (case entry_deployment e of
       Some d \<Rightarrow> ((Some d, None), r, w1)
     | None \<Rightarrow> ((od, Some err), r, w1))"
proof -
  have "entry_ok svc e" using assms(1,2) by (simp add: cache_ok_def)
  moreover have "kept_entry r t (od, Some err) = None" using assms(5) by (simp add: kept_entry_def)
  ultimately show ?thesis
    using assms(2-4)
    by (auto simp: Cached_ResolveDeployment_def fresh_answer_def finish_lookup_not_kept entry_ok_def
        split: option.splits)
qed

definition sample_cache :: CachedResolver where
  "sample_cache =
     \<lparr>cacheTTL = DefaultCacheTTL, negativeTTL = DefaultNegativeTTL,
      entries = [(''api'', \<lparr>entry_deployment = Some (sample_deployment ''api'' ''prod'' ''1'' 5),
        entry_err = None, expiresAt = \<lparr>gt_ns = 30 * second, gt_off = 0\<rparr>\<rparr>)]\<rparr>"

theorem stale_on_error_witness:
  "fst (Cached_ResolveDeployment (failing_resolver (ErrLib ''timeout''))
     \<lparr>gt_ns = 31 * second, gt_off = 0\<rparr> None ''api'' (sample_cache, 0)) =
   (Some (sample_deployment ''api'' ''prod'' ''1'' 5), None)"
proof -
  let ?e = "\<lparr>entry_deployment = Some (sample_deployment ''api'' ''prod'' ''1'' 5),
        entry_err = None, expiresAt = \<lparr>gt_ns = 30 * second, gt_off = 0\<rparr>\<rparr>"
  have "dep_Service (sample_deployment ''api'' ''prod'' ''1'' 5) = ''api''"
    by (simp add: sample_deployment_def)
  then have ok: "cache_ok sample_cache" and e: "map_of (entries sample_cache) ''api'' = Some ?e"
    by (simp_all add: cache_ok_def gomap_ok_def entry_ok_def sample_cache_def)
  have t: "\<not> Before \<lparr>gt_ns = 31 * second, gt_off = 0\<rparr> (expiresAt ?e)"
    by (simp add: Before_def second_def)
  have f: "failing_resolver (ErrLib ''timeout'') None ''api'' 0 = ((None, Some (ErrLib ''timeout'')), 1)"
    by (simp add: failing_resolver_def)
  have nf: "\<not> errors_is (ErrLib ''timeout'') ErrBridgeNotFound" by simp
  show ?thesis
    using stale_on_error [where resolve = "failing_resolver (ErrLib ''timeout'')", OF ok e t f nf] by simp
qed

section \<open>Concurrent lookups\<close>

text \<open>
  A lookup that missed is in flight between its two locked sections: it has read the clock and
  the entry, and has called the inner resolver. Any number of lookups of any goroutines
  interleave with invalidations and resets.
\<close>

record flight =
  fl_service :: string
  fl_start :: gotime
  fl_seen :: "cacheEntry option"

record cache_state =
  cs_cache :: CachedResolver
  cs_flights :: "nat \<Rightarrow> flight option"

datatype cache_label =
    Hit string gotime answer
  | Miss nat string gotime
  | Finish nat string gotime answer answer
  | Invalidated string
  | Was_Reset

inductive cache_step :: "cache_state \<Rightarrow> cache_label \<Rightarrow> cache_state \<Rightarrow> bool" where
  hit: "fresh_answer now (map_of (entries (cs_cache s)) svc) = Some a \<Longrightarrow> cache_step s (Hit svc now a) s"
| miss: "fresh_answer now (map_of (entries (cs_cache s)) svc) = None \<Longrightarrow> cs_flights s tid = None \<Longrightarrow>
    cache_step s (Miss tid svc now)
      (s\<lparr>cs_flights := (cs_flights s)(tid \<mapsto>
         \<lparr>fl_service = svc, fl_start = now, fl_seen = map_of (entries (cs_cache s)) svc\<rparr>)\<rparr>)"
| finish: "cs_flights s tid = Some f \<Longrightarrow>
    finish_lookup (fl_start f) (fl_service f) (fl_seen f) inner (cs_cache s) = (a, r) \<Longrightarrow>
    cache_step s (Finish tid (fl_service f) (fl_start f) inner a)
      (s\<lparr>cs_cache := r, cs_flights := (cs_flights s)(tid := None)\<rparr>)"
| invalidate: "cache_step s (Invalidated svc) (s\<lparr>cs_cache := Invalidate svc (cs_cache s)\<rparr>)"
| reset: "cache_step s Was_Reset (s\<lparr>cs_cache := Reset (cs_cache s)\<rparr>)"

inductive_cases cache_step_finishE: "cache_step s (Finish tid svc start inner a) s'"
inductive_simps cache_step_hit: "cache_step s (Hit svc now a) s'"

definition cache_start :: "duration \<Rightarrow> duration \<Rightarrow> cache_state" where
  "cache_start ttl neg =
     \<lparr>cs_cache = \<lparr>cacheTTL = ttl, negativeTTL = neg, entries = []\<rparr>, cs_flights = \<lambda>_. None\<rparr>"

inductive cache_run :: "duration \<Rightarrow> duration \<Rightarrow> cache_label list \<Rightarrow> cache_state \<Rightarrow> bool"
  for ttl neg where
  run_start: "cache_run ttl neg [] (cache_start ttl neg)"
| run_step: "cache_run ttl neg tr s \<Longrightarrow> cache_step s l s' \<Longrightarrow> cache_run ttl neg (tr @ [l]) s'"

text \<open>An entry is justified by a finished lookup of its service that fetched it.\<close>

definition justified :: "CachedResolver \<Rightarrow> cache_label list \<Rightarrow> string \<Rightarrow> cacheEntry \<Rightarrow> bool" where
  "justified r tr svc e \<longleftrightarrow>
     (\<exists>tid start inner a. Finish tid svc start inner a \<in> set tr \<and> kept_entry r start inner = Some e)"

lemma kept_entry_ttl:
  "cacheTTL r = cacheTTL r' \<Longrightarrow> negativeTTL r = negativeTTL r' \<Longrightarrow> kept_entry r = kept_entry r'"
  by (intro ext) (simp add: kept_entry_def split: option.splits)

lemma justified_mono:
  "justified r tr svc e \<Longrightarrow> cacheTTL r = cacheTTL r' \<Longrightarrow> negativeTTL r = negativeTTL r' \<Longrightarrow>
   set tr \<subseteq> set tr' \<Longrightarrow> justified r' tr' svc e"
  unfolding justified_def using kept_entry_ttl [of r r'] by (metis subsetD)

definition run_inv :: "duration \<Rightarrow> duration \<Rightarrow> cache_label list \<Rightarrow> cache_state \<Rightarrow> bool" where
  "run_inv ttl neg tr s \<longleftrightarrow>
     cacheTTL (cs_cache s) = ttl \<and> negativeTTL (cs_cache s) = neg \<and> gomap_ok (entries (cs_cache s)) \<and>
     (\<forall>svc e. map_of (entries (cs_cache s)) svc = Some e \<longrightarrow> justified (cs_cache s) tr svc e) \<and>
     (\<forall>tid f e. cs_flights s tid = Some f \<and> fl_seen f = Some e \<longrightarrow>
        justified (cs_cache s) tr (fl_service f) e)"

lemma justified_snoc: "justified r tr svc e \<Longrightarrow> justified r (tr @ [l]) svc e"
  by (rule justified_mono) auto

lemma run_invD:
  assumes "run_inv ttl neg tr s"
  shows "map_of (entries (cs_cache s)) svc = Some e \<Longrightarrow> justified (cs_cache s) (tr @ [l]) svc e"
    and "cs_flights s tid = Some f \<Longrightarrow> fl_seen f = Some e \<Longrightarrow>
      justified (cs_cache s) (tr @ [l]) (fl_service f) e"
  using assms by (auto simp: run_inv_def intro: justified_snoc)

lemma run_invI:
  assumes "run_inv ttl neg tr s" and "cacheTTL (cs_cache s') = cacheTTL (cs_cache s)"
    and "negativeTTL (cs_cache s') = negativeTTL (cs_cache s)" and "gomap_ok (entries (cs_cache s'))"
    and "\<And>svc e. map_of (entries (cs_cache s')) svc = Some e \<Longrightarrow> justified (cs_cache s) (tr @ [l]) svc e"
    and "\<And>tid f e. cs_flights s' tid = Some f \<Longrightarrow> fl_seen f = Some e \<Longrightarrow>
      justified (cs_cache s) (tr @ [l]) (fl_service f) e"
  shows "run_inv ttl neg (tr @ [l]) s'"
proof -
  have "justified (cs_cache s') = justified (cs_cache s)"
    by (intro ext) (simp add: justified_def kept_entry_ttl [OF assms(2,3)])
  with assms show ?thesis by (auto simp: run_inv_def)
qed

lemma run_inv_step:
  assumes inv: "run_inv ttl neg tr s" and "cache_step s l s'"
  shows "run_inv ttl neg (tr @ [l]) s'"
  using assms(2)
proof cases
  case (hit now svc a)
  with inv show ?thesis
    by (intro run_invI [OF inv]) (auto dest: run_invD [OF inv] simp: run_inv_def)
next
  case (miss now svc tid)
  with inv show ?thesis
    by (intro run_invI [OF inv]) (auto dest: run_invD [OF inv] simp: run_inv_def split: if_splits)
next
  case (finish tid f inner a r)
  show ?thesis
  proof (cases "kept_entry (cs_cache s) (fl_start f) inner")
    case None
    with finish have "r = cs_cache s" by (simp add: finish_lookup_not_kept)
    with inv finish show ?thesis
      by (intro run_invI [OF inv]) (auto dest: run_invD [OF inv] simp: run_inv_def split: if_splits)
  next
    case (Some e)
    with finish have r: "r = store_entry (fl_service f) e (cs_cache s)"
      by (simp add: finish_lookup_kept)
    have "justified (cs_cache s) (tr @ [l]) (fl_service f) e"
      unfolding justified_def finish(1) using Some
      by (intro exI [of _ tid] exI [of _ "fl_start f"] exI [of _ inner] exI [of _ a]) simp
    with inv finish r show ?thesis
      by (intro run_invI [OF inv])
        (auto dest: run_invD [OF inv] simp: run_inv_def store_entry_def split: if_splits)
  qed
next
  case (invalidate svc)
  with inv show ?thesis
    by (intro run_invI [OF inv]) (auto dest: run_invD [OF inv] simp: run_inv_def Invalidate_def split: if_splits)
next
  case reset
  with inv show ?thesis
    by (intro run_invI [OF inv]) (auto dest: run_invD [OF inv] simp: run_inv_def Reset_def)
qed

lemma cache_run_inv: "cache_run ttl neg tr s \<Longrightarrow> run_inv ttl neg tr s"
proof (induction rule: cache_run.induct)
  case run_start
  show ?case by (simp add: run_inv_def cache_start_def)
next
  case (run_step tr s l s')
  then show ?case by (blast intro: run_inv_step)
qed

text \<open>
  C23. However lookups, invalidations and resets interleave, an answer served from the cache was
  fetched by an earlier lookup of the same service that started less than its time to live ago:
  the cache's for a deployment, the negative one for a not-found, and no other error is served.
\<close>

theorem cache_hits_justified:
  assumes "cache_run ttl neg tr s" and "cache_step s (Hit svc now a) s'"
  shows "s' = s \<and> (\<exists>tid start inner out. Finish tid svc start inner out \<in> set tr \<and>
    (case snd inner of
       None \<Rightarrow> a = (fst inner, None) \<and> gt_ns now < gt_ns start + ttl
     | Some err \<Rightarrow> errors_is err ErrBridgeNotFound \<and> a = (None, Some ErrBridgeNotFound) \<and>
         gt_ns now < gt_ns start + neg))"
proof -
  from assms(2) have s': "s' = s" and h: "fresh_answer now (map_of (entries (cs_cache s)) svc) = Some a"
    by (auto simp: cache_step_hit)
  from h obtain e where e: "map_of (entries (cs_cache s)) svc = Some e"
    "Before now (expiresAt e)" "a = (entry_deployment e, entry_err e)"
    by (auto simp: fresh_answer_def split: option.splits if_splits)
  note inv = cache_run_inv [OF assms(1)]
  then have ttl: "cacheTTL (cs_cache s) = ttl" "negativeTTL (cs_cache s) = neg"
    and "justified (cs_cache s) tr svc e"
    using e(1) by (auto simp: run_inv_def)
  then obtain tid start inner out
    where f: "Finish tid svc start inner out \<in> set tr" "kept_entry (cs_cache s) start inner = Some e"
    unfolding justified_def by blast
  have "case snd inner of
       None \<Rightarrow> a = (fst inner, None) \<and> gt_ns now < gt_ns start + ttl
     | Some err \<Rightarrow> errors_is err ErrBridgeNotFound \<and> a = (None, Some ErrBridgeNotFound) \<and>
         gt_ns now < gt_ns start + neg"
    using f(2) e(2,3) ttl
    by (auto simp: kept_entry_def go_simps Add_def split: option.splits if_splits)
  with s' f(1) show ?thesis by blast
qed

text \<open>A lookup that is in flight while its service is invalidated.\<close>

definition old_deployment :: deployment where
  "old_deployment = sample_deployment ''api'' ''prod'' ''1'' 5"

definition race_trace :: "cache_label list" where
  "race_trace =
     [Miss 0 ''api'' zero_time, Invalidated ''api'',
      Finish 0 ''api'' zero_time (Some old_deployment, None) (Some old_deployment, None)]"

definition race_state :: cache_state where
  "race_state =
     (cache_start DefaultCacheTTL DefaultNegativeTTL)\<lparr>cs_cache :=
       \<lparr>cacheTTL = DefaultCacheTTL, negativeTTL = DefaultNegativeTTL,
        entries = [(''api'', \<lparr>entry_deployment = Some old_deployment, entry_err = None,
          expiresAt = Add zero_time DefaultCacheTTL\<rparr>)]\<rparr>\<rparr>"

lemma race_run: "cache_run DefaultCacheTTL DefaultNegativeTTL race_trace race_state"
proof -
  let ?s0 = "cache_start DefaultCacheTTL DefaultNegativeTTL"
  let ?f = "\<lparr>fl_service = ''api'', fl_start = zero_time, fl_seen = None\<rparr>"
  let ?s1 = "?s0\<lparr>cs_flights := [0 \<mapsto> ?f]\<rparr>"
  have 1: "cache_step ?s0 (Miss 0 ''api'' zero_time) ?s1"
    using cache_step.miss [of zero_time ?s0 "''api''" 0]
    by (simp add: cache_start_def fresh_answer_def)
  have 2: "cache_step ?s1 (Invalidated ''api'') ?s1"
    using cache_step.invalidate [of ?s1 "''api''"] by (simp add: cache_start_def Invalidate_def)
  have 3: "cache_step ?s1 (Finish 0 ''api'' zero_time (Some old_deployment, None) (Some old_deployment, None))
      race_state"
    using cache_step.finish [of ?s1 0 ?f "(Some old_deployment, None)" "(Some old_deployment, None)"]
    by (simp add: cache_start_def finish_lookup_def store_entry_def race_state_def)
  from run_step [OF run_step [OF run_step [OF run_start 1] 2] 3] show ?thesis
    by (simp add: race_trace_def)
qed

theorem cache_hits_justified_witness:
  "\<exists>tid start inner out. Finish tid ''api'' start inner out \<in> set race_trace \<and>
     gt_ns \<lparr>gt_ns = 3, gt_off = 0\<rparr> < gt_ns start + DefaultCacheTTL"
proof -
  have "cache_step race_state (Hit ''api'' \<lparr>gt_ns = 3, gt_off = 0\<rparr> (Some old_deployment, None)) race_state"
    by (rule cache_step.hit)
      (simp add: race_state_def fresh_answer_def Before_def Add_def zero_time_def DefaultCacheTTL_def second_def)
  from cache_hits_justified [OF race_run this] show ?thesis
    by (fastforce split: option.splits)
qed

text \<open>
  Invalidating a service does not reach a lookup that is in flight: when it ends, the answer
  fetched before the invalidation is stored again and served for the whole time to live.
\<close>

theorem invalidation_race:
  "\<exists>pre d s now. cache_run DefaultCacheTTL DefaultNegativeTTL
       (pre @ [Invalidated ''api'', Finish 0 ''api'' zero_time (Some d, None) (Some d, None)]) s \<and>
     Miss 0 ''api'' zero_time \<in> set pre \<and> gt_ns now = 29 * second \<and>
     cache_step s (Hit ''api'' now (Some d, None)) s"
proof -
  have "cache_step race_state (Hit ''api'' \<lparr>gt_ns = 29 * second, gt_off = 0\<rparr> (Some old_deployment, None))
      race_state"
    by (rule cache_step.hit)
      (simp add: race_state_def fresh_answer_def Before_def Add_def zero_time_def DefaultCacheTTL_def second_def)
  with race_run show ?thesis
    by (intro exI [of _ "[Miss 0 ''api'' zero_time]"] exI [of _ old_deployment] exI [of _ race_state]
        exI [of _ "\<lparr>gt_ns = 29 * second, gt_off = 0\<rparr>"]) (simp add: race_trace_def)
qed

end
