(* ===== verification/Span_Processor.thy ===== *)
theory Span_Processor
  imports Cached_Resolver
begin

text \<open>
  The span processor of \<open>pkg/otelbridge/processor.go\<close>. The span belongs to the OpenTelemetry SDK:
  its type and its two operations are parameters. A resource attribute is its key and the text
  \<open>AsString\<close> gives for its value.
\<close>

record 'p span_api =
  Resource :: "'p \<Rightarrow> attribute list option"
  SetAttributes :: "attribute list \<Rightarrow> 'p \<Rightarrow> 'p"

record 'r SpanProcessor =
  sp_resolver :: "'r resolver option"
  sp_serviceName :: string
  sp_timeout :: duration

definition DefaultLookupTimeout :: duration where
  "DefaultLookupTimeout = 500 * 10 ^ 6"

type_synonym 'r ProcessorOption = "'r SpanProcessor \<Rightarrow> 'r SpanProcessor"

definition WithServiceName :: "string \<Rightarrow> 'r ProcessorOption" where
  "WithServiceName name p = p\<lparr>sp_serviceName := name\<rparr>"

definition WithLookupTimeout :: "duration \<Rightarrow> 'r ProcessorOption" where
  "WithLookupTimeout timeout p = (if 0 < timeout then p\<lparr>sp_timeout := timeout\<rparr> else p)"

definition NewSpanProcessor :: "'r resolver option \<Rightarrow> 'r ProcessorOption list \<Rightarrow> 'r SpanProcessor" where
  "NewSpanProcessor resolver opts =
     fold (\<lambda>opt p. opt p) opts
       \<lparr>sp_resolver = resolver, sp_serviceName = [], sp_timeout = DefaultLookupTimeout\<rparr>"

definition ServiceNameKey :: string where
  "ServiceNameKey = ''service.name''"

fun find_service_name :: "attribute list \<Rightarrow> string" where
  "find_service_name [] = []"
| "find_service_name (attr # attrs) =
     (if fst attr = ServiceNameKey then snd attr else find_service_name attrs)"

definition serviceNameFromResource :: "'p span_api \<Rightarrow> 'p \<Rightarrow> string" where
  "serviceNameFromResource api span =
     (case Resource api span of None \<Rightarrow> [] | Some attrs \<Rightarrow> find_service_name attrs)"

text \<open>
  The lookup runs under a fresh context, detached from the one of the span; it is alive when the
  resolver is called.
\<close>

definition OnStart ::
  "'p span_api \<Rightarrow> 'r SpanProcessor \<Rightarrow> 'p option \<Rightarrow> 'r \<Rightarrow> 'p option \<times> 'r" where
  "OnStart api p ospan s =
     (case (sp_resolver p, ospan) of
        (Some resolve, Some span) \<Rightarrow>
          let service =
                (if sp_serviceName p = [] then serviceNameFromResource api span else sp_serviceName p)
          in if service = [] then (ospan, s)
             else
               (case resolve None service s of
                  ((deployment, Some err), s') \<Rightarrow> (ospan, s')
                | ((deployment, None), s') \<Rightarrow>
                    (Some (SetAttributes api (Attributes deployment) span), s'))
      | _ \<Rightarrow> (ospan, s))"

definition OnEnd :: "'p \<Rightarrow> 'p" where
  "OnEnd span = span"

definition processor_Shutdown :: "ctx \<Rightarrow> gerror option" where
  "processor_Shutdown ctx = None"

definition ForceFlush :: "ctx \<Rightarrow> gerror option" where
  "ForceFlush ctx = None"

lemma find_service_name_spec:
  "find_service_name attrs = (case map_of attrs ServiceNameKey of Some v \<Rightarrow> v | None \<Rightarrow> [])"
  by (induction attrs) auto

text \<open>
  The service a span is taken to belong to: the one the processor was given, and otherwise what
  the resource of the span, if it has one, gives as \<open>service.name\<close>.
\<close>

definition span_service :: "'p span_api \<Rightarrow> 'r SpanProcessor \<Rightarrow> 'p \<Rightarrow> string" where
  "span_service api p span =
     (if sp_serviceName p \<noteq> [] then sp_serviceName p
      else case Resource api span of
        None \<Rightarrow> []
      | Some attrs \<Rightarrow> (case map_of attrs ''service.name'' of None \<Rightarrow> [] | Some name \<Rightarrow> name))"

lemma span_service_code:
  "span_service api p span =
     (if sp_serviceName p = [] then serviceNameFromResource api span else sp_serviceName p)"
  by (simp add: span_service_def serviceNameFromResource_def find_service_name_spec ServiceNameKey_def
      split: option.split)

context resolver_contract
begin

lemma OnStart_cases:
  assumes "inv s" and "sp_resolver p = Some resolve" and "OnStart api p (Some span) s = (out, s')"
  obtains (none) "span_service api p span = []" "out = Some span" "s' = s"
  | (failed) err where "span_service api p span \<noteq> []"
      "resolve None (span_service api p span) s = ((None, Some err), s')" "out = Some span"
  | (found) d where "span_service api p span \<noteq> []" "dep_Service d = span_service api p span"
      "resolve None (span_service api p span) s = ((Some d, None), s')"
      "out = Some (SetAttributes api (Attributes (Some d)) span)"
proof (cases "span_service api p span = []")
  case True
  with assms(2,3) none show ?thesis by (auto simp: OnStart_def span_service_code Let_def)
next
  case False
  obtain a t where r: "resolve None (span_service api p span) s = (a, t)" by fastforce
  show ?thesis
  proof (rule answer_cases [OF assms(1) r])
    fix d assume "a = (Some d, None)" "dep_Service d = span_service api p span"
    with r False assms(2,3) found [of d] show ?thesis
      by (auto simp: OnStart_def span_service_code Let_def)
  next
    fix err assume "a = (None, Some err)"
    with r False assms(2,3) failed [of err] show ?thesis
      by (auto simp: OnStart_def span_service_code Let_def)
  qed
qed

end

text \<open>
  The deployment a span of a service is to show: the one of the cache entry, if there is one that
  has not expired (none for an entry that stands for not-found), and otherwise the current
  deployment of the store.
\<close>

definition span_deployment ::
  "gotime \<Rightarrow> CachedResolver \<Rightarrow> memory \<Rightarrow> string \<Rightarrow> deployment option \<Rightarrow> bool" where
  "span_deployment now cache m svc od =
     (case map_of (entries cache) svc of
        Some e \<Rightarrow> if gt_ns now < gt_ns (expiresAt e) then od = entry_deployment e else newest_of m svc od
      | None \<Rightarrow> newest_of m svc od)"

lemma cached_resolver_deployment:
  assumes "cache_ok (fst s)" and "memory_plain (snd s)"
    and "Cached_ResolveDeployment (StorageResolver_ResolveDeployment (MemoryStorage stored_order)) now None svc s =
      ((od, oe), s')"
  shows "span_deployment now (fst s) (snd s) svc od \<and> snd s' = snd s"
proof -
  obtain ia ie m where i: "StorageResolver_ResolveDeployment (MemoryStorage stored_order) None svc (snd s) =
      ((ia, ie), m)" by (metis prod.collapse)
  from storage_resolver_newest [OF assms(2) i] assms(3) show ?thesis
    by (auto simp: Cached_ResolveDeployment_def fresh_answer_def span_deployment_def finish_lookup_def
        go_simps i split: option.splits if_splits)
qed

text \<open>
  C22. Starting a span over the cached storage resolver never fails and never loses the span. A
  span of no service is left alone. A span of a service is given exactly the attribute table of
  one deployment of that service: the one its unexpired cache entry holds, and without such an
  entry the newest deployment of the service in the store; every non-empty entry of the table is
  set, every other attribute of the span, deployment attributes without a value included, stays
  as it was. When the entry stands for not-found, or there is no entry and the service runs
  nowhere, the span is unchanged. The store is only read.
\<close>

theorem OnStart_enriches:
  fixes api :: "'p span_api" and attr :: "'p \<Rightarrow> string \<Rightarrow> string option"
  assumes set_attributes: "\<And>kvs span k. distinct (map fst kvs) \<Longrightarrow>
      attr (SetAttributes api kvs span) k =
        (case map_of kvs k of Some v \<Rightarrow> Some v | None \<Rightarrow> attr span k)"
    and "cache_ok (fst s)" and "memory_plain (snd s)"
    and "sp_resolver p = Some (Cached_ResolveDeployment
      (StorageResolver_ResolveDeployment (MemoryStorage stored_order)) now)"
    and "OnStart api p (Some span) s = (out, s')"
  shows "\<exists>span'. out = Some span' \<and> cache_ok (fst s') \<and> snd s' = snd s \<and>
    (\<forall>k. \<not> has_prefix ''deployment.'' k \<longrightarrow> attr span' k = attr span k) \<and>
    (if span_service api p span = [] then span' = span
     else \<exists>od. span_deployment now (fst s) (snd s) (span_service api p span) od \<and>
       (case od of
          None \<Rightarrow> span' = span
        | Some d \<Rightarrow> dep_Service d = span_service api p span \<and>
            (\<forall>k. attr span' k =
               (if attribute_value d k \<noteq> [] then Some (attribute_value d k) else attr span k))))"
proof (cases rule: mem_cached.OnStart_cases [OF conjI [OF assms(2,3)] assms(4,5)])
  case 1
  with assms(2,3) show ?thesis by auto
next
  case (2 err)
  with mem_cached.keeps_inv [OF conjI [OF assms(2,3)] 2(2)] cached_resolver_deployment [OF assms(2,3) 2(2)]
  show ?thesis by force
next
  case (3 d)
  let ?span = "SetAttributes api (Attributes (Some d)) span"
  have set: "attr ?span k = (if attribute_value d k \<noteq> [] then Some (attribute_value d k) else attr span k)" for k
    by (simp add: set_attributes [OF distinct_attributes] attributes_lookup)
  have "\<forall>k. \<not> has_prefix ''deployment.'' k \<longrightarrow> attr ?span k = attr span k"
    by (simp add: set attribute_value_prefix)
  with 3 set mem_cached.keeps_inv [OF conjI [OF assms(2,3)] 3(3)] cached_resolver_deployment [OF assms(2,3) 3(3)]
  show ?thesis by force
qed

text \<open>A span as its resource and a map of attributes, later values replacing earlier ones.\<close>

type_synonym map_span = "attribute list \<times> (string \<Rightarrow> string option)"

definition map_span_api :: "map_span span_api" where
  "map_span_api =
     \<lparr>Resource = \<lambda>sp. Some (fst sp),
      SetAttributes = \<lambda>kvs sp. (fst sp, \<lambda>k. case map_of kvs k of Some v \<Rightarrow> Some v | None \<Rightarrow> snd sp k)\<rparr>"

theorem OnStart_enriches_witness:
  "\<exists>span'. fst (OnStart map_span_api
       (NewSpanProcessor (Some (Cached_ResolveDeployment
          (StorageResolver_ResolveDeployment (MemoryStorage stored_order)) zero_time)) [])
       (Some ([(ServiceNameKey, ''api'')], Map.empty)) (NewCachedResolver [], run_saves sample_saves)) =
     Some span' \<and> snd span' DeploymentVersionKey = Some ''3''"
proof -
  let ?p = "NewSpanProcessor (Some (Cached_ResolveDeployment
      (StorageResolver_ResolveDeployment (MemoryStorage stored_order)) zero_time)) []"
  let ?s = "(NewCachedResolver [], run_saves sample_saves)" and ?sp = "([(ServiceNameKey, ''api'')], Map.empty)"
  obtain out s' where o: "OnStart map_span_api ?p (Some ?sp) ?s = (out, s')" by (rule prod.exhaust)
  have set: "snd (SetAttributes map_span_api kvs sp) k =
      (case map_of kvs k of Some v \<Rightarrow> Some v | None \<Rightarrow> snd sp k)" for kvs sp k
    by (simp add: map_span_api_def)
  have c: "cache_ok (fst ?s)" by (simp add: NewCachedResolver_def cache_ok_new)
  have m: "memory_plain (snd ?s)" using run_saves_state [OF sample_saves_plain] by simp
  have p: "sp_resolver ?p = Some (Cached_ResolveDeployment
      (StorageResolver_ResolveDeployment (MemoryStorage stored_order)) zero_time)"
    by (simp add: NewSpanProcessor_def)
  from OnStart_enriches [where attr = snd and api = map_span_api, OF set c m p o]
  obtain span' where "out = Some span'" by blast
  moreover have "map_option (\<lambda>sp. snd sp DeploymentVersionKey)
      (fst (OnStart map_span_api ?p (Some ?sp) ?s)) = Some (Some ''3'')"
    by code_simp
  ultimately show ?thesis using o by simp
qed

end
