(* ===== verification/Url_Escape.thy ===== *)
theory Url_Escape
  imports Go_Json
begin

text \<open>
  The percent encoding of Go's \<open>net/url\<close> in its two modes that the program uses: a path segment
  (\<open>PathEscape\<close>) and a query component (\<open>QueryEscape\<close>), with the decoding the server side does.
\<close>

definition unreserved :: "char \<Rightarrow> bool" where
  "unreserved c \<longleftrightarrow>
     between 0x61 0x7A c \<or> between 0x41 0x5A c \<or> between 0x30 0x39 c \<or>
     c \<in> {CHR ''-'', CHR ''_'', CHR ''.'', CHR ''~''}"

definition segment_char :: "char \<Rightarrow> bool" where
  "segment_char c \<longleftrightarrow> unreserved c \<or> c \<in> set ''$&+:=@''"

definition upper_hex :: "nat \<Rightarrow> char" where
  "upper_hex n = ''0123456789ABCDEF'' ! n"

definition percent :: "char \<Rightarrow> string" where
  "percent c = [CHR ''%'', upper_hex (of_char c div 16), upper_hex (of_char c mod 16)]"

definition PathEscape :: "string \<Rightarrow> string" where
  "PathEscape s = concat (map (\<lambda>c. if segment_char c then [c] else percent c) s)"

definition QueryEscape :: "string \<Rightarrow> string" where
  "QueryEscape s =
     concat (map (\<lambda>c. if c = CHR '' '' then ''+'' else if unreserved c then [c] else percent c) s)"

text \<open>Decoding: \<open>query\<close> says whether a plus sign stands for a space.\<close>

fun url_unescape :: "bool \<Rightarrow> string \<Rightarrow> string option" where
  "url_unescape query [] = Some []"
| "url_unescape query (c # s) =
     (if c = CHR ''%'' then
        (case s of
           h # l # r \<Rightarrow>
             (case (hex_val h, hex_val l) of
                (Some a, Some b) \<Rightarrow> map_option (Cons (char_of (16 * a + b))) (url_unescape query r)
              | _ \<Rightarrow> None)
         | _ \<Rightarrow> None)
      else map_option (Cons (if query \<and> c = CHR ''+'' then CHR '' '' else c)) (url_unescape query s))"

lemma upper_hex_val: "n < 16 \<Longrightarrow> hex_val (upper_hex n) = Some n"
proof -
  assume "n < 16"
  moreover have "list_all (\<lambda>n. hex_val (upper_hex n) = Some n) [0..<16]"
    by code_simp
  ultimately show ?thesis by (simp add: list_all_iff)
qed

lemma unescape_percent: "url_unescape query (percent c @ s) = map_option (Cons c) (url_unescape query s)"
proof -
  have "of_char c < (256::nat)" by simp
  then have "of_char c div 16 < (16::nat)" by linarith
  moreover have "of_char c mod 16 < (16::nat)" by simp
  moreover have "char_of (16 * (of_char c div 16) + of_char c mod 16 :: nat) = c"
    by simp
  ultimately show ?thesis
    by (simp add: percent_def upper_hex_val)
qed

lemma segment_not_percent: "segment_char c \<Longrightarrow> c \<noteq> CHR ''%''"
  by (auto simp: segment_char_def unreserved_def between_def)

lemma unreserved_plain: "unreserved c \<Longrightarrow> c \<noteq> CHR ''%'' \<and> c \<noteq> CHR ''+''"
  by (auto simp: unreserved_def between_def)

lemma unescape_plain:
  "c \<noteq> CHR ''%'' \<Longrightarrow> url_unescape query (c # s) =
     map_option (Cons (if query \<and> c = CHR ''+'' then CHR '' '' else c)) (url_unescape query s)"
  by simp

declare url_unescape.simps(2) [simp del]

text \<open>Both encodings are inverted by their decoding.\<close>

lemma unescape_path: "url_unescape False (PathEscape s) = Some s"
proof (induction s)
  case (Cons c s)
  have "PathEscape (c # s) = (if segment_char c then [c] else percent c) @ PathEscape s"
    by (simp add: PathEscape_def)
  with Cons show ?case
    by (simp add: unescape_percent unescape_plain segment_not_percent)
qed (simp add: PathEscape_def)

lemma unescape_query: "url_unescape True (QueryEscape s) = Some s"
proof (induction s)
  case (Cons c s)
  have "QueryEscape (c # s) =
      (if c = CHR '' '' then ''+'' else if unreserved c then [c] else percent c) @ QueryEscape s"
    by (simp add: QueryEscape_def)
  with Cons show ?case
    by (auto simp: unescape_percent unescape_plain dest: unreserved_plain)
qed (simp add: QueryEscape_def)

lemma PathEscape_inj: "PathEscape s = PathEscape t \<longleftrightarrow> s = t"
  by (metis unescape_path option.inject)

lemma QueryEscape_inj: "QueryEscape s = QueryEscape t \<longleftrightarrow> s = t"
  by (metis unescape_query option.inject)

lemma upper_hex_in: "n < 16 \<Longrightarrow> upper_hex n \<in> set ''0123456789ABCDEF''"
  by (simp add: upper_hex_def nth_mem del: set_simps)

lemma PathEscape_no_query: "CHR ''?'' \<notin> set (PathEscape s)"
proof -
  have "CHR ''?'' \<notin> set (percent c)" for c
  proof -
    have "of_char c < (256::nat)" by simp
    then have "of_char c div 16 < (16::nat)" by linarith
    then have "upper_hex (of_char c div 16) \<in> set ''0123456789ABCDEF''"
      "upper_hex (of_char c mod 16) \<in> set ''0123456789ABCDEF''"
      by (auto intro: upper_hex_in simp del: set_simps)
    then show ?thesis by (auto simp: percent_def)
  qed
  moreover have "\<not> segment_char CHR ''?''"
    by (simp add: segment_char_def unreserved_def between_def)
  ultimately show ?thesis
    by (auto simp: PathEscape_def)
qed

end
