(* ===== verification/Model_Codec.thy ===== *)
theory Model_Codec
  imports Event_Types Go_Json_Encode
begin

text \<open>
  The JSON form of the domain models and of a stored event: what \<open>json.Marshal\<close> writes for their
  struct tags, what \<open>json.Unmarshal\<close> reads back, and the round trips. A string comes back with
  its invalid UTF-8 replaced, everything else as it was.
\<close>

section \<open>Members\<close>

definition string_member :: "string \<Rightarrow> string \<Rightarrow> (string \<times> json) list" where
  "string_member tag v = [(tag, JStr (quote v))]"

text \<open>A field tagged \<open>omitempty\<close>.\<close>

definition omit_empty :: "string \<Rightarrow> string \<Rightarrow> (string \<times> json) list" where
  "omit_empty tag v = (if v = [] then [] else string_member tag v)"

definition array_omit_empty :: "string \<Rightarrow> json list \<Rightarrow> (string \<times> json) list" where
  "array_omit_empty tag js = (if js = [] then [] else [(tag, JArr js)])"

lemma to_valid_empty [simp]: "to_valid s = [] \<longleftrightarrow> s = []"
  by (cases s) (auto simp: replacement_def)

lemma find_field_mem:
  "(tag, d) \<in> set fs \<Longrightarrow> distinct (map (\<lambda>f. fold_name (fst f)) fs) \<Longrightarrow> find_field tag fs = Some d"
proof (induction fs)
  case (Cons f fs)
  obtain tag' d' where f: "f = (tag', d')" by fastforce
  with Cons show ?case by (force simp: image_iff)
qed simp

text \<open>The tag of a field is plain text and folds to no other tag.\<close>

definition tags_ok :: "(string \<times> 'a decoder) list \<Rightarrow> bool" where
  "tags_ok fs \<longleftrightarrow> distinct (map (\<lambda>f. fold_name (fst f)) fs) \<and>
     list_all (\<lambda>f. list_all (\<lambda>c. between 0x20 0x7F c \<and> c \<noteq> CHR 0x5C \<and> c \<noteq> CHR 0x22) (fst f)) fs"

lemma tags_plain:
  assumes "tags_ok fs" and "(tag, d) \<in> set fs"
  shows "unquote tag = tag" and "literal_ok tag" and "find_field (unquote tag) fs = Some d"
proof -
  have c: "\<forall>c \<in> set tag. between 0x20 0x7F c \<and> c \<noteq> CHR 0x5C \<and> c \<noteq> CHR 0x22"
    using assms by (auto simp: tags_ok_def list_all_iff)
  show u: "unquote tag = tag"
    by (rule unquote_ascii) (use c in \<open>auto simp: between_def\<close>)
  show "literal_ok tag"
    by (rule literal_okI) (use c in \<open>auto simp: between_def\<close>)
  show "find_field (unquote tag) fs = Some d"
    unfolding u using assms by (intro find_field_mem) (simp_all add: tags_ok_def)
qed

lemma decode_string_member:
  assumes "tags_ok fs" and "(tag, field decode_string get upd) \<in> set fs"
  shows "decode_members fs (string_member tag v @ ms) r = decode_members fs ms (upd (\<lambda>_. to_valid v) r)"
  using tags_plain [OF assms]
  by (simp add: string_member_def field_def decode_string_def unquote_quote)

lemma decode_omit_empty:
  assumes "tags_ok fs" and "(tag, field decode_string get upd) \<in> set fs" and "upd (\<lambda>_. []) r = r"
  shows "decode_members fs (omit_empty tag v @ ms) r = decode_members fs ms (upd (\<lambda>_. to_valid v) r)"
  using decode_string_member [OF assms(1,2)] assms(3) by (simp add: omit_empty_def)

lemma decode_time_member:
  assumes "tags_ok fs" and "(tag, field decode_time get upd) \<in> set fs"
    and "marshal_time t = Inr j" and "offset_ok (gt_off t)"
  shows "decode_members fs ((tag, j) # ms) r = decode_members fs ms (upd (\<lambda>_. t) r)"
  using tags_plain [OF assms(1,2)] by (simp add: field_def decode_marshal_time [OF assms(3,4)])

lemma decode_all_map:
  "(\<And>x. x \<in> set xs \<Longrightarrow> f (g x) = Inr (h x)) \<Longrightarrow> decode_all f (map g xs) = Inr (map h xs)"
  by (induction xs) auto

lemma decode_array_omit_empty:
  assumes "tags_ok fs" and "(tag, field (decode_slice f) get upd) \<in> set fs" and "upd (\<lambda>_. []) r = r"
    and "\<And>x. x \<in> set xs \<Longrightarrow> f (g x) = Inr (h x)"
  shows "decode_members fs (array_omit_empty tag (map g xs) @ ms) r =
    decode_members fs ms (upd (\<lambda>_. map h xs) r)"
proof (cases xs)
  case Nil
  with assms(3) show ?thesis by (simp add: array_omit_empty_def)
next
  case (Cons x ys)
  have "decode_slice f (JArr (map g xs)) old = Inr (map h xs)" for old
    by (simp add: decode_slice_def decode_all_map [of xs f g h, OF assms(4)])
  with Cons tags_plain [OF assms(1,2)] show ?thesis
    by (simp add: array_omit_empty_def field_def)
qed

section \<open>Trees the parser reads back\<close>

definition tag_literal :: "string \<Rightarrow> bool" where
  "tag_literal tag \<longleftrightarrow> list_all (\<lambda>b. between 0x20 0xFF b \<and> b \<noteq> CHR 0x22 \<and> b \<noteq> CHR 0x5C) tag"

lemma tag_literal: "tag_literal tag \<Longrightarrow> literal_ok tag"
  by (rule literal_okI) (auto simp: tag_literal_def list_all_iff between_def)

definition obj_ok :: "nat \<Rightarrow> (string \<times> json) list \<Rightarrow> bool" where
  "obj_ok n ms \<longleftrightarrow> (\<forall>p \<in> set ms. literal_ok (fst p) \<and> json_ok n (snd p))"

lemma json_ok_JObj: "json_ok n (JObj ms) \<longleftrightarrow> 0 < n \<and> obj_ok (n - 1) ms"
  by (simp add: obj_ok_def)

lemma obj_ok_append: "obj_ok n (xs @ ys) \<longleftrightarrow> obj_ok n xs \<and> obj_ok n ys"
  by (auto simp: obj_ok_def)

lemma obj_ok_Cons: "obj_ok n ((tag, j) # ms) \<longleftrightarrow> literal_ok tag \<and> json_ok n j \<and> obj_ok n ms"
  by (auto simp: obj_ok_def)

lemma obj_ok_Nil: "obj_ok n []"
  by (simp add: obj_ok_def)

lemma obj_ok_string: "tag_literal tag \<Longrightarrow> obj_ok n (string_member tag v)"
  "tag_literal tag \<Longrightarrow> obj_ok n (omit_empty tag v)"
  by (simp_all add: obj_ok_def string_member_def omit_empty_def lex_quote tag_literal)

lemma obj_ok_array:
  "tag_literal tag \<Longrightarrow> json_ok n (JArr js) \<Longrightarrow> obj_ok n (array_omit_empty tag js)"
  by (simp add: obj_ok_def array_omit_empty_def tag_literal)

lemma obj_ok_one: "tag_literal tag \<Longrightarrow> json_ok n j \<Longrightarrow> obj_ok n [(tag, j)]"
  by (simp add: obj_ok_def tag_literal)

section \<open>Links\<close>

definition link_json :: "link \<Rightarrow> json" where
  "link_json l = JObj (string_member ''linkType'' (LinkType l) @ string_member ''linkId'' (LinkID l))"

definition clean_link :: "link \<Rightarrow> link" where
  "clean_link l = \<lparr>LinkType = to_valid (LinkType l), LinkID = to_valid (LinkID l)\<rparr>"

lemma raw_link_tags: "tags_ok raw_link_fields"
  unfolding tags_ok_def raw_link_fields_def by code_simp

lemma unmarshal_link_json: "UnmarshalLink (link_json l) = Inr (clean_link l)"
proof -
  note m = decode_string_member [OF raw_link_tags]
  have "decode_members raw_link_fields (string_member ''linkType'' (LinkType l) @
      string_member ''linkId'' (LinkID l) @ []) zero_raw_link =
      Inr (zero_raw_link\<lparr>raw_LinkType := to_valid (LinkType l), raw_LinkID := to_valid (LinkID l)\<rparr>)"
    by (subst m [where get = raw_LinkType and upd = raw_LinkType_update], simp add: raw_link_fields_def,
        subst m [where get = raw_LinkID and upd = raw_LinkID_update], simp add: raw_link_fields_def) simp
  then show ?thesis
    by (simp add: UnmarshalLink_def link_json_def decode_struct_def link_of_raw_def clean_link_def zero_raw_link_def)
qed

lemma link_json_ok: "0 < n \<Longrightarrow> json_ok n (link_json l)"
  unfolding link_json_def json_ok_JObj obj_ok_append
  by (intro conjI obj_ok_string) (simp_all add: tag_literal_def between_def)

lemma link_array_ok: "1 < n \<Longrightarrow> json_ok n (JArr (map link_json ls))"
  by (simp add: link_json_ok)

section \<open>Deployments\<close>

definition zero_deployment :: deployment where
  "zero_deployment =
     \<lparr>dep_ID = [], dep_Service = [], dep_Version = [], dep_Environment = [], dep_CommitSha = [],
      dep_Repository = [], dep_Branch = [], dep_Author = [], dep_PipelineID = [], dep_PipelineURL = [],
      dep_DeployedAt = zero_time, dep_DeployedBy = [], dep_EventID = [], dep_ChainID = [],
      dep_Links = []\<rparr>"

definition deployment_fields :: "(string \<times> deployment decoder) list" where
  "deployment_fields =
     [(''id'', field decode_string dep_ID dep_ID_update),
      (''service'', field decode_string dep_Service dep_Service_update),
      (''version'', field decode_string dep_Version dep_Version_update),
      (''environment'', field decode_string dep_Environment dep_Environment_update),
      (''commitSha'', field decode_string dep_CommitSha dep_CommitSha_update),
      (''repository'', field decode_string dep_Repository dep_Repository_update),
      (''branch'', field decode_string dep_Branch dep_Branch_update),
      (''author'', field decode_string dep_Author dep_Author_update),
      (''pipelineId'', field decode_string dep_PipelineID dep_PipelineID_update),
      (''pipelineUrl'', field decode_string dep_PipelineURL dep_PipelineURL_update),
      (''deployedAt'', field decode_time dep_DeployedAt dep_DeployedAt_update),
      (''deployedBy'', field decode_string dep_DeployedBy dep_DeployedBy_update),
      (''eventId'', field decode_string dep_EventID dep_EventID_update),
      (''chainId'', field decode_string dep_ChainID dep_ChainID_update),
      (''links'', field (decode_slice UnmarshalLink) dep_Links dep_Links_update)]"

definition deployment_json :: "deployment \<Rightarrow> json result" where
  "deployment_json d =
     bind_result (marshal_time (dep_DeployedAt d)) (\<lambda>at. Inr (JObj (
       string_member ''id'' (dep_ID d) @
       string_member ''service'' (dep_Service d) @
       string_member ''version'' (dep_Version d) @
       string_member ''environment'' (dep_Environment d) @
       string_member ''commitSha'' (dep_CommitSha d) @
       string_member ''repository'' (dep_Repository d) @
       omit_empty ''branch'' (dep_Branch d) @
       omit_empty ''author'' (dep_Author d) @
       omit_empty ''pipelineId'' (dep_PipelineID d) @
       omit_empty ''pipelineUrl'' (dep_PipelineURL d) @
       [(''deployedAt'', at)] @
       string_member ''deployedBy'' (dep_DeployedBy d) @
       string_member ''eventId'' (dep_EventID d) @
       omit_empty ''chainId'' (dep_ChainID d) @
       array_omit_empty ''links'' (map link_json (dep_Links d)))))"

definition clean_deployment :: "deployment \<Rightarrow> deployment" where
  "clean_deployment d =
     \<lparr>dep_ID = to_valid (dep_ID d), dep_Service = to_valid (dep_Service d),
      dep_Version = to_valid (dep_Version d), dep_Environment = to_valid (dep_Environment d),
      dep_CommitSha = to_valid (dep_CommitSha d), dep_Repository = to_valid (dep_Repository d),
      dep_Branch = to_valid (dep_Branch d), dep_Author = to_valid (dep_Author d),
      dep_PipelineID = to_valid (dep_PipelineID d), dep_PipelineURL = to_valid (dep_PipelineURL d),
      dep_DeployedAt = dep_DeployedAt d, dep_DeployedBy = to_valid (dep_DeployedBy d),
      dep_EventID = to_valid (dep_EventID d), dep_ChainID = to_valid (dep_ChainID d),
      dep_Links = map clean_link (dep_Links d)\<rparr>"

lemma deployment_tags: "tags_ok deployment_fields"
  unfolding tags_ok_def deployment_fields_def by code_simp

lemma deployment_members:
  "decode_members deployment_fields (string_member ''id'' v @ ms) r =
     decode_members deployment_fields ms (r\<lparr>dep_ID := to_valid v\<rparr>)"
  "decode_members deployment_fields (string_member ''service'' v @ ms) r =
     decode_members deployment_fields ms (r\<lparr>dep_Service := to_valid v\<rparr>)"
  "decode_members deployment_fields (string_member ''version'' v @ ms) r =
     decode_members deployment_fields ms (r\<lparr>dep_Version := to_valid v\<rparr>)"
  "decode_members deployment_fields (string_member ''environment'' v @ ms) r =
     decode_members deployment_fields ms (r\<lparr>dep_Environment := to_valid v\<rparr>)"
  "decode_members deployment_fields (string_member ''commitSha'' v @ ms) r =
     decode_members deployment_fields ms (r\<lparr>dep_CommitSha := to_valid v\<rparr>)"
  "decode_members deployment_fields (string_member ''repository'' v @ ms) r =
     decode_members deployment_fields ms (r\<lparr>dep_Repository := to_valid v\<rparr>)"
  "decode_members deployment_fields (string_member ''deployedBy'' v @ ms) r =
     decode_members deployment_fields ms (r\<lparr>dep_DeployedBy := to_valid v\<rparr>)"
  "decode_members deployment_fields (string_member ''eventId'' v @ ms) r =
     decode_members deployment_fields ms (r\<lparr>dep_EventID := to_valid v\<rparr>)"
  by (rule decode_string_member [OF deployment_tags], simp add: deployment_fields_def)+

lemma deployment_optional:
  "dep_Branch r = [] \<Longrightarrow> decode_members deployment_fields (omit_empty ''branch'' v @ ms) r =
     decode_members deployment_fields ms (r\<lparr>dep_Branch := to_valid v\<rparr>)"
  "dep_Author r = [] \<Longrightarrow> decode_members deployment_fields (omit_empty ''author'' v @ ms) r =
     decode_members deployment_fields ms (r\<lparr>dep_Author := to_valid v\<rparr>)"
  "dep_PipelineID r = [] \<Longrightarrow> decode_members deployment_fields (omit_empty ''pipelineId'' v @ ms) r =
     decode_members deployment_fields ms (r\<lparr>dep_PipelineID := to_valid v\<rparr>)"
  "dep_PipelineURL r = [] \<Longrightarrow> decode_members deployment_fields (omit_empty ''pipelineUrl'' v @ ms) r =
     decode_members deployment_fields ms (r\<lparr>dep_PipelineURL := to_valid v\<rparr>)"
  "dep_ChainID r = [] \<Longrightarrow> decode_members deployment_fields (omit_empty ''chainId'' v @ ms) r =
     decode_members deployment_fields ms (r\<lparr>dep_ChainID := to_valid v\<rparr>)"
  by (rule decode_omit_empty [OF deployment_tags], simp add: deployment_fields_def, simp)+

lemma deployment_links_member:
  "dep_Links r = [] \<Longrightarrow> decode_members deployment_fields (array_omit_empty ''links'' (map link_json ls) @ ms) r =
     decode_members deployment_fields ms (r\<lparr>dep_Links := map clean_link ls\<rparr>)"
  by (rule decode_array_omit_empty [OF deployment_tags, where f = UnmarshalLink and get = dep_Links])
    (simp_all add: deployment_fields_def unmarshal_link_json)

lemma decode_deployment_json:
  assumes "deployment_json d = Inr j" and "offset_ok (gt_off (dep_DeployedAt d))"
  shows "decode_struct deployment_fields j zero_deployment = Inr (clean_deployment d)"
proof -
  obtain at where at: "marshal_time (dep_DeployedAt d) = Inr at"
    using assms(1) by (auto simp: deployment_json_def bind_result_Inr)
  note time = decode_time_member [OF deployment_tags _ at assms(2), where tag = "''deployedAt''"
      and get = dep_DeployedAt and upd = dep_DeployedAt_update]
  have t: "decode_members deployment_fields ((''deployedAt'', at) # ms) r =
      decode_members deployment_fields ms (r\<lparr>dep_DeployedAt := dep_DeployedAt d\<rparr>)" for ms r
    by (rule time) (simp add: deployment_fields_def)
  have l: "decode_members deployment_fields (array_omit_empty ''links'' (map link_json (dep_Links d))) r =
      Inr (r\<lparr>dep_Links := map clean_link (dep_Links d)\<rparr>)" if "dep_Links r = []" for r
    using deployment_links_member [of r "dep_Links d" "[]"] that by simp
  have j: "j = JObj (string_member ''id'' (dep_ID d) @
       string_member ''service'' (dep_Service d) @
       string_member ''version'' (dep_Version d) @
       string_member ''environment'' (dep_Environment d) @
       string_member ''commitSha'' (dep_CommitSha d) @
       string_member ''repository'' (dep_Repository d) @
       omit_empty ''branch'' (dep_Branch d) @
       omit_empty ''author'' (dep_Author d) @
       omit_empty ''pipelineId'' (dep_PipelineID d) @
       omit_empty ''pipelineUrl'' (dep_PipelineURL d) @
       (''deployedAt'', at) #
       string_member ''deployedBy'' (dep_DeployedBy d) @
       string_member ''eventId'' (dep_EventID d) @
       omit_empty ''chainId'' (dep_ChainID d) @
       array_omit_empty ''links'' (map link_json (dep_Links d)))"
    using assms(1) unfolding deployment_json_def at by simp
  show ?thesis
    unfolding j decode_struct_def json.case
    by (simp only: deployment_members deployment_optional t l zero_deployment_def clean_deployment_def
        deployment.simps deployment.update_convs deployment.select_convs)
qed

text \<open>The tree of a deployment is one the parser reads back.\<close>

lemma deployment_json_ok:
  assumes "deployment_json d = Inr j" and "2 < n"
  shows "json_ok n j"
proof -
  obtain at where at: "marshal_time (dep_DeployedAt d) = Inr at"
    using assms(1) by (auto simp: deployment_json_def bind_result_Inr)
  have n: "0 < n" "1 < n - 1" using assms(2) by simp_all
  from assms(1) have "j = JObj ms \<Longrightarrow> obj_ok (n - 1) ms" for ms
    unfolding deployment_json_def at bind_result_simps
    by (clarsimp simp del: append.simps json_ok.simps,
        intro obj_ok_append [THEN iffD2] conjI obj_ok_string obj_ok_one obj_ok_array
          link_array_ok marshal_time_ok [OF at] n)
      (use n in \<open>simp_all add: tag_literal_def between_def\<close>)
  with assms(1) n show ?thesis
    unfolding deployment_json_def at bind_result_simps by (metis json_ok_JObj sum.inject(2))
qed

section \<open>Documents\<close>

definition marshal :: "json result \<Rightarrow> string result" where
  "marshal r = bind_result r (\<lambda>j. Inr (print_json j))"

text \<open>\<open>json.Unmarshal\<close> into a struct of a type, from its field decoders.\<close>

definition unmarshal_struct :: "(string \<times> 'a decoder) list \<Rightarrow> string \<Rightarrow> 'a \<Rightarrow> 'a result" where
  "unmarshal_struct fs data old =
     (case parse_json data of
        None \<Rightarrow> Inl (ErrLib ''json: syntax error'')
      | Some j \<Rightarrow> decode_struct fs j old)"

lemma unmarshal_marshal:
  assumes "marshal r = Inr data" and "\<And>j. r = Inr j \<Longrightarrow> json_ok max_depth j"
  obtains j where "r = Inr j" and "unmarshal_struct fs data old = decode_struct fs j old"
  using assms by (auto simp: marshal_def bind_result_Inr unmarshal_struct_def parse_print)

lemma max_depth_2: "2 < max_depth" "1 < max_depth"
  by (simp_all add: max_depth_def)

lemma deployment_round_trip:
  assumes "marshal (deployment_json d) = Inr data" and "offset_ok (gt_off (dep_DeployedAt d))"
  shows "unmarshal_struct deployment_fields data zero_deployment = Inr (clean_deployment d)"
  by (rule unmarshal_marshal [OF assms(1), of deployment_fields zero_deployment])
    (use assms(2) max_depth_2 in \<open>auto intro: deployment_json_ok simp: decode_deployment_json\<close>)

text \<open>A deployment whose text is valid UTF-8 comes back as it was.\<close>

definition valid_link :: "link \<Rightarrow> bool" where
  "valid_link l \<longleftrightarrow> valid_utf8 (LinkType l) \<and> valid_utf8 (LinkID l)"

definition valid_deployment :: "deployment \<Rightarrow> bool" where
  "valid_deployment d \<longleftrightarrow>
     list_all valid_utf8 [dep_ID d, dep_Service d, dep_Version d, dep_Environment d, dep_CommitSha d,
       dep_Repository d, dep_Branch d, dep_Author d, dep_PipelineID d, dep_PipelineURL d,
       dep_DeployedBy d, dep_EventID d, dep_ChainID d] \<and>
     list_all valid_link (dep_Links d) \<and> time_marshals (dep_DeployedAt d) \<and>
     offset_ok (gt_off (dep_DeployedAt d))"

lemma clean_link_valid: "valid_link l \<Longrightarrow> clean_link l = l"
  by (simp add: valid_link_def valid_utf8_def clean_link_def)

lemma clean_links_valid: "list_all valid_link ls \<Longrightarrow> map clean_link ls = ls"
  by (induction ls) (auto simp: clean_link_valid)

lemma clean_deployment_valid: "valid_deployment d \<Longrightarrow> clean_deployment d = d"
  by (simp add: valid_deployment_def valid_utf8_def clean_deployment_def clean_links_valid)

lemma valid_deployment_marshals:
  assumes "valid_deployment d"
  obtains data where "marshal (deployment_json d) = Inr data"
    and "unmarshal_struct deployment_fields data zero_deployment = Inr d"
proof -
  from assms have t: "time_marshals (dep_DeployedAt d)" "offset_ok (gt_off (dep_DeployedAt d))"
    by (simp_all add: valid_deployment_def)
  then obtain data where "marshal (deployment_json d) = Inr data"
    by (simp add: marshal_def deployment_json_def marshal_time_def)
  with deployment_round_trip [OF this t(2)] that show ?thesis
    by (simp add: clean_deployment_valid [OF assms])
qed

end
