(* ===== verification/Bridge_Client.thy ===== *)
theory Bridge_Client
  imports Span_Processor Url_Escape Model_Codec
begin

text \<open>
  The HTTP client of \<open>pkg/otelbridge/client.go\<close>. The transport is \<open>net/http\<close>: whether it can
  build a request for a URL, and what it answers, are parameters.
\<close>

section \<open>The transport\<close>

record http_request =
  rq_url :: string
  rq_accept :: string

text \<open>A response body: all of its bytes, or the bytes before the connection broke.\<close>

datatype http_body = Whole string | Cut string gerror

record http_response =
  rp_status :: nat
  rp_body :: http_body

record 'n transport =
  url_error :: "string \<Rightarrow> gerror option"
  round_trip :: "ctx \<Rightarrow> http_request \<Rightarrow> 'n \<Rightarrow> http_response result \<times> 'n"

definition maxResponseBytes :: nat where
  "maxResponseBytes = 2 ^ 20"

text \<open>\<open>io.ReadAll\<close> of an \<open>io.LimitReader\<close>: the error is not met when the limit comes first.\<close>

fun read_limited :: "http_body \<Rightarrow> string result" where
  "read_limited (Whole b) = Inr (take maxResponseBytes b)"
| "read_limited (Cut b err) =
     (if maxResponseBytes \<le> length b then Inr (take maxResponseBytes b) else Inl err)"

section \<open>The client\<close>

record Client =
  baseURL :: string
  environment :: string

definition trim_right_slash :: "string \<Rightarrow> string" where
  "trim_right_slash s = rev (dropWhile (\<lambda>c. c = CHR ''/'') (rev s))"

type_synonym ClientOption = "Client \<Rightarrow> Client"

definition WithEnvironment :: "string \<Rightarrow> ClientOption" where
  "WithEnvironment env c = c\<lparr>environment := env\<rparr>"

definition NewClient :: "string \<Rightarrow> ClientOption list \<Rightarrow> Client" where
  "NewClient url opts = fold (\<lambda>opt c. opt c) opts \<lparr>baseURL = trim_right_slash url, environment = []\<rparr>"

definition endpoint :: "Client \<Rightarrow> string \<Rightarrow> string \<Rightarrow> string" where
  "endpoint c service env =
     baseURL c @ ''/api/v1/deployments/'' @ PathEscape service @
     (if env \<noteq> [] then ''?environment='' @ QueryEscape env else [])"

text \<open>A pointer field: \<open>null\<close> makes it \<open>nil\<close>, an object is decoded into what it points at.\<close>

definition decode_deployment_ptr :: "deployment option decoder" where
  "decode_deployment_ptr j old =
     (case j of
        JNull \<Rightarrow> Inr None
      | _ \<Rightarrow>
          bind_result
            (decode_struct deployment_fields j (case old of None \<Rightarrow> zero_deployment | Some d \<Rightarrow> d))
            (\<lambda>d. Inr (Some d)))"

definition decode_payload :: "string \<Rightarrow> deployment option result" where
  "decode_payload data =
     (case parse_json data of
        None \<Rightarrow> Inl (ErrLib ''json: syntax error'')
      | Some j \<Rightarrow> decode_struct [(''deployment'', decode_deployment_ptr)] j None)"

definition Client_GetDeployment ::
  "Client \<Rightarrow> 'n transport \<Rightarrow> ctx \<Rightarrow> string \<Rightarrow> string \<Rightarrow> 'n \<Rightarrow> answer \<times> 'n" where
  "Client_GetDeployment c tr ctx service env n =
     (if service = [] then ((None, Some (ErrNew ''otelbridge: service name is required'')), n)
      else
        let url = endpoint c service env
        in case url_error tr url of
             Some err \<Rightarrow> ((None, Some (ErrWrap ''otelbridge: build request: '' err [])), n)
           | None \<Rightarrow>
               (case round_trip tr ctx \<lparr>rq_url = url, rq_accept = ''application/json''\<rparr> n of
                  (Inl err, n') \<Rightarrow> ((None, Some (ErrWrap ''otelbridge: request failed: '' err [])), n')
                | (Inr resp, n') \<Rightarrow>
                    (case read_limited (rp_body resp) of
                       Inl err \<Rightarrow> ((None, Some (ErrWrap ''otelbridge: read response: '' err [])), n')
                     | Inr body \<Rightarrow>
                         if rp_status resp = 200 then
                           (case decode_payload body of
                              Inl err \<Rightarrow>
                                ((None, Some (ErrWrap ''otelbridge: decode response: '' err [])), n')
                            | Inr None \<Rightarrow> ((None, Some ErrBridgeNotFound), n')
                            | Inr (Some d) \<Rightarrow> ((Some d, None), n'))
                         else if rp_status resp = 404 then ((None, Some ErrBridgeNotFound), n')
                         else
                           ((None, Some (ErrNew (''otelbridge: bridge returned status '' @
                               show_nat (rp_status resp) @ '': '' @ trim_space body))), n'))))"

definition Client_ResolveDeployment :: "Client \<Rightarrow> 'n transport \<Rightarrow> 'n resolver" where
  "Client_ResolveDeployment c tr ctx service n = Client_GetDeployment c tr ctx service (environment c) n"

section \<open>The client is a resolver\<close>

lemma Client_answer:
  assumes "Client_GetDeployment c tr ctx service env n = ((od, oe), n')"
  shows "od = None \<longleftrightarrow> oe \<noteq> None"
  using assms
  by (auto simp: Client_GetDeployment_def Let_def split: if_splits option.splits prod.splits sum.splits)

interpretation client: resolver_answers "Client_ResolveDeployment c tr" "\<lambda>_. True" for c tr
  by unfold_locales (simp_all add: Client_ResolveDeployment_def Client_answer)

text \<open>Decoding fails only with errors of the library.\<close>

definition lib_error :: "'a result \<Rightarrow> bool" where
  "lib_error r \<longleftrightarrow> (\<forall>err. r = Inl err \<longrightarrow> (\<exists>t. err = ErrLib t))"

lemma lib_error_simps [simp]:
  "lib_error (Inr x)" "lib_error (Inl (ErrLib t))" "lib_error type_error"
  by (simp_all add: lib_error_def type_error_def)

lemma lib_error_bind: "lib_error r \<Longrightarrow> (\<And>x. lib_error (f x)) \<Longrightarrow> lib_error (bind_result r f)"
  by (cases r) (auto simp: lib_error_def)

lemma lib_error_field: "(\<And>x. lib_error (d j x)) \<Longrightarrow> lib_error (field d get upd j r)"
  by (simp add: field_def lib_error_bind)

lemma lib_error_members:
  "(\<And>tag d j x. (tag, d) \<in> set fs \<Longrightarrow> lib_error (d j x)) \<Longrightarrow> lib_error (decode_members fs ms r)"
proof (induction fs ms r rule: decode_members.induct)
  case (2 fs k j ms r)
  show ?case
  proof (cases "find_field (unquote k) fs")
    case None
    with 2 show ?thesis by simp
  next
    case (Some d)
    then have "\<exists>tag. (tag, d) \<in> set fs" by (rule find_field_in)
    with 2 Some show ?thesis by (auto intro!: lib_error_bind)
  qed
qed simp

lemma lib_error_struct:
  "(\<And>tag d j x. (tag, d) \<in> set fs \<Longrightarrow> lib_error (d j x)) \<Longrightarrow> lib_error (decode_struct fs j r)"
  by (auto simp: decode_struct_def lib_error_members split: json.splits)

lemma lib_error_basic [simp]:
  "lib_error (decode_string j x)" "lib_error (decode_time j t)"
  by (auto simp: decode_string_def decode_time_def split: json.splits option.splits)

lemma lib_error_all: "(\<And>j. lib_error (f j)) \<Longrightarrow> lib_error (decode_all f js)"
  by (induction js) (auto intro!: lib_error_bind)

lemma lib_error_link: "lib_error (UnmarshalLink j)"
  unfolding UnmarshalLink_def
  by (intro lib_error_bind lib_error_struct)
    (auto simp: raw_link_fields_def intro!: lib_error_field lib_error_struct)

lemma lib_error_payload: "lib_error (decode_payload data)"
proof -
  have slice: "lib_error (decode_slice UnmarshalLink j x)" for j x
    by (auto simp: decode_slice_def lib_error_all lib_error_link split: json.splits)
  have "lib_error (decode_struct deployment_fields j d)" for j d
    by (rule lib_error_struct) (auto simp: deployment_fields_def slice intro!: lib_error_field)
  then have "lib_error (decode_deployment_ptr j x)" for j x
    by (auto simp: decode_deployment_ptr_def intro!: lib_error_bind split: json.splits)
  then have "lib_error (decode_struct [(''deployment'', decode_deployment_ptr)] j x)" for j x
    by (intro lib_error_struct) auto
  then show ?thesis
    by (auto simp: decode_payload_def split: option.splits)
qed

text \<open>
  C24. A lookup asks the transport at most once and for the URL of the service and environment.
  Its answer is a not-found exactly when the bridge answered 404, or 200 without a deployment; a
  connection that fails, a body that cannot be read or decoded and any other status are errors
  of their own, so a cache over the client neither keeps them nor takes them for a missing
  deployment.
\<close>

theorem client_not_found:
  assumes "service \<noteq> []" and "url_error tr (endpoint c service env) = None"
    and "round_trip tr ctx \<lparr>rq_url = endpoint c service env, rq_accept = ''application/json''\<rparr> n = (r, n1)"
    and "Client_GetDeployment c tr ctx service env n = ((od, oe), n2)"
    and transport_errors: "\<And>err. r = Inl err \<Longrightarrow> \<not> errors_is err ErrBridgeNotFound"
    and body_errors: "\<And>resp b err. r = Inr resp \<Longrightarrow> rp_body resp = Cut b err \<Longrightarrow>
      \<not> errors_is err ErrBridgeNotFound"
  shows "n2 = n1 \<and>
    ((\<exists>err. oe = Some err \<and> errors_is err ErrBridgeNotFound) \<longleftrightarrow>
      (\<exists>resp body. r = Inr resp \<and> read_limited (rp_body resp) = Inr body \<and>
        (rp_status resp = 404 \<or> rp_status resp = 200 \<and> decode_payload body = Inr None)))"
proof (cases r)
  case (Inl err)
  with assms show ?thesis
    by (auto simp: Client_GetDeployment_def Let_def)
next
  case (Inr resp)
  show ?thesis
  proof (cases "read_limited (rp_body resp)")
    case (Inl err)
    then have "\<not> errors_is err ErrBridgeNotFound"
      using body_errors [OF Inr] by (cases "rp_body resp") (auto split: if_splits)
    with Inl Inr assms(1-4) show ?thesis
      by (auto simp: Client_GetDeployment_def Let_def)
  next
    case body: (Inr body)
    show ?thesis
    proof (cases "decode_payload body")
      case (Inl err)
      with lib_error_payload [of body] obtain t where "err = ErrLib t" by (auto simp: lib_error_def)
      with Inl Inr body assms(1-4) show ?thesis
        by (auto simp: Client_GetDeployment_def Let_def split: if_splits)
    next
      case decoded: (Inr od')
      with Inr body assms(1-4) show ?thesis
        by (auto simp: Client_GetDeployment_def Let_def split: if_splits option.splits)
    qed
  qed
qed

text \<open>A bridge that answers every request alike.\<close>

definition constant_bridge :: "nat \<Rightarrow> string \<Rightarrow> nat transport" where
  "constant_bridge status body =
     \<lparr>url_error = \<lambda>_. None,
      round_trip = \<lambda>ctx rq n. (Inr \<lparr>rp_status = status, rp_body = Whole body\<rparr>, Suc n)\<rparr>"

theorem client_not_found_witness:
  "\<exists>err. Client_GetDeployment (NewClient ''http://b/'' []) (constant_bridge 404 []) None ''api'' [] 0 =
     ((None, Some err), 1) \<and> errors_is err ErrBridgeNotFound"
proof -
  let ?c = "NewClient ''http://b/'' []" and ?tr = "constant_bridge 404 []"
  obtain od oe n2 where g: "Client_GetDeployment ?c ?tr None ''api'' [] 0 = ((od, oe), n2)"
    by (metis prod.collapse)
  have r: "round_trip ?tr None \<lparr>rq_url = endpoint ?c ''api'' [], rq_accept = ''application/json''\<rparr> 0 =
      (Inr \<lparr>rp_status = 404, rp_body = Whole []\<rparr>, 1)"
    by (simp add: constant_bridge_def)
  have u: "url_error ?tr (endpoint ?c ''api'' []) = None" by (simp add: constant_bridge_def)
  let ?r = "Inr \<lparr>rp_status = 404, rp_body = Whole []\<rparr> :: http_response result"
  have t: "?r = Inl err \<Longrightarrow> \<not> errors_is err ErrBridgeNotFound" for err by simp
  have b: "?r = Inr resp \<Longrightarrow> rp_body resp = Cut b err \<Longrightarrow> \<not> errors_is err ErrBridgeNotFound"
    for resp b err by auto
  have "n2 = 1 \<and> (\<exists>err. oe = Some err \<and> errors_is err ErrBridgeNotFound)"
    using client_not_found [OF _ u r g t b] by simp
  with Client_answer [OF g] g show ?thesis by auto
qed

end
