(* ===== verification/Event_Codec.thy ===== *)
theory Event_Codec
  imports Model_Codec
begin

text \<open>
  The JSON form of dynamic values and of stored events. \<open>json.Marshal\<close> writes a map with its keys
  sorted and a \<open>float64\<close> in its shortest decimal form; that form is the argument \<open>num\<close>, from the
  literal a number was read from to the one it is written as.
\<close>

section \<open>Dynamic values\<close>

fun any_json :: "(string \<Rightarrow> string) \<Rightarrow> gval \<Rightarrow> json"
  and any_members :: "(string \<Rightarrow> string) \<Rightarrow> (string \<times> gval) list \<Rightarrow> (string \<times> json) list"
where
  "any_json num VNil = JNull"
| "any_json num (VBool b) = JBool b"
| "any_json num (VNum n) = JNum (num n)"
| "any_json num (VStr s) = JStr (quote s)"
| "any_json num (VArr vs) = JArr (map (any_json num) vs)"
| "any_json num (VMap m) = JObj (map (apfst quote) (sort_key fst (any_members num m)))"
| "any_members num [] = []"
| "any_members num ((k, v) # m) = (k, any_json num v) # any_members num m"

text \<open>What is read back: the keys of every map sorted, the numbers in their written form.\<close>

fun canon :: "(string \<Rightarrow> string) \<Rightarrow> gval \<Rightarrow> gval"
  and canon_members :: "(string \<Rightarrow> string) \<Rightarrow> (string \<times> gval) list \<Rightarrow> (string \<times> gval) list"
where
  "canon num (VNum n) = VNum (num n)"
| "canon num (VArr vs) = VArr (map (canon num) vs)"
| "canon num (VMap m) = VMap (sort_key fst (canon_members num m))"
| "canon num v = v"
| "canon_members num [] = []"
| "canon_members num ((k, v) # m) = (k, canon num v) # canon_members num m"

text \<open>
  The values decoding produces: valid text, one entry per key, and numbers whose written form is
  a JSON number that a \<open>float64\<close> can hold.
\<close>

fun any_ok :: "(string \<Rightarrow> string) \<Rightarrow> gval \<Rightarrow> bool"
  and members_any_ok :: "(string \<Rightarrow> string) \<Rightarrow> (string \<times> gval) list \<Rightarrow> bool"
where
  "any_ok num (VNum n) = (lex_number (num n) = Some (num n, []) \<and> \<not> float_overflows (num n))"
| "any_ok num (VStr s) = valid_utf8 s"
| "any_ok num (VArr vs) = list_all (any_ok num) vs"
| "any_ok num (VMap m) = (distinct (map fst m) \<and> members_any_ok num m)"
| "any_ok num v = True"
| "members_any_ok num [] = True"
| "members_any_ok num ((k, v) # m) = (valid_utf8 k \<and> any_ok num v \<and> members_any_ok num m)"

fun any_depth :: "gval \<Rightarrow> nat"
  and members_depth :: "(string \<times> gval) list \<Rightarrow> nat"
where
  "any_depth (VArr vs) = Suc (fold max (map any_depth vs) 0)"
| "any_depth (VMap m) = Suc (members_depth m)"
| "any_depth v = 0"
| "members_depth [] = 0"
| "members_depth ((k, v) # m) = max (any_depth v) (members_depth m)"

lemma any_members_map: "any_members num m = map (apsnd (any_json num)) m"
  by (induction m) auto

lemma canon_members_map: "canon_members num m = map (apsnd (canon num)) m"
  by (induction m) auto

lemma members_any_ok_all: "members_any_ok num m \<longleftrightarrow> (\<forall>p \<in> set m. valid_utf8 (fst p) \<and> any_ok num (snd p))"
  by (induction m) auto

lemma members_depth_le: "members_depth m \<le> n \<longleftrightarrow> (\<forall>p \<in> set m. any_depth (snd p) \<le> n)"
  by (induction m) auto

lemma fold_max_le: "fold max (ns :: nat list) a \<le> n \<longleftrightarrow> a \<le> n \<and> (\<forall>k \<in> set ns. k \<le> n)"
  by (induction ns arbitrary: a) auto

lemma sort_key_map: "sort_key f (map g xs) = map g (sort_key (\<lambda>x. f (g x)) xs)"
proof (induction xs)
  case (Cons x xs)
  have "insort_key f (g x) (map g ys) = map g (insort_key (\<lambda>x. f (g x)) x ys)" for ys
    by (induction ys) auto
  with Cons show ?case by simp
qed simp

lemma sort_apsnd: "sort_key fst (map (apsnd f) m) = map (apsnd f) (sort_key fst m)"
  by (simp add: sort_key_map)

lemma to_members_quote:
  assumes "\<And>p. p \<in> set ms \<Longrightarrow> valid_utf8 (fst p) \<and> to_any (snd p) = Inr (f p)"
    and "distinct (map fst acc @ map fst ms)"
  shows "to_members (map (apfst quote) ms) acc = Inr (acc @ map (\<lambda>p. (fst p, f p)) ms)"
  using assms
proof (induction ms arbitrary: acc)
  case (Cons p ms)
  obtain k j where p: "p = (k, j)" by fastforce
  have k: "unquote (quote k) = k" "to_any j = Inr (f p)"
    using Cons.prems(1) [of p] by (auto simp: p unquote_quote valid_utf8_def)
  have "k \<notin> fst ` set acc" using Cons.prems(2) by (auto simp: p)
  then have "AList.update k (f p) acc = acc @ [(k, f p)]"
    by (induction acc) auto
  moreover have "to_members (map (apfst quote) ms) (acc @ [(k, f p)]) =
      Inr ((acc @ [(k, f p)]) @ map (\<lambda>p. (fst p, f p)) ms)"
    by (rule Cons.IH) (use Cons.prems in \<open>auto simp: p\<close>)
  ultimately show ?case by (simp add: p k)
qed simp

lemma to_any_any_json: "any_ok num v \<Longrightarrow> to_any (any_json num v) = Inr (canon num v)"
proof (induction v)
  case (VStr s)
  then show ?case by (simp add: unquote_quote valid_utf8_def)
next
  case (VArr vs)
  have "to_anys (map (any_json num) vs) = Inr (map (canon num) vs)"
    using VArr by (induction vs) auto
  then show ?case by simp
next
  case (VMap m)
  let ?ms = "sort_key fst (any_members num m)"
  have m: "distinct (map fst m)" "\<forall>p \<in> set m. valid_utf8 (fst p) \<and> any_ok num (snd p)"
    using VMap.prems by (auto simp: members_any_ok_all)
  have to: "to_any (any_json num (snd p)) = Inr (canon num (snd p))" if "p \<in> set m" for p
    using VMap.IH [of p "snd p"] that m(2) by (simp add: snds.simps)
  define f where "f q = (case map_of m (fst q) of Some v \<Rightarrow> canon num v | None \<Rightarrow> VNil)" for q :: "string \<times> json"
  have at: "f (fst p, j) = canon num (snd p)" if "p \<in> set m" for p j
    using m(1) that by (cases p) (simp add: f_def)
  have "to_members (map (apfst quote) ?ms) [] = Inr ([] @ map (\<lambda>q. (fst q, f q)) ?ms)"
  proof (rule to_members_quote)
    show "valid_utf8 (fst q) \<and> to_any (snd q) = Inr (f q)" if "q \<in> set ?ms" for q
    proof -
      from that have "q \<in> apsnd (any_json num) ` set m" by (simp add: any_members_map)
      then obtain p where p: "p \<in> set m" "q = apsnd (any_json num) p" by blast
      with m(2) to [OF p(1)] at [OF p(1)] show ?thesis by (cases p) auto
    qed
    have "map fst ?ms = sort (map fst m)"
      by (simp add: sort_key_map any_members_map comp_def)
    then show "distinct (map fst [] @ map fst ?ms)" using m(1) by simp
  qed
  moreover have "map (\<lambda>q. (fst q, f q)) ?ms = sort_key fst (canon_members num m)"
    unfolding any_members_map canon_members_map sort_apsnd map_map
    by (rule map_cong [OF refl]) (use at in \<open>auto simp: apsnd_def\<close>)
  ultimately show ?case by simp
qed auto

lemma any_json_ok:
  "any_ok num v \<Longrightarrow> any_depth v \<le> n \<Longrightarrow> json_ok n (any_json num v)"
proof (induction v arbitrary: n)
  case (VStr s)
  then show ?case by (simp add: lex_quote)
next
  case (VArr vs)
  then obtain k where k: "n = Suc k" "fold max (map any_depth vs) 0 \<le> k"
    by (cases n) auto
  then have "\<forall>v \<in> set vs. any_depth v \<le> k" by (simp add: fold_max_le)
  with VArr k show ?case by (auto simp: list_all_iff)
next
  case (VMap m)
  then obtain k where k: "n = Suc k" "members_depth m \<le> k"
    by (cases n) auto
  have "json_ok k (any_json num (snd p))" if "p \<in> set m" for p
    using VMap.IH [of p "snd p" k] VMap.prems(1) k(2) that
    by (simp add: members_any_ok_all members_depth_le snds.simps)
  then show ?case
    by (auto simp: k(1) any_members_map lex_quote)
qed auto

text \<open>What the program looks up in a map is the same in the map that was read back.\<close>

lemma distinct_fst_sort: "distinct (map fst (sort_key fst m)) \<longleftrightarrow> distinct (map fst m)"
proof -
  have "map fst (sort_key fst m) = sort (map fst m)" by (simp add: sort_key_map)
  then show ?thesis by simp
qed

lemma map_of_sort_key: "distinct (map fst m) \<Longrightarrow> map_of (sort_key fst m) k = map_of m k"
  by (rule fun_cong [of _ _ k], subst map_of_inject_set) (simp_all add: distinct_fst_sort)

lemma map_of_canon:
  assumes "distinct (map fst m)"
  shows "map_of (sort_key fst (canon_members num m)) k = map_option (canon num) (map_of m k)"
proof -
  have "map fst (canon_members num m) = map fst m" by (simp add: canon_members_map)
  with assms have "map_of (sort_key fst (canon_members num m)) k = map_of (canon_members num m) k"
    by (simp add: map_of_sort_key)
  also have "\<dots> = map_option (canon num) (map_of m k)"
    by (simp add: canon_members_map map_of_map apsnd_def map_prod_def split_beta)
  finally show ?thesis .
qed

section \<open>Stored events\<close>

definition zero_stored_event :: stored_event where
  "zero_stored_event =
     \<lparr>ev_ID = [], ev_Type = [], ev_Source = [], ev_Timestamp = zero_time, ev_SubjectID = [],
      ev_SubjectType = [], ev_ChainID = [], ev_Links = [], ev_Summary = [], ev_RawData = None\<rparr>"

definition stored_event_fields :: "(string \<times> stored_event decoder) list" where
  "stored_event_fields =
     [(''id'', field decode_string ev_ID ev_ID_update),
      (''type'', field decode_string ev_Type ev_Type_update),
      (''source'', field decode_string ev_Source ev_Source_update),
      (''timestamp'', field decode_time ev_Timestamp ev_Timestamp_update),
      (''subjectId'', field decode_string ev_SubjectID ev_SubjectID_update),
      (''subjectType'', field decode_string ev_SubjectType ev_SubjectType_update),
      (''chainId'', field decode_string ev_ChainID ev_ChainID_update),
      (''links'', field (decode_slice UnmarshalLink) ev_Links ev_Links_update),
      (''summary'', field decode_string ev_Summary ev_Summary_update),
      (''rawData'', field decode_map ev_RawData ev_RawData_update)]"

text \<open>A map tagged \<open>omitempty\<close> is left out when it is \<open>nil\<close> or has no entry.\<close>

definition map_omit_empty :: "(string \<Rightarrow> string) \<Rightarrow> string \<Rightarrow> anymap \<Rightarrow> (string \<times> json) list" where
  "map_omit_empty num tag om =
     (case om of None \<Rightarrow> [] | Some m \<Rightarrow> if m = [] then [] else [(tag, any_json num (VMap m))])"

definition stored_event_json :: "(string \<Rightarrow> string) \<Rightarrow> stored_event \<Rightarrow> json result" where
  "stored_event_json num e =
     bind_result (marshal_time (ev_Timestamp e)) (\<lambda>at. Inr (JObj (
       string_member ''id'' (ev_ID e) @
       string_member ''type'' (ev_Type e) @
       string_member ''source'' (ev_Source e) @
       [(''timestamp'', at)] @
       string_member ''subjectId'' (ev_SubjectID e) @
       string_member ''subjectType'' (ev_SubjectType e) @
       omit_empty ''chainId'' (ev_ChainID e) @
       array_omit_empty ''links'' (map link_json (ev_Links e)) @
       string_member ''summary'' (ev_Summary e) @
       map_omit_empty num ''rawData'' (ev_RawData e))))"

definition clean_raw :: "(string \<Rightarrow> string) \<Rightarrow> anymap \<Rightarrow> anymap" where
  "clean_raw num om =
     (case om of None \<Rightarrow> None
      | Some m \<Rightarrow> if m = [] then None else Some (sort_key fst (canon_members num m)))"

definition clean_event :: "(string \<Rightarrow> string) \<Rightarrow> stored_event \<Rightarrow> stored_event" where
  "clean_event num e =
     \<lparr>ev_ID = to_valid (ev_ID e), ev_Type = to_valid (ev_Type e), ev_Source = to_valid (ev_Source e),
      ev_Timestamp = ev_Timestamp e, ev_SubjectID = to_valid (ev_SubjectID e),
      ev_SubjectType = to_valid (ev_SubjectType e), ev_ChainID = to_valid (ev_ChainID e),
      ev_Links = map clean_link (ev_Links e), ev_Summary = to_valid (ev_Summary e),
      ev_RawData = clean_raw num (ev_RawData e)\<rparr>"

text \<open>The dynamic data of an event is well formed and not nested deeper than the parser reads.\<close>

definition raw_ok :: "(string \<Rightarrow> string) \<Rightarrow> anymap \<Rightarrow> bool" where
  "raw_ok num om \<longleftrightarrow>
     (case om of None \<Rightarrow> True | Some m \<Rightarrow> any_ok num (VMap m) \<and> any_depth (VMap m) < max_depth)"

lemma event_tags: "tags_ok stored_event_fields"
  unfolding tags_ok_def stored_event_fields_def by code_simp

lemma event_members:
  "decode_members stored_event_fields (string_member ''id'' v @ ms) r =
     decode_members stored_event_fields ms (r\<lparr>ev_ID := to_valid v\<rparr>)"
  "decode_members stored_event_fields (string_member ''type'' v @ ms) r =
     decode_members stored_event_fields ms (r\<lparr>ev_Type := to_valid v\<rparr>)"
  "decode_members stored_event_fields (string_member ''source'' v @ ms) r =
     decode_members stored_event_fields ms (r\<lparr>ev_Source := to_valid v\<rparr>)"
  "decode_members stored_event_fields (string_member ''subjectId'' v @ ms) r =
     decode_members stored_event_fields ms (r\<lparr>ev_SubjectID := to_valid v\<rparr>)"
  "decode_members stored_event_fields (string_member ''subjectType'' v @ ms) r =
     decode_members stored_event_fields ms (r\<lparr>ev_SubjectType := to_valid v\<rparr>)"
  "decode_members stored_event_fields (string_member ''summary'' v @ ms) r =
     decode_members stored_event_fields ms (r\<lparr>ev_Summary := to_valid v\<rparr>)"
  by (rule decode_string_member [OF event_tags], simp add: stored_event_fields_def)+

lemma event_optional:
  "ev_ChainID r = [] \<Longrightarrow> decode_members stored_event_fields (omit_empty ''chainId'' v @ ms) r =
     decode_members stored_event_fields ms (r\<lparr>ev_ChainID := to_valid v\<rparr>)"
  by (rule decode_omit_empty [OF event_tags], simp add: stored_event_fields_def, simp)

lemma event_links_member:
  "ev_Links r = [] \<Longrightarrow> decode_members stored_event_fields (array_omit_empty ''links'' (map link_json ls) @ ms) r =
     decode_members stored_event_fields ms (r\<lparr>ev_Links := map clean_link ls\<rparr>)"
  by (rule decode_array_omit_empty [OF event_tags, where f = UnmarshalLink and get = ev_Links])
    (simp_all add: stored_event_fields_def unmarshal_link_json)

lemma event_raw_member:
  assumes "raw_ok num om" and "ev_RawData r = None"
  shows "decode_members stored_event_fields (map_omit_empty num ''rawData'' om) r =
    Inr (r\<lparr>ev_RawData := clean_raw num om\<rparr>)"
proof (cases "om = None \<or> om = Some []")
  case True
  with assms(2) show ?thesis
    by (auto simp: map_omit_empty_def clean_raw_def intro: stored_event.equality)
next
  case False
  then obtain m where m: "om = Some m" "m \<noteq> []" by auto
  with assms(1) have "to_any (any_json num (VMap m)) = Inr (canon num (VMap m))"
    by (intro to_any_any_json) (simp add: raw_ok_def)
  then have "to_members (map (apfst quote) (sort_key fst (any_members num m))) [] =
      Inr (sort_key fst (canon_members num m))"
    by (simp add: bind_result_Inr)
  moreover have "(''rawData'', field decode_map ev_RawData ev_RawData_update) \<in> set stored_event_fields"
    by (simp add: stored_event_fields_def)
  note tags_plain(3) [OF event_tags this]
  ultimately show ?thesis
    using m assms(2) by (simp add: map_omit_empty_def clean_raw_def field_def decode_map_def)
qed

lemma decode_stored_event_json:
  assumes "stored_event_json num e = Inr j" and "offset_ok (gt_off (ev_Timestamp e))"
    and "raw_ok num (ev_RawData e)"
  shows "decode_struct stored_event_fields j zero_stored_event = Inr (clean_event num e)"
proof -
  obtain at where at: "marshal_time (ev_Timestamp e) = Inr at"
    using assms(1) by (auto simp: stored_event_json_def bind_result_Inr)
  have t: "decode_members stored_event_fields ((''timestamp'', at) # ms) r =
      decode_members stored_event_fields ms (r\<lparr>ev_Timestamp := ev_Timestamp e\<rparr>)" for ms r
    by (rule decode_time_member [OF event_tags _ at assms(2), where tag = "''timestamp''"
        and get = ev_Timestamp]) (simp add: stored_event_fields_def)
  have j: "j = JObj (string_member ''id'' (ev_ID e) @
       string_member ''type'' (ev_Type e) @
       string_member ''source'' (ev_Source e) @
       (''timestamp'', at) #
       string_member ''subjectId'' (ev_SubjectID e) @
       string_member ''subjectType'' (ev_SubjectType e) @
       omit_empty ''chainId'' (ev_ChainID e) @
       array_omit_empty ''links'' (map link_json (ev_Links e)) @
       string_member ''summary'' (ev_Summary e) @
       map_omit_empty num ''rawData'' (ev_RawData e))"
    using assms(1) unfolding stored_event_json_def at by simp
  show ?thesis
    unfolding j decode_struct_def json.case
    by (simp only: event_members event_optional event_links_member event_raw_member [OF assms(3)] t
        zero_stored_event_def clean_event_def stored_event.simps stored_event.update_convs
        stored_event.select_convs)
qed

lemma stored_event_json_ok:
  assumes "stored_event_json num e = Inr j" and "raw_ok num (ev_RawData e)"
  shows "json_ok max_depth j"
proof -
  obtain at where at: "marshal_time (ev_Timestamp e) = Inr at"
    using assms(1) by (auto simp: stored_event_json_def bind_result_Inr)
  have n: "0 < max_depth" "1 < max_depth - 1" by (simp_all add: max_depth_def)
  have raw: "obj_ok (max_depth - 1) (map_omit_empty num ''rawData'' (ev_RawData e))"
  proof (cases "ev_RawData e = None \<or> ev_RawData e = Some []")
    case True
    then show ?thesis by (auto simp: map_omit_empty_def obj_ok_Nil)
  next
    case False
    then obtain m where m: "ev_RawData e = Some m" "m \<noteq> []" by auto
    with assms(2) have "any_ok num (VMap m)" "any_depth (VMap m) \<le> max_depth - 1"
      by (auto simp: raw_ok_def)
    from any_json_ok [OF this]
    have "obj_ok (max_depth - 1) [(''rawData'', any_json num (VMap m))]"
      by (intro obj_ok_one) (simp_all add: tag_literal_def between_def)
    with m show ?thesis by (simp add: map_omit_empty_def)
  qed
  from assms(1) have "j = JObj ms \<Longrightarrow> obj_ok (max_depth - 1) ms" for ms
    unfolding stored_event_json_def at bind_result_simps
    by (clarsimp simp del: append.simps json_ok.simps,
        intro obj_ok_append [THEN iffD2] conjI obj_ok_string obj_ok_one obj_ok_array
          link_array_ok marshal_time_ok [OF at] n raw [simplified])
      (use n in \<open>simp_all add: tag_literal_def between_def\<close>)
  with assms(1) n show ?thesis
    unfolding stored_event_json_def at bind_result_simps by (metis json_ok_JObj sum.inject(2))
qed

lemma stored_event_round_trip:
  assumes "marshal (stored_event_json num e) = Inr data" and "offset_ok (gt_off (ev_Timestamp e))"
    and "raw_ok num (ev_RawData e)"
  shows "unmarshal_struct stored_event_fields data zero_stored_event = Inr (clean_event num e)"
proof (rule unmarshal_marshal [OF assms(1), of stored_event_fields zero_stored_event])
  fix j assume "stored_event_json num e = Inr j"
    and u: "unmarshal_struct stored_event_fields data zero_stored_event =
      decode_struct stored_event_fields j zero_stored_event"
  from decode_stored_event_json [OF this(1) assms(2,3)] u show ?thesis by simp
qed (rule stored_event_json_ok [OF _ assms(3)])

text \<open>An event that comes back as it was, up to the order and the numbers of its dynamic data.\<close>

definition valid_event_text :: "stored_event \<Rightarrow> bool" where
  "valid_event_text e \<longleftrightarrow>
     list_all valid_utf8 [ev_ID e, ev_Type e, ev_Source e, ev_SubjectID e, ev_SubjectType e,
       ev_ChainID e, ev_Summary e] \<and> list_all valid_link (ev_Links e)"

lemma clean_event_valid:
  "valid_event_text e \<Longrightarrow> clean_event num e = e\<lparr>ev_RawData := clean_raw num (ev_RawData e)\<rparr>"
  by (simp add: valid_event_text_def valid_utf8_def clean_event_def clean_links_valid)

end
