(* ===== verification/Mock_Deployer.thy ===== *)
theory Mock_Deployer
  imports Go_Format Bridge_Client Event_Codec
begin

text \<open>
  The event replayer of \<open>examples/mock-deployer/main.go\<close>: it loads a file of events, moves their
  timestamps so that the last one is now, waits until the bridge is healthy and posts the events
  in order. The network and the clock are a client record over a state; \<open>time.ParseDuration\<close>,
  which computes with floating-point numbers, and the decimal form \<open>num\<close> of a number are parameters.
\<close>

section \<open>The world of the replayer\<close>

record 'n http_client =
  hc_url_error :: "string \<Rightarrow> gerror option"
  hc_get :: "string \<Rightarrow> 'n \<Rightarrow> http_response result \<times> 'n"
  hc_post :: "string \<Rightarrow> string \<Rightarrow> 'n \<Rightarrow> http_response result \<times> 'n"
  hc_now :: "'n \<Rightarrow> gotime"
  hc_sleep :: "duration \<Rightarrow> 'n \<Rightarrow> 'n"

text \<open>\<open>Duration.String\<close>.\<close>

definition frac_text :: "int \<Rightarrow> nat \<Rightarrow> string" where
  "frac_text v p =
     (let f = trim_zeros (dec p (v mod 10 ^ p))
      in show_int (v div 10 ^ p) @ (if f = [] then [] else CHR ''.'' # f))"

definition Duration_String :: "duration \<Rightarrow> string" where
  "Duration_String d =
     (let u = \<bar>d\<bar>; mins = u div (60 * second);
          text =
            (if u = 0 then ''0s''
             else if u < 10 ^ 3 then show_int u @ ''ns''
             else if u < 10 ^ 6 then frac_text u 3 @ [CHR 0xC2, CHR 0xB5, CHR ''s'']
             else if u < second then frac_text u 6 @ ''ms''
             else
               (if mins = 0 then []
                else (if mins div 60 = 0 then [] else show_int (mins div 60) @ ''h'') @
                  show_int (mins mod 60) @ ''m'') @
               frac_text (u mod (60 * second)) 9 @ ''s'')
      in (if d < 0 then ''-'' else []) @ text)"

definition defaultBridgeURL :: string where "defaultBridgeURL = ''http://localhost:8080''"
definition defaultEventsFile :: string where "defaultEventsFile = ''events.json''"
definition defaultDelay :: duration where "defaultDelay = second"
definition defaultWait :: duration where "defaultWait = 60 * second"

definition getEnv :: "(string \<Rightarrow> string) \<Rightarrow> string \<Rightarrow> string \<Rightarrow> string" where
  "getEnv env key fallback = (if env key \<noteq> [] then env key else fallback)"

section \<open>Events\<close>

record mock_event =
  me_raw :: "(string \<times> gval) list"
  me_id :: string
  me_eventType :: string
  me_subjectID :: string
  me_timestamp :: gotime

definition stringValue :: "gval option \<Rightarrow> string" where
  "stringValue v = (case v of Some (VStr s) \<Rightarrow> s | _ \<Rightarrow> [])"

text \<open>A type assertion to a map, and an index into a map that may be \<open>nil\<close>.\<close>

definition mapValue :: "gval option \<Rightarrow> anymap" where
  "mapValue v = (case v of Some (VMap m) \<Rightarrow> Some m | _ \<Rightarrow> None)"

definition any_at :: "anymap \<Rightarrow> string \<Rightarrow> gval option" where
  "any_at om k = (case om of None \<Rightarrow> None | Some m \<Rightarrow> map_of m k)"

definition unmarshal_raws :: "string \<Rightarrow> anymap list result" where
  "unmarshal_raws data =
     (case parse_json data of
        None \<Rightarrow> Inl (ErrLib ''json: syntax error'')
      | Some j \<Rightarrow> decode_slice (\<lambda>j. decode_map j None) j [])"

fun load_loop :: "nat \<Rightarrow> anymap list \<Rightarrow> mock_event list result" where
  "load_loop i [] = Inr []"
| "load_loop i (raw # raws) =
     (let context_map = mapValue (any_at raw ''context''); subject = mapValue (any_at raw ''subject'')
      in if context_map = None then Inl (ErrNew (''event '' @ show_nat i @ '' has no context''))
         else case ParseRFC3339 (stringValue (any_at context_map ''timestamp'')) of
           None \<Rightarrow>
             Inl (ErrWrap (''event '' @ show_nat i @ '' has an invalid timestamp: '')
               (ErrLib ''parsing time'') [])
         | Some ts \<Rightarrow>
             bind_result (load_loop (Suc i) raws) (\<lambda>events.
               Inr (\<lparr>me_raw = (case raw of None \<Rightarrow> [] | Some m \<Rightarrow> m),
                 me_id = stringValue (any_at context_map ''id''),
                 me_eventType = stringValue (any_at context_map ''type''),
                 me_subjectID = stringValue (any_at subject ''id''),
                 me_timestamp = ts\<rparr> # events)))"

definition loadEvents :: "(string \<Rightarrow> string result) \<Rightarrow> string \<Rightarrow> mock_event list result" where
  "loadEvents read_file path =
     (case read_file path of
        Inl err \<Rightarrow> Inl (ErrWrap ''read events file: '' err [])
      | Inr data \<Rightarrow>
          (case unmarshal_raws data of
             Inl err \<Rightarrow> Inl (ErrWrap ''parse events file: '' err [])
           | Inr raws \<Rightarrow>
               if raws = [] then Inl (ErrNew ''events file contains no events'')
               else load_loop 0 raws))"

definition shift_event :: "gotime \<Rightarrow> gotime \<Rightarrow> mock_event \<Rightarrow> mock_event" where
  "shift_event now last_time ev =
     (let shifted = Add now (Sub (me_timestamp ev) last_time);
          ev = ev\<lparr>me_timestamp := shifted\<rparr>
      in case mapValue (map_of (me_raw ev) ''context'') of
           Some context_map \<Rightarrow>
             ev\<lparr>me_raw := AList.update ''context''
               (VMap (AList.update ''timestamp'' (VStr (FormatRFC3339 shifted)) context_map)) (me_raw ev)\<rparr>
         | None \<Rightarrow> ev)"

definition shiftTimestamps :: "mock_event list \<Rightarrow> gotime \<Rightarrow> mock_event list" where
  "shiftTimestamps events now =
     (if events = [] then []
      else map (shift_event now (me_timestamp (events ! (length events - 1)))) events)"

definition serviceName :: "mock_event \<Rightarrow> string" where
  "serviceName ev =
     (let service = mapValue (any_at (mapValue (any_at (mapValue (any_at (Some (me_raw ev)) ''subject''))
            ''content'')) ''service'');
          name = stringValue (any_at service ''name'')
      in if name \<noteq> [] then name else me_subjectID ev)"

section \<open>Talking to the bridge\<close>

definition checkHealth :: "'n http_client \<Rightarrow> string \<Rightarrow> 'n \<Rightarrow> gerror option \<times> 'n" where
  "checkHealth c healthURL s =
     (case hc_url_error c healthURL of
        Some err \<Rightarrow> (Some err, s)
      | None \<Rightarrow>
          (case hc_get c healthURL s of
             (Inl err, s) \<Rightarrow> (Some err, s)
           | (Inr resp, s) \<Rightarrow>
               if rp_status resp \<noteq> 200
               then (Some (ErrNew (''health returned '' @ show_nat (rp_status resp))), s)
               else (None, s)))"

text \<open>The loop polls until the bridge answers or the deadline has passed.\<close>

partial_function (option) wait_loop ::
  "'n http_client \<Rightarrow> string \<Rightarrow> duration \<Rightarrow> gotime \<Rightarrow> 'n \<Rightarrow> (gerror option \<times> 'n) option" where
  "wait_loop c healthURL timeout deadline s =
     (case checkHealth c healthURL s of
        (None, s) \<Rightarrow> Some (None, s)
      | (Some err, s) \<Rightarrow>
          if After (hc_now c s) deadline
          then Some (Some (ErrWrap (''bridge did not become healthy within '' @ Duration_String timeout @ '': '')
                 err []), s)
          else wait_loop c healthURL timeout deadline (hc_sleep c (2 * second) s))"

definition waitForBridge ::
  "'n http_client \<Rightarrow> string \<Rightarrow> duration \<Rightarrow> 'n \<Rightarrow> (gerror option \<times> 'n) option" where
  "waitForBridge c bridgeURL timeout s =
     wait_loop c (bridgeURL @ ''/api/v1/health'') timeout (Add (hc_now c s) timeout) s"

fun read_upto :: "nat \<Rightarrow> http_body \<Rightarrow> string" where
  "read_upto n (Whole b) = take n b"
| "read_upto n (Cut b err) = take n b"

definition sendEvent ::
  "(string \<Rightarrow> string) \<Rightarrow> 'n http_client \<Rightarrow> string \<Rightarrow> mock_event \<Rightarrow> 'n \<Rightarrow> gerror option \<times> 'n" where
  "sendEvent num c bridgeURL ev s =
     (let body = print_json (any_json num (VMap (me_raw ev))); url = bridgeURL @ ''/api/v1/events''
      in case hc_url_error c url of
           Some err \<Rightarrow> (Some err, s)
         | None \<Rightarrow>
             (case hc_post c url body s of
                (Inl err, s) \<Rightarrow> (Some err, s)
              | (Inr resp, s) \<Rightarrow>
                  if rp_status resp \<in> set [200, 201, 202] then (None, s)
                  else (Some (ErrNew (''bridge returned '' @ show_nat (rp_status resp) @ '': '' @
                         trim_space (read_upto 4096 (rp_body resp)))), s)))"

text \<open>The loop of \<open>run\<close>, with the service and the incident it remembers for its last lines.\<close>

fun replay ::
  "(string \<Rightarrow> string) \<Rightarrow> 'n http_client \<Rightarrow> string \<Rightarrow> duration \<Rightarrow> mock_event list \<Rightarrow> string \<times> string \<Rightarrow> 'n \<Rightarrow>
   (string \<times> string) result \<times> 'n" where
  "replay num c bridgeURL delay [] seen s = (Inr seen, s)"
| "replay num c bridgeURL delay (ev # evs) seen s =
     (case sendEvent num c bridgeURL ev s of
        (Some err, s) \<Rightarrow> (Inl (ErrWrap (''send event '' @ me_id ev @ '': '') err []), s)
      | (None, s) \<Rightarrow>
          let deployed = (if strings_Contains (me_eventType ev) ''.service.deployed.'' then serviceName ev
                          else fst seen);
              incident = (if strings_Contains (me_eventType ev) ''.incident.detected.'' then me_id ev
                          else snd seen)
          in replay num c bridgeURL delay evs (deployed, incident)
               (if evs \<noteq> [] \<and> 0 < delay then hc_sleep c delay s else s))"

definition mock_run ::
  "(string \<Rightarrow> duration result) \<Rightarrow> (string \<Rightarrow> string) \<Rightarrow> (string \<Rightarrow> string) \<Rightarrow> (string \<Rightarrow> string result) \<Rightarrow>
   'n http_client \<Rightarrow> 'n \<Rightarrow> ((string \<times> string) result \<times> 'n) option" where
  "mock_run parse_duration num env read_file c s =
     (let bridgeURL = trim_right_slash (getEnv env ''BRIDGE_URL'' defaultBridgeURL);
          eventsFile = getEnv env ''EVENTS_FILE'' defaultEventsFile
      in case parse_duration (getEnv env ''EVENT_DELAY'' (Duration_String defaultDelay)) of
           Inl err \<Rightarrow> Some (Inl (ErrWrap ''invalid EVENT_DELAY: '' err []), s)
         | Inr delay \<Rightarrow>
      (case parse_duration (getEnv env ''WAIT_TIMEOUT'' (Duration_String defaultWait)) of
           Inl err \<Rightarrow> Some (Inl (ErrWrap ''invalid WAIT_TIMEOUT: '' err []), s)
         | Inr waitTimeout \<Rightarrow>
      (case loadEvents read_file eventsFile of
           Inl err \<Rightarrow> Some (Inl err, s)
         | Inr events \<Rightarrow>
             let events = shiftTimestamps events (UTC (hc_now c s))
             in case waitForBridge c bridgeURL waitTimeout s of
                  None \<Rightarrow> None
                | Some (Some err, s) \<Rightarrow> Some (Inl err, s)
                | Some (None, s) \<Rightarrow> Some (replay num c bridgeURL delay events ([], []) s))))"

lemma default_duration_texts: "Duration_String defaultDelay = ''1s''" "Duration_String defaultWait = ''1m0s''"
  by code_simp+

section \<open>Moving the timestamps\<close>

lemma shift_event_simps [simp]:
  "me_id (shift_event now l ev) = me_id ev" "me_eventType (shift_event now l ev) = me_eventType ev"
  "me_subjectID (shift_event now l ev) = me_subjectID ev"
  "me_timestamp (shift_event now l ev) = Add now (Sub (me_timestamp ev) l)"
  by (simp_all add: shift_event_def Let_def split: option.splits)

text \<open>What the bridge will read: the timestamp of the context of a raw event.\<close>

definition context_time :: "mock_event \<Rightarrow> gotime option" where
  "context_time ev = ParseRFC3339 (stringValue (any_at (mapValue (map_of (me_raw ev) ''context'')) ''timestamp''))"

lemma shift_event_context:
  assumes "mapValue (map_of (me_raw ev) ''context'') \<noteq> None"
  shows "stringValue (any_at (mapValue (map_of (me_raw (shift_event now l ev)) ''context'')) ''timestamp'') =
    FormatRFC3339 (Add now (Sub (me_timestamp ev) l))"
  using assms by (auto simp: shift_event_def Let_def mapValue_def any_at_def stringValue_def)

lemma load_loop_context:
  "load_loop i raws = Inr evs \<Longrightarrow> ev \<in> set evs \<Longrightarrow>
     mapValue (map_of (me_raw ev) ''context'') \<noteq> None \<and> context_time ev = Some (me_timestamp ev)"
  by (induction i raws arbitrary: evs rule: load_loop.induct)
    (auto simp: Let_def bind_result_Inr any_at_def context_time_def split: if_splits option.splits)

text \<open>
  C39. Moving the timestamps keeps the events, their order and the time between them, and ends the
  sequence now; the timestamp the bridge will read is the moved one, cut to whole seconds. The
  years stay within four digits and the events within the range of a duration.
\<close>
theorem shiftTimestamps_replay:
  assumes "loadEvents read_file path = Inr evs" and "gt_off now = 0"
    and "\<And>ev. ev \<in> set evs \<Longrightarrow> min_duration \<le> gt_ns (me_timestamp ev) - gt_ns (me_timestamp (last evs)) \<and>
      gt_ns (me_timestamp ev) - gt_ns (me_timestamp (last evs)) \<le> max_duration"
    and "\<And>ev. ev \<in> set (shiftTimestamps evs now) \<Longrightarrow>
      0 \<le> fst (fst (clock (me_timestamp ev))) \<and> fst (fst (clock (me_timestamp ev))) \<le> 9999"
  shows "map me_id (shiftTimestamps evs now) = map me_id evs \<and>
    me_timestamp (last (shiftTimestamps evs now)) = now \<and>
    map (\<lambda>ev. gt_ns (me_timestamp ev) - gt_ns now) (shiftTimestamps evs now) =
      map (\<lambda>ev. gt_ns (me_timestamp ev) - gt_ns (me_timestamp (last evs))) evs \<and>
    map context_time (shiftTimestamps evs now) =
      map (\<lambda>ev. Some \<lparr>gt_ns = gt_ns (me_timestamp ev) div 10 ^ 9 * 10 ^ 9, gt_off = 0\<rparr>)
        (shiftTimestamps evs now)"
proof -
  obtain raws where raws: "load_loop 0 raws = Inr evs" "raws \<noteq> []"
    using assms(1) by (auto simp: loadEvents_def split: sum.splits if_splits)
  then have ne: "evs \<noteq> []"
    by (cases raws) (auto simp: Let_def bind_result_Inr split: if_splits option.splits)
  then have s: "shiftTimestamps evs now = map (shift_event now (me_timestamp (last evs))) evs"
    by (simp add: shiftTimestamps_def last_conv_nth)
  have sub: "Sub (me_timestamp ev) (me_timestamp (last evs)) =
      gt_ns (me_timestamp ev) - gt_ns (me_timestamp (last evs))" if "ev \<in> set evs" for ev
    using assms(3) [OF that] by (simp add: Sub_exact)
  have "context_time (shift_event now (me_timestamp (last evs)) ev) =
      Some \<lparr>gt_ns = gt_ns (me_timestamp (shift_event now (me_timestamp (last evs)) ev)) div 10 ^ 9 * 10 ^ 9,
        gt_off = 0\<rparr>" if ev: "ev \<in> set evs" for ev
  proof -
    let ?t = "Add now (Sub (me_timestamp ev) (me_timestamp (last evs)))"
    have off: "gt_off ?t = 0" using assms(2) by (simp add: Add_def)
    have "ParseRFC3339 (FormatRFC3339 ?t) = Some (?t\<lparr>gt_ns := gt_ns ?t div 10 ^ 9 * 10 ^ 9\<rparr>)"
      using assms(4) [of "shift_event now (me_timestamp (last evs)) ev"] ev off
      by (intro parse_format) (auto simp: s offset_ok_def)
    moreover have "?t\<lparr>gt_ns := n\<rparr> = \<lparr>gt_ns = n, gt_off = 0\<rparr>" for n
      using off by (cases ?t) simp
    ultimately show ?thesis
      using shift_event_context load_loop_context [OF raws(1) ev] by (simp add: context_time_def)
  qed
  moreover have "me_timestamp (last (map (shift_event now (me_timestamp (last evs))) evs)) = now"
    using ne by (simp add: last_map Sub_self Add_def)
  ultimately show ?thesis
    unfolding s by (simp add: comp_def sub Add_def)
qed

definition sample_doc :: json where
  "sample_doc =
     JArr [JObj [(''context'', JObj [(''id'', JStr ''a''), (''timestamp'', JStr ''2026-01-15T10:00:00Z'')])],
       JObj [(''context'', JObj [(''id'', JStr ''b''), (''timestamp'', JStr ''2026-01-15T10:05:00.5Z'')])]]"

definition sample_raws :: "anymap list" where
  "sample_raws = (case decode_slice (\<lambda>j. decode_map j None) sample_doc [] of Inr raws \<Rightarrow> raws | Inl err \<Rightarrow> [])"

definition sample_events :: "mock_event list" where
  "sample_events = (case load_loop 0 sample_raws of Inr evs \<Rightarrow> evs | Inl err \<Rightarrow> [])"

lemma sample_events_load:
  "loadEvents (\<lambda>p. Inr (print_json sample_doc)) ''events.json'' = Inr sample_events"
proof -
  have "tag_literal ''context''" "tag_literal ''id''" "tag_literal ''timestamp''" "tag_literal ''a''"
    "tag_literal ''b''" "tag_literal ''2026-01-15T10:00:00Z''" "tag_literal ''2026-01-15T10:05:00.5Z''"
    by code_simp+
  note lits = this [THEN tag_literal]
  have "json_ok max_depth sample_doc"
    by (simp add: sample_doc_def max_depth_def lits)
  then have "parse_json (print_json sample_doc) = Some sample_doc" by (rule parse_print)
  moreover have "decode_slice (\<lambda>j. decode_map j None) sample_doc [] = Inr sample_raws" by code_simp
  moreover have "sample_raws \<noteq> []" by code_simp
  moreover have "load_loop 0 sample_raws = Inr sample_events" by code_simp
  ultimately show ?thesis by (simp add: loadEvents_def unmarshal_raws_def)
qed

theorem shiftTimestamps_replay_witness:
  "map me_id (shiftTimestamps sample_events \<lparr>gt_ns = 63900000000 * 10 ^ 9, gt_off = 0\<rparr>) = map me_id sample_events \<and>
   me_timestamp (last (shiftTimestamps sample_events \<lparr>gt_ns = 63900000000 * 10 ^ 9, gt_off = 0\<rparr>)) =
     \<lparr>gt_ns = 63900000000 * 10 ^ 9, gt_off = 0\<rparr>"
proof -
  let ?now = "\<lparr>gt_ns = 63900000000 * 10 ^ 9, gt_off = 0\<rparr>" and ?evs = sample_events
  have r: "list_all (\<lambda>ev. min_duration \<le> gt_ns (me_timestamp ev) - gt_ns (me_timestamp (last ?evs)) \<and>
      gt_ns (me_timestamp ev) - gt_ns (me_timestamp (last ?evs)) \<le> max_duration) ?evs"
    by code_simp
  have y: "list_all (\<lambda>ev. 0 \<le> fst (fst (clock (me_timestamp ev))) \<and> fst (fst (clock (me_timestamp ev))) \<le> 9999)
      (shiftTimestamps ?evs ?now)"
    by code_simp
  show ?thesis
    using shiftTimestamps_replay [OF sample_events_load, of ?now] r y by (auto simp: list_all_iff)
qed

section \<open>Waiting\<close>

text \<open>The clock of a client: sleeping lets it advance, and a request never turns it back.\<close>

locale ticking =
  fixes c :: "'n http_client"
  assumes sleep_advances: "gt_ns (hc_now c s) + d \<le> gt_ns (hc_now c (hc_sleep c d s))"
    and get_keeps_time: "hc_get c url s = (r, s') \<Longrightarrow> gt_ns (hc_now c s) \<le> gt_ns (hc_now c s')"
begin

lemma check_keeps_time: "checkHealth c url s = (r, s') \<Longrightarrow> gt_ns (hc_now c s) \<le> gt_ns (hc_now c s')"
  using get_keeps_time [of url s]
  by (auto simp: checkHealth_def split: option.splits prod.splits sum.splits if_splits)

text \<open>Every failed round takes two seconds at least, so the deadline is reached.\<close>

lemma wait_loop_returns:
  "\<exists>r s'. wait_loop c url timeout deadline s = Some (r, s') \<and>
     (r \<noteq> None \<longrightarrow> After (hc_now c s') deadline)"
proof (induction "nat (gt_ns deadline - gt_ns (hc_now c s) + 1)" arbitrary: s rule: less_induct)
  case less
  obtain r s1 where h: "checkHealth c url s = (r, s1)" by fastforce
  note t1 = check_keeps_time [OF h]
  show ?case
  proof (cases "r = None \<or> After (hc_now c s1) deadline")
    case True
    with h show ?thesis by (subst wait_loop.simps) (auto split: option.splits)
  next
    case False
    let ?s2 = "hc_sleep c (2 * second) s1"
    from False have nd: "gt_ns (hc_now c s1) \<le> gt_ns deadline" by (simp add: After_def)
    have "gt_ns (hc_now c s1) + 2 * second \<le> gt_ns (hc_now c ?s2)" by (rule sleep_advances)
    then have "nat (gt_ns deadline - gt_ns (hc_now c ?s2) + 1) < nat (gt_ns deadline - gt_ns (hc_now c s) + 1)"
      using t1 nd by (simp add: second_def)
    from less [OF this] False h show ?thesis by (subst wait_loop.simps) auto
  qed
qed

end

text \<open>
  C38. Waiting for the bridge ends, healthy or not: it gives up only after the timeout has passed,
  and it needs nothing of the network for that but that time passes.
\<close>
theorem waitForBridge_returns:
  assumes "ticking c"
  shows "\<exists>r s'. waitForBridge c bridgeURL timeout s = Some (r, s') \<and>
    (r \<noteq> None \<longrightarrow> After (hc_now c s') (Add (hc_now c s) timeout))"
  unfolding waitForBridge_def using assms by (rule ticking.wait_loop_returns)

end
