(* ===== verification/Api_Json.thy ===== *)
theory Api_Json
  imports Handlers Event_Codec
begin

text \<open>
  The bytes of a response: what \<open>json.Marshal\<close> writes for the response types of \<open>internal/api\<close>
  and for an event chain, and the text \<open>http.Error\<close> writes. \<open>num\<close> is the decimal form of a
  \<open>float64\<close>, as for a stored event.
\<close>

section \<open>Response types\<close>

definition int_json :: "int \<Rightarrow> json" where
  "int_json n = JNum ((if n < 0 then ''-'' else []) @ show_nat (nat \<bar>n\<bar>))"

text \<open>A \<open>map[string]string\<close>, its keys sorted.\<close>

definition string_map_json :: "(string \<times> string) list \<Rightarrow> json" where
  "string_map_json m = JObj (map (\<lambda>(k, v). (quote k, JStr (quote v))) (sort_key fst m))"

fun collect :: "('a \<Rightarrow> json result) \<Rightarrow> 'a list \<Rightarrow> json list result" where
  "collect f [] = Inr []"
| "collect f (x # xs) = bind_result (f x) (\<lambda>j. bind_result (collect f xs) (\<lambda>js. Inr (j # js)))"

definition chain_event_json :: "chain_event \<Rightarrow> json result" where
  "chain_event_json e =
     bind_result (marshal_time (ce_Timestamp e)) (\<lambda>at. Inr (JObj (
       string_member ''id'' (ce_ID e) @
       string_member ''type'' (ce_Type e) @
       [(''timestamp'', at)] @
       string_member ''summary'' (ce_Summary e) @
       omit_empty ''commit'' (ce_Commit e) @
       array_omit_empty ''links'' (map link_json (ce_Links e)))))"

definition root_cause_json :: "root_cause \<Rightarrow> json" where
  "root_cause_json rc = JObj (
     string_member ''commit'' (rc_Commit rc) @
     omit_empty ''author'' (rc_Author rc) @
     omit_empty ''message'' (rc_Message rc) @
     omit_empty ''repository'' (rc_Repository rc))"

definition event_chain_json :: "event_chain \<Rightarrow> json result" where
  "event_chain_json c =
     bind_result (collect chain_event_json (chain_Events c)) (\<lambda>es. Inr (JObj (
       omit_empty ''chainId'' (chain_ChainID c) @
       string_member ''startEvent'' (chain_StartEvent c) @
       [(''events'', JArr es)] @
       (case chain_RootCause c of None \<Rightarrow> [] | Some rc \<Rightarrow> [(''rootCause'', root_cause_json rc)]))))"

fun payload_json :: "(string \<Rightarrow> string) \<Rightarrow> payload \<Rightarrow> json result" where
  "payload_json num (ErrorResponse err msg) =
     Inr (JObj (string_member ''error'' err @ string_member ''message'' msg))"
| "payload_json num (SuccessResponse status eventId eventType timestamp) =
     Inr (JObj (string_member ''status'' status @ omit_empty ''eventId'' eventId @
       omit_empty ''eventType'' eventType @ omit_empty ''timestamp'' timestamp))"
| "payload_json num (DeploymentResponse service d links) =
     bind_result (deployment_json d) (\<lambda>j. Inr (JObj (string_member ''service'' service @
       [(''deployment'', j)] @ [(''links'', string_map_json links)])))"
| "payload_json num (ListResponse ds n limit) =
     bind_result (collect deployment_json ds) (\<lambda>js. Inr (JObj (
       [(''deployments'', JArr js)] @ [(''total'', int_json n)] @ [(''limit'', int_json limit)])))"
| "payload_json num (EventResponse e) =
     bind_result (stored_event_json num e) (\<lambda>j. Inr (JObj [(''event'', j)]))"
| "payload_json num (ChainResponse c) = event_chain_json c"
| "payload_json num (HealthResponse status version uptime checks) =
     Inr (JObj (string_member ''status'' status @ string_member ''version'' version @
       string_member ''uptime'' uptime @ [(''checks'', string_map_json checks)]))"

section \<open>Encoding fails only on instants\<close>

definition encodes :: "json result \<Rightarrow> bool" where
  "encodes r \<longleftrightarrow> (\<exists>j. r = Inr j)"

lemma encodes_simps [simp]:
  "encodes (Inr j)" "\<not> encodes (Inl e)" "encodes (marshal_time t) = time_marshals t"
  by (simp_all add: encodes_def marshal_time_def)

lemma encodes_bind: "(\<And>j. encodes (f j)) \<Longrightarrow> encodes (bind_result r f) = encodes r"
  by (cases r) simp_all

lemma collect_encodes: "(\<exists>js. collect f xs = Inr js) \<longleftrightarrow> list_all (\<lambda>x. encodes (f x)) xs"
  by (induction xs) (auto simp: bind_result_Inr encodes_def)

lemma bind_collect_encodes:
  "(\<And>js. encodes (g js)) \<Longrightarrow> encodes (bind_result (collect f xs) g) = list_all (\<lambda>x. encodes (f x)) xs"
  using collect_encodes [of f xs] by (cases "collect f xs") auto

lemma json_encodes:
  "encodes (deployment_json d) = time_marshals (dep_DeployedAt d)"
  "encodes (stored_event_json num e) = time_marshals (ev_Timestamp e)"
  "encodes (chain_event_json ce) = time_marshals (ce_Timestamp ce)"
  by (simp_all add: deployment_json_def stored_event_json_def chain_event_json_def encodes_bind)

lemma marshals_iff: "marshals p \<longleftrightarrow> encodes (payload_json num p)"
  by (cases p) (simp_all add: marshals_def event_chain_json_def encodes_bind bind_collect_encodes json_encodes
      list.pred_map comp_def)

section \<open>Rendering\<close>

text \<open>The content type and the bytes that go out; \<open>http.Error\<close> ends its text with a newline.\<close>

definition render :: "(string \<Rightarrow> string) \<Rightarrow> body \<Rightarrow> string \<times> string" where
  "render num b =
     (case b of
        JsonBody p \<Rightarrow>
          (''application/json; charset=utf-8'',
           case marshal (payload_json num p) of Inr s \<Rightarrow> s | Inl err \<Rightarrow> [])
      | PlainBody s \<Rightarrow> (''text/plain; charset=utf-8'', s @ [CHR 0x0A]))"

text \<open>A body a handler made is always one that encodes.\<close>

lemma respondJSON_encodes:
  "resp_body (respondJSON status p) = JsonBody q \<Longrightarrow> encodes (payload_json num q)"
  by (auto simp: respondJSON_def marshals_iff [of _ num] split: if_splits)

end
