(* ===== verification/Api_Server.thy ===== *)
theory Api_Server
  imports Api_Json Url_Escape
begin

text \<open>
  The HTTP server of \<open>internal/api/server.go\<close> and \<open>internal/api/middleware.go\<close>: the route table,
  the middleware chain and the dispatch to the handlers. The router is the chi library: how it
  matches a path against the table is a parameter, with its documented behaviour as a locale.
  The request-id and real-ip middlewares of that library touch nothing that is modelled, and the
  tracing wrapper passes the request on.
\<close>

section \<open>Requests\<close>

text \<open>
  What the handlers see of a request: the method, the decoded path, the raw path when it is not
  the default encoding of the path, the raw query, the body, the error of its context, and the
  readings of the clock the handlers take.
\<close>

record request =
  in_method :: string
  in_path :: string
  in_rawPath :: string
  in_query :: string
  in_body :: request_body
  in_ctx :: ctx
  in_elapsed :: duration
  in_uptime :: string

text \<open>\<open>net/url\<close>: the request target into path, raw path and query.\<close>

definition path_char :: "char \<Rightarrow> bool" where
  "path_char c \<longleftrightarrow> unreserved c \<or> c \<in> set ''$&+,/:;=@''"

definition escape_path :: "string \<Rightarrow> string" where
  "escape_path s = concat (map (\<lambda>c. if path_char c then [c] else percent c) s)"

definition parse_target :: "string \<Rightarrow> (string \<times> string \<times> string) option" where
  "parse_target target =
     (case cut (CHR ''?'') target of (raw, query, _) \<Rightarrow>
        map_option (\<lambda>path. (path, if escape_path path = raw then [] else raw, query))
          (url_unescape False raw))"

text \<open>\<open>Query().Get(key)\<close>: pairs that do not decode, or hold a semicolon, are dropped.\<close>

fun parse_query :: "string list \<Rightarrow> (string \<times> string) list" where
  "parse_query [] = []"
| "parse_query (piece # pieces) =
     (if piece = [] \<or> CHR '';'' \<in> set piece then parse_query pieces
      else
        (case cut (CHR ''='') piece of (key, value, _) \<Rightarrow>
           (case (url_unescape True key, url_unescape True value) of
              (Some k, Some v) \<Rightarrow> (k, v) # parse_query pieces
            | _ \<Rightarrow> parse_query pieces)))"

definition query_get :: "string \<Rightarrow> string \<Rightarrow> string" where
  "query_get query key =
     (case map_of (parse_query (split_on (CHR ''&'') query)) key of None \<Rightarrow> [] | Some v \<Rightarrow> v)"

section \<open>Routes\<close>

definition healthPath :: string where "healthPath = ''/api/v1/health''"
definition metricsPath :: string where "metricsPath = ''/metrics''"

datatype api_endpoint = PostEvent | GetEventById | ListAll | GetByService | GetChainOf | Health

datatype endpoint = Api api_endpoint | MetricsExposition

record route =
  rt_method :: "string option"
  rt_pattern :: string
  rt_endpoint :: endpoint

definition mount :: "string \<Rightarrow> route list \<Rightarrow> route list" where
  "mount prefix rs = map (\<lambda>r. r\<lparr>rt_pattern := prefix @ rt_pattern r\<rparr>) rs"

definition routes :: "route list" where
  "routes =
     mount ''/api/v1''
       [\<lparr>rt_method = Some ''POST'', rt_pattern = ''/events'', rt_endpoint = Api PostEvent\<rparr>,
        \<lparr>rt_method = Some ''GET'', rt_pattern = ''/events/{eventId}'', rt_endpoint = Api GetEventById\<rparr>,
        \<lparr>rt_method = Some ''GET'', rt_pattern = ''/deployments'', rt_endpoint = Api ListAll\<rparr>,
        \<lparr>rt_method = Some ''GET'', rt_pattern = ''/deployments/{service}'', rt_endpoint = Api GetByService\<rparr>,
        \<lparr>rt_method = Some ''GET'', rt_pattern = ''/chain/{eventId}'', rt_endpoint = Api GetChainOf\<rparr>,
        \<lparr>rt_method = Some ''GET'', rt_pattern = ''/health'', rt_endpoint = Api Health\<rparr>] @
     [\<lparr>rt_method = None, rt_pattern = metricsPath, rt_endpoint = MetricsExposition\<rparr>]"

text \<open>
  The router answers a method, a raw path and a path with the endpoint of a route and the URL
  parameters, or by itself with a status and a text.
\<close>

datatype routed = Matched endpoint "(string \<times> string) list" | Unrouted int string

type_synonym router = "route list \<Rightarrow> string \<Rightarrow> string \<Rightarrow> string \<Rightarrow> routed"

locale router_contract =
  fixes route_of :: router
  assumes only_routes: "route_of routes m raw path = Matched ep ps \<Longrightarrow>
      \<exists>r \<in> set routes. rt_endpoint r = ep \<and> (rt_method r = None \<or> rt_method r = Some m)"
    and static_route: "r \<in> set routes \<Longrightarrow> rt_method r = Some m \<Longrightarrow> CHR ''{'' \<notin> set (rt_pattern r) \<Longrightarrow>
      route_of routes m [] (rt_pattern r) = Matched (rt_endpoint r) []"
    and param_route: "r \<in> set routes \<Longrightarrow> rt_method r = Some m \<Longrightarrow>
      rt_pattern r = pre @ CHR ''{'' # name @ [CHR ''}''] \<Longrightarrow> CHR ''{'' \<notin> set pre \<Longrightarrow>
      v \<noteq> [] \<Longrightarrow> CHR ''/'' \<notin> set v \<Longrightarrow>
      route_of routes m [] (pre @ v) = Matched (rt_endpoint r) [(name, v)]"
begin

lemma get_service_route:
  "v \<noteq> [] \<Longrightarrow> CHR ''/'' \<notin> set v \<Longrightarrow>
     route_of routes ''GET'' [] (''/api/v1/deployments/'' @ v) = Matched (Api GetByService) [(''service'', v)]"
  using param_route [of "\<lparr>rt_method = Some ''GET'', rt_pattern = ''/api/v1/deployments/{service}'',
      rt_endpoint = Api GetByService\<rparr>" "''GET''" "''/api/v1/deployments/''" "''service''" v]
  by (simp add: routes_def mount_def)

text \<open>Only a POST reaches the handler that writes.\<close>

lemma post_only: "route_of routes m raw path = Matched (Api PostEvent) ps \<Longrightarrow> m = ''POST''"
  using only_routes [of m raw path "Api PostEvent" ps] by (auto simp: routes_def mount_def)

end

definition url_param :: "(string \<times> string) list \<Rightarrow> string \<Rightarrow> string" where
  "url_param ps name = (case map_of ps name of None \<Rightarrow> [] | Some v \<Rightarrow> v)"

section \<open>Writers, panics and the state of the server\<close>

type_synonym header = "(string, string) gomap"

datatype panic = ErrAbortHandler | OtherPanic string

datatype outcome = Answered int string | Panicked panic

text \<open>The fields of an access log line that do not come from the libraries.\<close>

record access_log =
  log_method :: string
  log_path :: string
  log_status :: int
  log_bytes :: nat

record 's server_state =
  sv_bridge :: "'s bridge"
  sv_log :: "access_log list"

text \<open>
  A handler gets the header map of the response writer and returns it. None of the program's
  handlers panics after it began to write, so a panic leaves a response nothing was written to.
\<close>

type_synonym 's http_handler = "request \<Rightarrow> header \<Rightarrow> 's server_state \<Rightarrow> outcome \<times> header \<times> 's server_state"

text \<open>\<open>http.Error\<close>, behind a plain body, also tells the browser not to guess another type.\<close>

definition write_response :: "(string \<Rightarrow> string) \<Rightarrow> response \<Rightarrow> header \<Rightarrow> outcome \<times> header" where
  "write_response num resp hdr =
     (case render num (resp_body resp) of (ctype, text) \<Rightarrow>
        let hdr = AList.update ''Content-Type'' ctype hdr;
            hdr = (case resp_body resp of
                     PlainBody _ \<Rightarrow> AList.update ''X-Content-Type-Options'' ''nosniff'' hdr
                   | JsonBody _ \<Rightarrow> hdr)
        in (Answered (resp_status resp) text, hdr))"

definition CORSMiddleware :: "'s http_handler \<Rightarrow> 's http_handler" where
  "CORSMiddleware nxt req hdr s =
     (let hdr = AList.update ''Access-Control-Allow-Origin'' ''*'' hdr;
          hdr = AList.update ''Access-Control-Allow-Methods'' ''GET, POST, OPTIONS'' hdr;
          hdr = AList.update ''Access-Control-Allow-Headers'' ''Content-Type, Accept'' hdr;
          hdr = AList.update ''Access-Control-Max-Age'' ''3600'' hdr
      in if in_method req = ''OPTIONS'' then (Answered 204 [], hdr, s) else nxt req hdr s)"

definition LoggingMiddleware :: "'s http_handler \<Rightarrow> 's http_handler" where
  "LoggingMiddleware nxt req hdr s =
     (case nxt req hdr s of
        (Answered status text, hdr, s) \<Rightarrow>
          (Answered status text, hdr,
           s\<lparr>sv_log := sv_log s @ [\<lparr>log_method = in_method req, log_path = in_path req,
             log_status = status, log_bytes = length text\<rparr>]\<rparr>)
      | (Panicked p, hdr, s) \<Rightarrow> (Panicked p, hdr, s))"

definition RecoveryMiddleware :: "(string \<Rightarrow> string) \<Rightarrow> 's http_handler \<Rightarrow> 's http_handler" where
  "RecoveryMiddleware num nxt req hdr s =
     (case nxt req hdr s of
        (Panicked ErrAbortHandler, hdr, s) \<Rightarrow> (Panicked ErrAbortHandler, hdr, s)
      | (Panicked (OtherPanic t), hdr, s) \<Rightarrow>
          (case write_response num (respondError 500 ''internal_error'' ''Internal server error'') hdr of
             (out, hdr) \<Rightarrow> (out, hdr, s))
      | (Answered status text, hdr, s) \<Rightarrow> (Answered status text, hdr, s))"

section \<open>The server\<close>

record 's server =
  sr_match :: router
  sr_handler :: "'s handler"
  sr_num :: "string \<Rightarrow> string"
  sr_exposition :: "metrics \<Rightarrow> header \<Rightarrow> outcome \<times> header"

text \<open>The endpoint handlers, with the parameters they read from the URL.\<close>

definition call_endpoint ::
  "'s handler \<Rightarrow> api_endpoint \<Rightarrow> (string \<times> string) list \<Rightarrow> request \<Rightarrow> 's bridge \<Rightarrow> response \<times> 's bridge" where
  "call_endpoint h ep ps req br =
     (let query = query_get (in_query req)
      in case ep of
           PostEvent \<Rightarrow> HandlePostEvent h (in_ctx req) (in_body req) (in_elapsed req) br
         | GetEventById \<Rightarrow> HandleGetEvent h (in_ctx req) (url_param ps ''eventId'') br
         | ListAll \<Rightarrow>
             HandleListDeployments h (in_ctx req) (query ''environment'') (query ''limit'') (query ''since'') br
         | GetByService \<Rightarrow>
             HandleGetDeployment h (in_ctx req) (url_param ps ''service'') (query ''environment'') br
         | GetChainOf \<Rightarrow> HandleGetChain h (in_ctx req) (url_param ps ''eventId'') br
         | Health \<Rightarrow> HandleHealth h (in_ctx req) (in_uptime req) br)"

definition dispatch :: "'s server \<Rightarrow> 's http_handler" where
  "dispatch sr req hdr s =
     (case sr_match sr routes (in_method req) (in_rawPath req) (in_path req) of
        Unrouted status text \<Rightarrow> (Answered status text, hdr, s)
      | Matched MetricsExposition ps \<Rightarrow>
          (case sr_exposition sr (br_metrics (sv_bridge s)) hdr of (out, hdr) \<Rightarrow> (out, hdr, s))
      | Matched (Api ep) ps \<Rightarrow>
          (case call_endpoint (sr_handler sr) ep ps req (sv_bridge s) of
             (resp, br) \<Rightarrow>
               (case write_response (sr_num sr) resp hdr of
                  (out, hdr) \<Rightarrow> (out, hdr, s\<lparr>sv_bridge := br\<rparr>))))"

definition serve :: "'s server \<Rightarrow> request \<Rightarrow> 's server_state \<Rightarrow> outcome \<times> header \<times> 's server_state" where
  "serve sr req s =
     RecoveryMiddleware (sr_num sr) (LoggingMiddleware (CORSMiddleware (dispatch sr))) req [] s"

section \<open>A router\<close>

text \<open>
  Segment by segment matching of a pattern, the first route of the table whose method fits. It
  shows that the contract can be met, and lets the model be run.
\<close>

fun match_segments :: "string list \<Rightarrow> string list \<Rightarrow> (string \<times> string) list option" where
  "match_segments [] [] = Some []"
| "match_segments (p # ps) (v # vs) =
     (if p \<noteq> [] \<and> p ! 0 = CHR ''{'' then
        (if v = [] then None
         else map_option (Cons (butlast (drop 1 p), v)) (match_segments ps vs))
      else if p = v then match_segments ps vs else None)"
| "match_segments _ _ = None"

fun segment_router :: router where
  "segment_router [] m raw path = Unrouted 404 ''404 page not found''"
| "segment_router (r # rs) m raw path =
     (case match_segments (split_on (CHR ''/'') (rt_pattern r))
             (split_on (CHR ''/'') (if raw = [] then path else raw)) of
        Some ps \<Rightarrow>
          if rt_method r = None \<or> rt_method r = Some m then Matched (rt_endpoint r) ps
          else segment_router rs m raw path
      | None \<Rightarrow> segment_router rs m raw path)"

lemma segment_router_only:
  "segment_router rs m raw path = Matched ep ps \<Longrightarrow>
     \<exists>r \<in> set rs. rt_endpoint r = ep \<and> (rt_method r = None \<or> rt_method r = Some m)"
  by (induction rs) (auto split: option.splits if_splits)

lemma param_pattern:
  assumes "pre @ CHR ''{'' # name @ [CHR ''}''] = pre' @ CHR ''{'' # name' @ [CHR ''}'']"
    and "CHR ''{'' \<notin> set pre" and "CHR ''{'' \<notin> set pre'"
  shows "pre = pre' \<and> name = name'"
proof -
  have tw: "takeWhile (\<lambda>c. c \<noteq> CHR ''{'') (p @ CHR ''{'' # r) = p" if "CHR ''{'' \<notin> set p" for p r
    using that by (induction p) auto
  from tw [OF assms(2), of "name @ [CHR ''}'']"] tw [OF assms(3), of "name' @ [CHR ''}'']"] assms(1)
  have "pre = pre'" by simp
  with assms(1) show ?thesis by simp
qed

lemma segment_param:
  assumes "r \<in> set routes" and "rt_method r = Some m"
    and "rt_pattern r = pre @ CHR ''{'' # name @ [CHR ''}'']" and "CHR ''{'' \<notin> set pre"
    and "v \<noteq> []" and "CHR ''/'' \<notin> set v"
  shows "segment_router routes m [] (pre @ v) = Matched (rt_endpoint r) [(name, v)]"
proof -
  have pats: "rt_pattern r = ''/api/v1/events/'' @ CHR ''{'' # ''eventId'' @ [CHR ''}''] \<or>
      rt_pattern r = ''/api/v1/deployments/'' @ CHR ''{'' # ''service'' @ [CHR ''}''] \<or>
      rt_pattern r = ''/api/v1/chain/'' @ CHR ''{'' # ''eventId'' @ [CHR ''}'']"
    if "CHR ''{'' \<in> set (rt_pattern r)"
    using assms(1) that by (auto simp: routes_def mount_def metricsPath_def)
  from assms(3) have "CHR ''{'' \<in> set (rt_pattern r)" by simp
  then have "(pre, name) \<in> {(''/api/v1/events/'', ''eventId''), (''/api/v1/deployments/'', ''service''),
      (''/api/v1/chain/'', ''eventId'')}"
    using pats assms(3,4) param_pattern [of pre name "''/api/v1/events/''" "''eventId''"]
      param_pattern [of pre name "''/api/v1/deployments/''" "''service''"]
      param_pattern [of pre name "''/api/v1/chain/''" "''eventId''"] by auto
  with assms show ?thesis
    by (auto simp: routes_def mount_def metricsPath_def split_on_id)
qed

interpretation segments: router_contract segment_router
proof
  fix r m assume "r \<in> set routes" "rt_method r = Some m" "CHR ''{'' \<notin> set (rt_pattern r)"
  then show "segment_router routes m [] (rt_pattern r) = Matched (rt_endpoint r) []"
    by (auto simp: routes_def mount_def metricsPath_def)
qed (rule segment_router_only, assumption, rule segment_param)

end
