(* ===== verification/Handler_Facts.thy ===== *)
theory Handler_Facts
  imports Handlers
begin

text \<open>
  Properties of the request handlers: the accounting of the metrics for every backend, what an
  accepted event makes visible to the queries that follow, and the limits of a listing.
\<close>

section \<open>The outcomes of an ingestion\<close>

lemma saved_deployment_cases:
  obtains (plain) "\<not> IsDeployment event"
  | (failed) err s where "IsDeployment event"
      "SaveDeployment S ctx (ToDeployment (Some event)) st = (Inl err, s)"
  | (ok) s where "IsDeployment event"
      "SaveDeployment S ctx (ToDeployment (Some event)) st = (Inr (), s)"
  by (cases "IsDeployment event"; cases "SaveDeployment S ctx (ToDeployment (Some event)) st")
    (auto split: sum.splits, metis old.sum.exhaust old.unit.exhaust)

text \<open>Where the store stands when the event itself is saved.\<close>

definition after_deployment :: "'s storage \<Rightarrow> ctx \<Rightarrow> cdevent \<Rightarrow> 's \<Rightarrow> 's \<Rightarrow> bool" where
  "after_deployment S ctx event s s1 \<longleftrightarrow>
     (if IsDeployment event
      then SaveDeployment S ctx (ToDeployment (Some event)) s = (Inr (), s1) else s1 = s)"

inductive post_outcome ::
  "'s handler \<Rightarrow> ctx \<Rightarrow> request_body \<Rightarrow> duration \<Rightarrow> 's bridge \<Rightarrow> int \<Rightarrow> 's bridge \<Rightarrow> bool"
  for h ctx req elapsed br where
  too_large: "read_all req = Inl MaxBytesError \<Longrightarrow>
    post_outcome h ctx req elapsed br 413
      (br\<lparr>br_metrics := EventRejected rejectTooLarge (br_metrics br)\<rparr>)"
| unreadable: "read_all req = Inl (ReadError err) \<Longrightarrow>
    post_outcome h ctx req elapsed br 400
      (br\<lparr>br_metrics := EventRejected rejectUnreadable (br_metrics br)\<rparr>)"
| unparsed: "read_all req = Inr body \<Longrightarrow> Parse body = Inl err \<Longrightarrow>
    post_outcome h ctx req elapsed br 400
      (br\<lparr>br_metrics := EventRejected rejectParse (br_metrics br)\<rparr>)"
| invalid: "read_all req = Inr body \<Longrightarrow> Parse body = Inr event \<Longrightarrow> Validate (Some event) = Some err \<Longrightarrow>
    post_outcome h ctx req elapsed br 400
      (br\<lparr>br_metrics := EventRejected rejectValidation (br_metrics br)\<rparr>)"
| no_deployment: "read_all req = Inr body \<Longrightarrow> Parse body = Inr event \<Longrightarrow> Validate (Some event) = None \<Longrightarrow>
    IsDeployment event \<Longrightarrow>
    SaveDeployment (h_storage h) ctx (ToDeployment (Some event)) (br_store br) = (Inl err, s) \<Longrightarrow>
    post_outcome h ctx req elapsed br 500
      (br\<lparr>br_metrics := EventRejected rejectStorage (br_metrics br), br_store := s\<rparr>)"
| no_event: "read_all req = Inr body \<Longrightarrow> Parse body = Inr event \<Longrightarrow> Validate (Some event) = None \<Longrightarrow>
    after_deployment (h_storage h) ctx event (br_store br) s1 \<Longrightarrow>
    SaveEvent (h_storage h) ctx (ToStoredEvent (Some event)) s1 = (Inl err, s) \<Longrightarrow>
    post_outcome h ctx req elapsed br 500
      (br\<lparr>br_metrics := EventRejected rejectStorage (br_metrics br), br_store := s\<rparr>)"
| accepted: "read_all req = Inr body \<Longrightarrow> Parse body = Inr event \<Longrightarrow> Validate (Some event) = None \<Longrightarrow>
    after_deployment (h_storage h) ctx event (br_store br) s1 \<Longrightarrow>
    SaveEvent (h_storage h) ctx (ToStoredEvent (Some event)) s1 = (Inr (), s) \<Longrightarrow>
    post_outcome h ctx req elapsed br 201
      (br\<lparr>br_metrics := ObserveProcessing elapsed (EventReceived (event_ShortType event) (br_metrics br)),
         br_store := s\<rparr>)"

inductive_cases post_outcomeE: "post_outcome h ctx req elapsed br st br'"

lemma post_outcome:
  assumes "HandlePostEvent h ctx req elapsed br = (resp, br')"
  shows "post_outcome h ctx req elapsed br (resp_status resp) br'"
proof (cases "read_all req")
  case (Inl e)
  with assms show ?thesis
    by (cases e) (auto simp: HandlePostEvent_def intro: too_large unreadable)
next
  case body: (Inr b)
  show ?thesis
  proof (cases "Parse b")
    case (Inl err)
    with assms body show ?thesis by (auto simp: HandlePostEvent_def intro: unparsed)
  next
    case ev: (Inr event)
    show ?thesis
    proof (cases "Validate (Some event)")
      case (Some err)
      with assms body ev show ?thesis by (auto simp: HandlePostEvent_def intro: invalid)
    next
      case ok: None
      note pre = body ev ok
      show ?thesis
      proof (cases rule: saved_deployment_cases
          [where event = event and S = "h_storage h" and ctx = ctx and st = "br_store br"])
        case plain
        obtain r s where "SaveEvent (h_storage h) ctx (ToStoredEvent (Some event)) (br_store br) = (r, s)"
          by (cases "SaveEvent (h_storage h) ctx (ToStoredEvent (Some event)) (br_store br)")
        moreover have "after_deployment (h_storage h) ctx event (br_store br) (br_store br)"
          using plain by (simp add: after_deployment_def)
        ultimately show ?thesis
          using assms pre plain
          by (cases r) (auto simp: HandlePostEvent_def intro: no_event accepted)
      next
        case (failed err s)
        with assms pre show ?thesis by (auto simp: HandlePostEvent_def intro: no_deployment)
      next
        case (ok s1)
        obtain r s where "SaveEvent (h_storage h) ctx (ToStoredEvent (Some event)) s1 = (r, s)"
          by (cases "SaveEvent (h_storage h) ctx (ToStoredEvent (Some event)) s1")
        moreover have "after_deployment (h_storage h) ctx event (br_store br) s1"
          using ok by (simp add: after_deployment_def)
        ultimately show ?thesis
          using assms pre ok
          by (cases r) (auto simp: HandlePostEvent_def intro: no_event accepted)
      qed
    qed
  qed
qed

text \<open>
  C18. Every ingestion is accounted for once, whatever the backend does: the answer is 201, 400,
  413 or 500; a 201 adds one to the received counters and one observation, any other answer adds
  one to the rejected counters and nothing else; and a request the client got wrong leaves the
  store as it was.
\<close>

theorem post_event_accounting:
  assumes "metrics_ok (br_metrics br)" and "HandlePostEvent h ctx req elapsed br = (resp, br')"
  shows "metrics_ok (br_metrics br') \<and>
    (if resp_status resp = 201
     then total (received (br_metrics br')) = Suc (total (received (br_metrics br))) \<and>
       rejected (br_metrics br') = rejected (br_metrics br)
     else resp_status resp \<in> {400, 413, 500} \<and>
       received (br_metrics br') = received (br_metrics br) \<and>
       durations (br_metrics br') = durations (br_metrics br) \<and>
       total (rejected (br_metrics br')) = Suc (total (rejected (br_metrics br)))) \<and>
    (resp_status resp \<in> {400, 413} \<longrightarrow> br_store br' = br_store br)"
  using post_outcome [OF assms(2)] assms(1)
  by (cases rule: post_outcomeE)
    (auto simp: metrics_ok_def EventRejected_def EventReceived_def ObserveProcessing_def total_inc)

text \<open>A request that is refused because its body is no JSON text.\<close>

definition sample_bridge :: "memory bridge" where
  "sample_bridge = \<lparr>br_metrics = New_metrics, br_store = run_saves sample_saves\<rparr>"

definition sample_handler :: "memory handler" where
  "sample_handler =
     \<lparr>h_storage = MemoryStorage stored_order, h_graph = NewEventGraph, h_visit = rev, h_version = ''dev''\<rparr>"

lemma sample_refused:
  "HandlePostEvent sample_handler None (FullBody ''nope'') 5 sample_bridge =
     (\<lparr>resp_status = 400, resp_body = JsonBody (ErrorResponse errInvalidEvent
         ''Failed to parse CDEvent: failed to unmarshal CDEvent: json: syntax error'')\<rparr>,
      sample_bridge\<lparr>br_metrics := EventRejected rejectParse New_metrics\<rparr>)"
proof -
  have "Parse ''nope'' = Inl (ErrWrap ''failed to unmarshal CDEvent: '' (ErrLib ''json: syntax error'') [])"
    by code_simp
  then show ?thesis
    by (simp add: HandlePostEvent_def maxBodyBytes_def sample_bridge_def)
qed

theorem post_event_accounting_witness:
  "total (rejected (br_metrics (snd
     (HandlePostEvent sample_handler None (FullBody ''nope'') 5 sample_bridge)))) = 1"
proof -
  have "metrics_ok (br_metrics sample_bridge)"
    by (simp add: sample_bridge_def metrics_ok_new)
  from post_event_accounting [OF this sample_refused] show ?thesis
    unfolding sample_refused by (simp add: sample_bridge_def New_metrics_def total_def)
qed

section \<open>What an accepted event makes visible\<close>

text \<open>An event the handler accepts on the in-memory store, from its parsed form.\<close>

definition acceptable :: "request_body \<Rightarrow> cdevent \<Rightarrow> bool" where
  "acceptable req event \<longleftrightarrow>
     (\<exists>body. read_all req = Inr body \<and> Parse body = Inr event) \<and> Validate (Some event) = None"

lemma accepted_post:
  assumes "acceptable req event" and "memory_plain (br_store br)"
    and "h_storage h = MemoryStorage rng"
    and "ToDeployment (Some event) = Some d" and "ToStoredEvent (Some event) = Some ev"
    and "IsDeployment event \<Longrightarrow> CHR 0x00 \<notin> set (dep_Service d)"
    and "HandlePostEvent h None req elapsed br = (resp, br')"
  shows "resp_status resp = 201 \<and> memory_plain (br_store br') \<and>
    memory_evs (br_store br') = (memory_evs (br_store br))(ctx_ID (Context event) \<mapsto> ev) \<and>
    memory_deps (br_store br') =
      (if IsDeployment event
       then (memory_deps (br_store br))((dep_Service d, dep_Environment d) \<mapsto> d)
       else memory_deps (br_store br))"
proof -
  from assms(1) obtain body where b: "read_all req = Inr body" "Parse body = Inr event"
    and v: "Validate (Some event) = None" by (auto simp: acceptable_def)
  define s1 where "s1 = (if IsDeployment event
    then snd (mem_SaveDeployment None (Some d) (br_store br)) else br_store br)"
  define s2 where "s2 = snd (mem_SaveEvent None (Some ev) s1)"
  have d: "mem_SaveDeployment None (Some d) s = (Inr (), snd (mem_SaveDeployment None (Some d) s))" for s
    by (simp add: mem_SaveDeployment_def)
  have e: "mem_SaveEvent None (Some ev) s1 = (Inr (), s2)"
    by (simp add: mem_SaveEvent_def s2_def)
  have s1: "memory_plain s1 \<and> memory_evs s1 = memory_evs (br_store br) \<and>
      memory_deps s1 = (if IsDeployment event
        then (memory_deps (br_store br))((dep_Service d, dep_Environment d) \<mapsto> d)
        else memory_deps (br_store br))"
    using memory_saves(1) [OF assms(2) _ d] assms(2,6)
    by (auto simp: s1_def plain_service_def)
  have "HandlePostEvent h None req elapsed br =
      (respondJSON 201 (SuccessResponse ''accepted'' (ctx_ID (Context event)) (ctx_Type (Context event))
         (FormatRFC3339 (UTC (ctx_Timestamp (Context event))))),
       br\<lparr>br_metrics := ObserveProcessing elapsed (EventReceived (event_ShortType event) (br_metrics br)),
          br_store := s2\<rparr>)"
  proof (cases "IsDeployment event")
    case True
    have "mem_SaveDeployment None (Some d) (br_store br) = (Inr (), s1)"
      using d [of "br_store br"] True unfolding s1_def by simp
    with b v assms(3-5) e True show ?thesis by (simp add: HandlePostEvent_def)
  next
    case False
    then have "s1 = br_store br" by (simp add: s1_def)
    with b v assms(3-5) e False show ?thesis by (simp add: HandlePostEvent_def)
  qed
  with assms(7) have "resp_status resp = 201" "br_store br' = s2" by auto
  with s1 memory_saves(2) [OF _ e] stored_event_fields(1) [OF assms(5)] show ?thesis
    by auto
qed

text \<open>
  C21. An accepted event is visible at once: its id is answered with its stored form, and when it
  is a deployment of a service without a NUL its service and environment are answered with the
  deployment made from it, whatever the store held before. (A timestamp at the edge of what
  RFC 3339 parsing admits cannot be encoded, and then the answer is the encoding error.)
\<close>

theorem post_then_get:
  assumes "acceptable req event" and "memory_plain (br_store br)"
    and "h_storage h = MemoryStorage rng"
    and "ToDeployment (Some event) = Some d" and "ToStoredEvent (Some event) = Some ev"
    and "CHR 0x00 \<notin> set (dep_Service d)"
    and "HandlePostEvent h None req elapsed br = (resp, br')"
  shows "resp_status resp = 201 \<and>
    HandleGetEvent h None (ctx_ID (Context event)) br' = (respondJSON 200 (EventResponse ev), br') \<and>
    (IsDeployment event \<and> dep_Environment d \<noteq> [] \<longrightarrow>
      HandleGetDeployment h None (dep_Service d) (dep_Environment d) br' =
        (respondJSON 200 (DeploymentResponse (dep_Service d) d (deployment_links (dep_Service d) d)), br'))"
proof -
  note p = accepted_post [OF assms(1-5) _ assms(7)]
  have plain: "memory_plain (br_store br')" and "resp_status resp = 201"
    and ev: "memory_evs (br_store br') (ctx_ID (Context event)) = Some ev"
    using p assms(6) by auto
  have valid: "valid_event event"
    using assms(1) by (simp add: acceptable_def Validate_valid)
  have "GetEvent (h_storage h) None (ctx_ID (Context event)) (br_store br') = (Inr ev, br_store br')"
    using mem.live_get_ev_eq [OF plain] ev by (simp add: assms(3))
  then have "HandleGetEvent h None (ctx_ID (Context event)) br' = (respondJSON 200 (EventResponse ev), br')"
    using valid by (simp add: HandleGetEvent_def valid_event_iff)
  moreover have "HandleGetDeployment h None (dep_Service d) (dep_Environment d) br' =
      (respondJSON 200 (DeploymentResponse (dep_Service d) d (deployment_links (dep_Service d) d)), br')"
    if "IsDeployment event" "dep_Environment d \<noteq> []"
  proof -
    have "memory_deps (br_store br') (dep_Service d, dep_Environment d) = Some d"
      using p assms(6) that by simp
    then have "GetDeployment (h_storage h) None (dep_Service d) (dep_Environment d) (br_store br') =
        (Inr d, br_store br')"
      using mem.live_get_dep_eq [OF plain, of "dep_Service d" "dep_Environment d"] assms(6)
      by (simp add: assms(3) plain_service_def)
    moreover have "dep_Service d \<noteq> []"
      using deployment_service_nonempty [OF assms(4)] valid by (simp add: valid_event_iff)
    ultimately show ?thesis
      using that(2) by (simp add: HandleGetDeployment_def)
  qed
  ultimately show ?thesis
    using \<open>resp_status resp = 201\<close> by blast
qed

text \<open>A complete deployment event as a request body.\<close>

definition sample_post :: string where
  "sample_post =
     ''{\"context\":{\"id\":\"d1\",\"type\":\"service.deployed\",\"source\":\"ci\",'' @
     ''\"timestamp\":\"2024-01-01T10:00:00Z\",\"chainId\":\"c\"},'' @
     ''\"subject\":{\"id\":\"api\",\"type\":\"service\",\"content\":{\"environment\":\"prod\"}}}''"

definition sample_posted :: deployment where
  "sample_posted =
     \<lparr>dep_ID = ''api'', dep_Service = ''api'', dep_Version = [], dep_Environment = ''prod'', dep_CommitSha = [],
      dep_Repository = [], dep_Branch = [], dep_Author = [], dep_PipelineID = [], dep_PipelineURL = [],
      dep_DeployedAt = \<lparr>gt_ns = 63839700000000000000, gt_off = 0\<rparr>, dep_DeployedBy = [],
      dep_EventID = ''d1'', dep_ChainID = ''c'', dep_Links = []\<rparr>"

lemma sample_post_parses:
  obtains e d where "acceptable (FullBody sample_post) e" and "ToDeployment (Some e) = Some d"
    and "dep_Service d = ''api''" and "dep_Environment d = ''prod''" and "IsDeployment e"
    and "ctx_ID (Context e) = ''d1''" and "ctx_ChainID (Context e) = ''c''" and "d = sample_posted"
proof -
  have p: "case Parse sample_post of Inl _ \<Rightarrow> False | Inr e \<Rightarrow>
      Validate (Some e) = None \<and> IsDeployment e \<and> ToDeployment (Some e) = Some sample_posted"
    by code_simp
  then obtain e where e: "Parse sample_post = Inr e" "Validate (Some e) = None" "IsDeployment e"
    "ToDeployment (Some e) = Some sample_posted"
    by (cases "Parse sample_post") simp_all
  then have "ctx_ID (Context e) = ''d1''" "ctx_ChainID (Context e) = ''c''"
    using deployment_fields(4,6) [OF e(4)] by (simp_all add: sample_posted_def)
  moreover have "read_all (FullBody sample_post) = Inr sample_post"
    by (simp add: sample_post_def maxBodyBytes_def)
  with e have "acceptable (FullBody sample_post) e"
    by (simp add: acceptable_def)
  ultimately show ?thesis using that e by (simp add: sample_posted_def)
qed

lemma sample_bridge_plain: "memory_plain (br_store sample_bridge)"
  unfolding sample_bridge_def using run_saves_state [OF sample_saves_plain] by simp

theorem post_then_get_witness:
  "\<exists>e d. dep_Service d = ''api'' \<and>
     fst (HandleGetDeployment sample_handler None ''api'' ''prod''
       (snd (HandlePostEvent sample_handler None (FullBody sample_post) 5 sample_bridge))) =
     respondJSON 200 (DeploymentResponse ''api'' d (deployment_links ''api'' d)) \<and>
     ToDeployment (Some e) = Some d"
proof -
  obtain e d where e: "acceptable (FullBody sample_post) e" "ToDeployment (Some e) = Some d"
    "dep_Service d = ''api''" "dep_Environment d = ''prod''" "IsDeployment e"
    by (rule sample_post_parses)
  obtain ev where ev: "ToStoredEvent (Some e) = Some ev" by (metis ToStoredEvent_Some not_None_eq)
  obtain resp br' where post: "HandlePostEvent sample_handler None (FullBody sample_post) 5 sample_bridge =
      (resp, br')" by fastforce
  have h: "h_storage sample_handler = MemoryStorage stored_order" by (simp add: sample_handler_def)
  have "CHR 0x00 \<notin> set (dep_Service d)" by (simp add: e(3))
  from post_then_get [OF e(1) sample_bridge_plain h e(2) ev this post] e post show ?thesis
    by (metis fst_conv snd_conv list.distinct(1))
qed

section \<open>Queries\<close>

lemma list_all_show_nat: "list_all is_digit (show_nat n)"
  by (induction n rule: show_nat.induct) (subst show_nat.simps, simp)

text \<open>
  C26. A listing query is answered, on the in-memory store, with at most as many deployments as
  the limit it reports, and that limit lies between 1 and 100; the deployments pass the filter
  and come newest first. A limit or an instant that does not parse is answered with 400.
\<close>

theorem list_deployments_bounded:
  assumes "memory_plain (br_store br)" and "visit_ok rng" and "h_storage h = MemoryStorage rng"
    and "HandleListDeployments h None env limitStr sinceStr br = (resp, br')"
  shows "br' = br \<and>
    (case (parse_limit limitStr, parse_since sinceStr) of
       (Some l, Some since) \<Rightarrow> 1 \<le> l \<and> l \<le> 100 \<and>
         (\<exists>ds. resp = respondJSON 200 (ListResponse ds (int (length ds)) l) \<and>
           int (length ds) \<le> l \<and> sorted (map deployment_key ds) \<and>
           (\<forall>d \<in> set ds. d \<in> ran (memory_deps (br_store br)) \<and>
              (env = [] \<or> dep_Environment d = env) \<and>
              (gt_ns since = 0 \<or> gt_ns since \<le> gt_ns (dep_DeployedAt d))))
     | _ \<Rightarrow> resp_status resp = 400)"
proof (cases "parse_limit limitStr")
  case None
  with assms(4) show ?thesis by (auto simp: HandleListDeployments_def)
next
  case l: (Some l)
  have bounds: "1 \<le> l \<and> l \<le> 100"
    using l by (auto simp: parse_limit_def defaultListLimit_def maxListLimit_def
        split: if_splits option.splits)
  show ?thesis
  proof (cases "parse_since sinceStr")
    case None
    with l assms(4) show ?thesis by (auto simp: HandleListDeployments_def)
  next
    case since: (Some since)
    let ?f = "\<lparr>lf_Environment = env, lf_Since = since, lf_Limit = l\<rparr>"
    let ?ds = "applyFilter (visit_deployments rng (map snd (mem_deployments (br_store br)))) ?f"
    have resp: "resp = respondJSON 200 (ListResponse ?ds (int (length ?ds)) l)" "br' = br"
      using assms(3,4) l since by (auto simp: HandleListDeployments_def mem_ListDeployments_def)
    obtain all where all: "set all = ran (memory_deps (br_store br))" "listing_of ?f all ?ds"
      using memory_listing [OF assms(1,2), of ?f] by blast
    have "int (length ?ds) \<le> l"
      using all(2) bounds by (auto simp: listing_of_def Let_def split: if_splits)
    moreover have "sorted (map deployment_key ?ds)" and sub: "set ?ds \<subseteq> {d \<in> set all. filter_matches ?f d}"
      using all(2) unfolding listing_of_def by blast+
    moreover have "filter_matches ?f d \<Longrightarrow> (env = [] \<or> dep_Environment d = env) \<and>
        (gt_ns since = 0 \<or> gt_ns since \<le> gt_ns (dep_DeployedAt d))" for d
      by (auto simp: filter_matches_def go_simps split: if_splits)
    ultimately show ?thesis
      using resp bounds all(1) l since by (auto intro!: exI [of _ ?ds])
  qed
qed

theorem list_deployments_bounded_witness:
  "\<exists>ds. fst (HandleListDeployments sample_handler None ''prod'' ''2'' [] sample_bridge) =
     respondJSON 200 (ListResponse ds (int (length ds)) 2) \<and> int (length ds) \<le> 2"
proof -
  have "visit_ok stored_order" "h_storage sample_handler = MemoryStorage stored_order"
    "parse_limit ''2'' = Some 2" "parse_since [] = Some zero_time"
    by (simp_all add: sample_handler_def parse_limit_def Atoi_def atoi_digits_def is_digit_def
        digits_val_def digit_val_def defaultListLimit_def maxListLimit_def parse_since_def)
  moreover obtain resp br' where "HandleListDeployments sample_handler None ''prod'' ''2'' [] sample_bridge =
      (resp, br')" by fastforce
  ultimately show ?thesis
    using list_deployments_bounded [OF sample_bridge_plain, of stored_order sample_handler "''prod''" "''2''" "[]"]
    by auto
qed

lemma digits_val_show_nat: "digits_val (show_nat n) = int n"
proof (induction n rule: show_nat.induct)
  case (1 n)
  show ?case
  proof (cases "n < 10")
    case True
    then show ?thesis
      by (subst show_nat.simps) (simp add: digits_val_def)
  next
    case False
    with 1 have "digits_val (show_nat n) = 10 * int (n div 10) + int n mod 10"
      by (subst show_nat.simps) (simp add: digits_val_snoc)
    then show ?thesis by (simp add: zdiv_int)
  qed
qed

lemma show_nat_first: "show_nat n = c # r \<Longrightarrow> is_digit c"
  using list_all_show_nat [of n] by simp

lemma show_nat_nonempty: "show_nat n \<noteq> []"
  by (subst show_nat.simps) simp

lemma Atoi_show_nat: "Atoi (show_nat n) = (if n < 2 ^ 63 then Some (int n) else None)"
proof -
  obtain c r where s: "show_nat n = c # r" using show_nat_nonempty by (cases "show_nat n") auto
  have c: "c \<noteq> CHR ''-''" "c \<noteq> CHR ''+''" using show_nat_first [OF s] by (auto simp: is_digit_def)
  have "atoi_digits (c # r) = Some (int n)"
    using list_all_show_nat [of n] digits_val_show_nat [of n] by (simp add: atoi_digits_def s)
  moreover have "int n < 2 ^ 63 \<longleftrightarrow> n < 2 ^ 63" by simp
  moreover have "- (2 ^ 63) \<le> int n" by simp
  ultimately show ?thesis
    unfolding s Atoi_def list.case Let_def using c by simp
qed

text \<open>
  A limit given in decimal is taken as it is up to 100 and capped at 100 beyond; zero is
  refused, and so is a number that does not fit a 64-bit integer, although it is positive.
\<close>

theorem parse_limit_decimal:
  "parse_limit (show_nat n) =
     (if n = 0 \<or> 2 ^ 63 \<le> n then None else Some (min 100 (int n)))"
  using show_nat_nonempty [of n]
  by (auto simp: parse_limit_def Atoi_show_nat maxListLimit_def)

text \<open>
  C28. On the in-memory store a deployment query for a service without a NUL is answered with the
  deployment of the named environment, without one with the newest deployment of the service, and with 404 exactly when
  there is none; the store is not touched.
\<close>

theorem get_deployment_answers:
  assumes "memory_plain (br_store br)" and "visit_ok rng" and "h_storage h = MemoryStorage rng"
    and "svc \<noteq> []" and "CHR 0x00 \<notin> set svc"
    and "HandleGetDeployment h None svc env br = (resp, br')"
  shows "br' = br \<and>
    (if env \<noteq> []
     then (case memory_deps (br_store br) (svc, env) of
             None \<Rightarrow> resp_status resp = 404
           | Some d \<Rightarrow> resp = respondJSON 200 (DeploymentResponse svc d (deployment_links svc d)))
     else if \<exists>d \<in> ran (memory_deps (br_store br)). dep_Service d = svc
     then \<exists>d \<in> ran (memory_deps (br_store br)). dep_Service d = svc \<and>
       resp = respondJSON 200 (DeploymentResponse svc d (deployment_links svc d)) \<and>
       (\<forall>d' \<in> ran (memory_deps (br_store br)). dep_Service d' = svc \<longrightarrow>
          gt_ns (dep_DeployedAt d') \<le> gt_ns (dep_DeployedAt d))
     else resp_status resp = 404)"
proof (cases "env = []")
  case False
  have "GetDeployment (h_storage h) None svc env (br_store br) =
      (case memory_deps (br_store br) (svc, env) of None \<Rightarrow> Inl ErrNotFound | Some d \<Rightarrow> Inr d, br_store br)"
    using mem.live_get_dep_eq [OF assms(1), of svc env] assms(3,5) by (simp add: plain_service_def)
  with False assms(4,6) show ?thesis
    by (cases "memory_deps (br_store br) (svc, env)") (auto simp: HandleGetDeployment_def)
next
  case True
  obtain r s where g: "GetLatestDeployment (h_storage h) None svc (br_store br) = (r, s)"
    by (cases "GetLatestDeployment (h_storage h) None svc (br_store br)")
  have c: "storage_live (h_storage h) memory_plain memory_deps memory_evs plain_service"
    using memory_contract [OF assms(2)] assms(3) by simp
  note l = storage_contract.get_latest [OF storage_live.axioms(1) [OF c] assms(1) g]
  show ?thesis
  proof (cases r)
    case (Inl err)
    then have "err = ErrNotFound" using storage_live.live_get_latest [OF c, of svc "br_store br"] g by simp
    with l Inl g True assms(4,6) show ?thesis by (auto simp: HandleGetDeployment_def)
  next
    case (Inr d)
    with l have d: "s = br_store br" "d \<in> ran (memory_deps (br_store br))" "dep_Service d = svc"
      "\<forall>d' \<in> ran (memory_deps (br_store br)). dep_Service d' = svc \<longrightarrow> deployment_key d \<le> deployment_key d'"
      by blast+
    moreover from d(4) have "\<forall>d' \<in> ran (memory_deps (br_store br)). dep_Service d' = svc \<longrightarrow>
        gt_ns (dep_DeployedAt d') \<le> gt_ns (dep_DeployedAt d)"
      by (auto simp: deployment_key_def)
    moreover have "resp = respondJSON 200 (DeploymentResponse svc d (deployment_links svc d))" "br' = br"
      using Inr g True assms(4,6) d(1) by (auto simp: HandleGetDeployment_def)
    ultimately show ?thesis using True by auto
  qed
qed

theorem get_deployment_answers_witness:
  "resp_status (fst (HandleGetDeployment sample_handler None ''api'' ''test'' sample_bridge)) = 404"
proof -
  have h: "h_storage sample_handler = MemoryStorage stored_order" by (simp add: sample_handler_def)
  obtain resp br' where q: "HandleGetDeployment sample_handler None ''api'' ''test'' sample_bridge = (resp, br')"
    by fastforce
  have "memory_deps (br_store sample_bridge) (''api'', ''test'') = None"
    by code_simp
  with get_deployment_answers [OF sample_bridge_plain visit_ok_orders(1) h _ _ q] q show ?thesis
    by simp
qed

text \<open>
  An event with a zone of 24 hours passes the parser of timestamps but cannot be written
  again: every response that holds it turns into an encoding error with status 500.
\<close>

theorem unencodable_timestamp:
  "map_option (\<lambda>t. resp_status (respondJSON 200 (EventResponse (e\<lparr>ev_Timestamp := t\<rparr>))))
     (ParseRFC3339 ''2024-01-01T00:00:00+24:00'') = Some 500"
proof -
  have "map_option time_marshals (ParseRFC3339 ''2024-01-01T00:00:00+24:00'') = Some False"
    by code_simp
  then show ?thesis
    by (auto simp: respondJSON_def marshals_def)
qed

end
