(* ===== verification/Server_Facts.thy ===== *)
theory Server_Facts
  imports Api_Server Handler_Facts
begin

text \<open>
  Properties of the server: every answer carries the CORS headers, a preflight request touches
  nothing, a panic is answered but not logged, and only a POST changes the state.
\<close>

section \<open>Headers\<close>

definition cors_headers :: "(string \<times> string) list" where
  "cors_headers =
     [(''Access-Control-Allow-Origin'', ''*''),
      (''Access-Control-Allow-Methods'', ''GET, POST, OPTIONS''),
      (''Access-Control-Allow-Headers'', ''Content-Type, Accept''),
      (''Access-Control-Max-Age'', ''3600'')]"

definition has_cors :: "header \<Rightarrow> bool" where
  "has_cors hdr \<longleftrightarrow> list_all (\<lambda>(k, v). map_of hdr k = Some v) cors_headers"

text \<open>A handler that leaves the CORS headers it was given in place.\<close>

definition keeps_cors :: "'s http_handler \<Rightarrow> bool" where
  "keeps_cors nxt \<longleftrightarrow> (\<forall>req hdr s. has_cors hdr \<longrightarrow> has_cors (fst (snd (nxt req hdr s))))"

lemma has_cors_content_type:
  "has_cors hdr \<Longrightarrow> has_cors (AList.update ''Content-Type'' t hdr)"
  "has_cors hdr \<Longrightarrow> has_cors (AList.update ''X-Content-Type-Options'' t hdr)"
  by (simp_all add: has_cors_def cors_headers_def)

lemma write_keeps: "has_cors hdr \<Longrightarrow> write_response num resp hdr = (out, hdr') \<Longrightarrow> has_cors hdr'"
  by (auto simp: write_response_def has_cors_content_type Let_def split: prod.splits body.splits)

lemma cors_sets: "keeps_cors nxt \<Longrightarrow> has_cors (fst (snd (CORSMiddleware nxt req hdr s)))"
  by (simp add: CORSMiddleware_def Let_def keeps_cors_def) (simp add: has_cors_def cors_headers_def)

lemma dispatch_keeps:
  assumes "\<And>m h out h'. sr_exposition sr m h = (out, h') \<Longrightarrow> has_cors h \<Longrightarrow> has_cors h'"
  shows "keeps_cors (dispatch sr)"
  unfolding keeps_cors_def
proof (intro allI impI)
  fix req hdr s assume h: "has_cors hdr"
  show "has_cors (fst (snd (dispatch sr req hdr s)))"
  proof (cases "sr_match sr routes (in_method req) (in_rawPath req) (in_path req)")
    case (Unrouted st t)
    with h show ?thesis by (simp add: dispatch_def)
  next
    case (Matched ep ps)
    with h assms show ?thesis
      by (cases ep) (auto simp: dispatch_def split: prod.splits dest: write_keeps)
  qed
qed

lemma serve_answered:
  assumes "serve sr req s = (Answered status text, hdr, s')"
  shows "(\<exists>s1. CORSMiddleware (dispatch sr) req [] s = (Answered status text, hdr, s1) \<and>
      s' = s1\<lparr>sv_log := sv_log s1 @ [\<lparr>log_method = in_method req, log_path = in_path req,
        log_status = status, log_bytes = length text\<rparr>]\<rparr>) \<or>
    (\<exists>t hdr1. CORSMiddleware (dispatch sr) req [] s = (Panicked (OtherPanic t), hdr1, s') \<and>
      write_response (sr_num sr) (respondError 500 ''internal_error'' ''Internal server error'') hdr1 =
        (Answered status text, hdr))"
  using assms
  by (auto simp: serve_def RecoveryMiddleware_def LoggingMiddleware_def
      split: outcome.splits panic.splits prod.splits)

text \<open>
  C34. Every answer of the server, an error or a recovered panic included, carries the four CORS
  headers; and a preflight request is answered with 204 and no body, changes nothing but the
  access log, and reaches no handler.
\<close>

theorem serve_cors:
  assumes "\<And>m h out h'. sr_exposition sr m h = (out, h') \<Longrightarrow> has_cors h \<Longrightarrow> has_cors h'"
    and "serve sr req s = (Answered status text, hdr, s')"
  shows "has_cors hdr \<and>
    (in_method req = ''OPTIONS'' \<longrightarrow>
       status = 204 \<and> text = [] \<and> sv_bridge s' = sv_bridge s \<and> length (sv_log s') = Suc (length (sv_log s)))"
proof -
  have "keeps_cors (dispatch sr)" by (rule dispatch_keeps) (rule assms(1))
  note c = cors_sets [OF this, of req "[]" s]
  from serve_answered [OF assms(2)] have "has_cors hdr"
    using c by (auto dest: write_keeps)
  moreover have "in_method req = ''OPTIONS'' \<Longrightarrow> serve sr req s =
      (Answered 204 [], fst (snd (CORSMiddleware (dispatch sr) req [] s)),
       s\<lparr>sv_log := sv_log s @ [\<lparr>log_method = ''OPTIONS'', log_path = in_path req,
         log_status = 204, log_bytes = 0\<rparr>]\<rparr>)"
    by (simp add: serve_def RecoveryMiddleware_def LoggingMiddleware_def CORSMiddleware_def Let_def)
  ultimately show ?thesis
    using assms(2) by auto
qed

text \<open>The in-memory bridge behind the segment router, and a preflight request.\<close>

definition sample_server :: "memory server" where
  "sample_server =
     \<lparr>sr_match = segment_router, sr_handler = sample_handler, sr_num = (\<lambda>n. n),
      sr_exposition = (\<lambda>m hdr. (Answered 200 [], hdr))\<rparr>"

definition sample_state :: "memory server_state" where
  "sample_state = \<lparr>sv_bridge = sample_bridge, sv_log = []\<rparr>"

definition sample_request :: "string \<Rightarrow> string \<Rightarrow> string \<Rightarrow> request" where
  "sample_request m path query =
     \<lparr>in_method = m, in_path = path, in_rawPath = [], in_query = query, in_body = FullBody [],
      in_ctx = None, in_elapsed = 5, in_uptime = ''1s''\<rparr>"

theorem serve_cors_witness:
  "\<exists>hdr s'. serve sample_server (sample_request ''OPTIONS'' ''/api/v1/events'' []) sample_state =
     (Answered 204 [], hdr, s') \<and> has_cors hdr \<and> sv_bridge s' = sample_bridge"
proof -
  let ?req = "sample_request ''OPTIONS'' ''/api/v1/events'' []"
  obtain out hdr s' where s: "serve sample_server ?req sample_state = (out, hdr, s')" by (rule prod_cases3)
  then obtain status b where out: "out = Answered status b"
    by (auto simp: serve_def RecoveryMiddleware_def LoggingMiddleware_def CORSMiddleware_def Let_def sample_request_def)
  have "sr_exposition sample_server m h = (out', h') \<Longrightarrow> has_cors h \<Longrightarrow> has_cors h'" for m h out' h'
    by (simp add: sample_server_def)
  from serve_cors [OF this s [unfolded out]] s out show ?thesis
    by (simp add: sample_request_def sample_state_def)
qed

text \<open>A request that reaches an endpoint is answered with what its handler makes of it.\<close>

lemma serve_call:
  assumes "in_method req \<noteq> ''OPTIONS''"
    and "sr_match sr routes (in_method req) (in_rawPath req) (in_path req) = Matched (Api ep) ps"
    and "call_endpoint (sr_handler sr) ep ps req (sv_bridge s) = (resp, br)"
  shows "\<exists>hdr s'. serve sr req s =
    (Answered (resp_status resp) (snd (render (sr_num sr) (resp_body resp))), hdr, s') \<and> sv_bridge s' = br"
proof -
  obtain ctype b where r: "render (sr_num sr) (resp_body resp) = (ctype, b)" by fastforce
  have "\<exists>hdr'. dispatch sr req hdr s = (Answered (resp_status resp) b, hdr', s\<lparr>sv_bridge := br\<rparr>)" for hdr
    by (simp add: dispatch_def assms(2,3) write_response_def r Let_def)
  then have "\<exists>hdr'. CORSMiddleware (dispatch sr) req [] s =
      (Answered (resp_status resp) b, hdr', s\<lparr>sv_bridge := br\<rparr>)"
    using assms(1) by (simp add: CORSMiddleware_def Let_def)
  then show ?thesis
    by (auto simp: serve_def LoggingMiddleware_def RecoveryMiddleware_def r)
qed

section \<open>Panics\<close>

text \<open>
  A panic of any handler but the deliberate abort is answered with 500 and a JSON error,
  and leaves no line in the access log, because the log line is written only when the handler
  returns; the deliberate abort goes on to the server.
\<close>

theorem panic_recovered_unlogged:
  assumes "nxt req hdr s = (Panicked p, hdr1, s1)"
  shows "RecoveryMiddleware num (LoggingMiddleware nxt) req hdr s =
    (case p of
       ErrAbortHandler \<Rightarrow> (Panicked ErrAbortHandler, hdr1, s1)
     | OtherPanic t \<Rightarrow>
         (Answered 500 ''{\"error\":\"internal_error\",\"message\":\"Internal server error\"}'',
          AList.update ''Content-Type'' ''application/json; charset=utf-8'' hdr1, s1))"
proof -
  have "print_json (JObj (string_member ''error'' ''internal_error'' @
      string_member ''message'' ''Internal server error'')) =
      ''{\"error\":\"internal_error\",\"message\":\"Internal server error\"}''"
    by code_simp
  then show ?thesis
    using assms
    by (auto simp: RecoveryMiddleware_def LoggingMiddleware_def write_response_def render_def marshal_def
        split: panic.splits)
qed

theorem panic_recovered_unlogged_witness:
  "sv_log (snd (snd (RecoveryMiddleware (\<lambda>n. n)
     (LoggingMiddleware (\<lambda>req hdr s. (Panicked (OtherPanic ''index out of range''), hdr, s)))
     (sample_request ''GET'' ''/x'' []) [] sample_state))) = []"
proof -
  let ?nxt = "\<lambda>req hdr s. (Panicked (OtherPanic ''index out of range''), hdr, s) :: outcome \<times> header \<times> memory server_state"
  have "?nxt (sample_request ''GET'' ''/x'' []) [] sample_state =
      (Panicked (OtherPanic ''index out of range''), [], sample_state)" by simp
  from panic_recovered_unlogged [of ?nxt, OF this] show ?thesis
    by (simp add: sample_state_def)
qed

section \<open>Only a POST writes\<close>

definition reads_only :: "'s storage \<Rightarrow> bool" where
  "reads_only S \<longleftrightarrow>
     (\<forall>ctx i s. snd (GetEvent S ctx i s) = s) \<and> (\<forall>ctx c s. snd (GetEventsByChain S ctx c s) = s) \<and>
     (\<forall>ctx svc s. snd (GetLatestDeployment S ctx svc s) = s) \<and>
     (\<forall>ctx svc env s. snd (GetDeployment S ctx svc env s) = s) \<and>
     (\<forall>ctx f s. snd (ListDeployments S ctx f s) = s) \<and> (\<forall>ctx s. snd (Ping S ctx s) = s)"

lemma reads_onlyD:
  assumes "reads_only S"
  shows "GetEvent S ctx i s = (re, s') \<Longrightarrow> s' = s" "GetEventsByChain S ctx c s = (rc, s') \<Longrightarrow> s' = s"
    "GetLatestDeployment S ctx svc s = (rd, s') \<Longrightarrow> s' = s"
    "GetDeployment S ctx svc env s = (rd, s') \<Longrightarrow> s' = s"
    "ListDeployments S ctx f s = (rl, s') \<Longrightarrow> s' = s" "Ping S ctx s = (ru, s') \<Longrightarrow> s' = s"
  using assms unfolding reads_only_def by (metis snd_conv)+

lemma memory_reads_only: "reads_only (MemoryStorage rng)"
  by (simp add: reads_only_def mem_GetEvent_def mem_GetEventsByChain_def mem_GetLatestDeployment_def
      mem_GetDeployment_def mem_ListDeployments_def mem_Ping_def split: option.splits)

lemma traverse_read_only:
  "reads_only S \<Longrightarrow> traverse_loop S g ctx visited queue res s = (r, s') \<Longrightarrow> s' = s"
proof (induction S g ctx visited queue res s arbitrary: r s' rule: traverse_loop.induct)
  case (1 S g ctx visited res s)
  then show ?case by (simp add: traverse_loop.simps)
next
  case (2 S g ctx visited current depth queue res s)
  show ?case
  proof (cases "int (length res) < maxEvents g")
    case False
    with "2.prems" show ?thesis by (simp add: traverse_loop.simps)
  next
    case True
    obtain re where g: "GetEvent S ctx current s = (re, s)"
      using reads_onlyD(1) [OF "2.prems"(1)] by (metis prod.collapse)
    show ?thesis
    proof (cases re)
      case (Inl err)
      with g True "2.prems" "2.IH"(1) [OF True g [symmetric] Inl] show ?thesis
        by (auto simp: traverse_loop.simps split: if_splits)
    next
      case (Inr event)
      obtain v q where p: "push_links depth (ev_Links event) visited queue = (v, q)" by fastforce
      show ?thesis
      proof (cases "maxDepth g \<le> depth")
        case d: True
        from "2.IH"(2) [OF True g [symmetric] Inr d "2.prems"(1)] "2.prems"(2) g True Inr d
        show ?thesis by (simp add: traverse_loop.simps)
      next
        case d: False
        from "2.IH"(3) [OF True g [symmetric] Inr d p [symmetric] "2.prems"(1)] "2.prems"(2) g True Inr d p
        show ?thesis by (simp add: traverse_loop.simps)
      qed
    qed
  qed
qed

lemma BuildChain_read_only:
  assumes "reads_only S" and "BuildChain S g visit ctx eventID s = (r, s')"
  shows "s' = s"
  using assms(2)
  by (auto simp: BuildChain_def TraverseChain_def Let_def split: prod.splits sum.splits if_splits
      dest!: reads_onlyD [OF assms(1)] traverse_read_only [OF assms(1)])

lemma call_endpoint_read_only:
  assumes "reads_only (h_storage h)" and "ep \<noteq> PostEvent" and "call_endpoint h ep ps req br = (resp, br')"
  shows "br' = br"
  using assms(2,3)
  by (cases ep) (auto simp: call_endpoint_def Let_def HandleGetEvent_def HandleListDeployments_def
      HandleGetDeployment_def HandleGetChain_def HandleHealth_def
      split: prod.splits sum.splits if_splits option.splits
      dest!: reads_onlyD [OF assms(1)] BuildChain_read_only [OF assms(1)])

text \<open>
  Whatever the router does within its contract, a request that is no POST leaves the store
  and the metrics of a bridge over the in-memory storage as they were, whether it is answered,
  refused or ends in a panic.
\<close>

theorem only_posts_write:
  assumes "router_contract (sr_match sr)" and "h_storage (sr_handler sr) = MemoryStorage rng"
    and "in_method req \<noteq> ''POST''" and "serve sr req s = (out, hdr, s')"
  shows "sv_bridge s' = sv_bridge s"
proof -
  have d: "sv_bridge s1 = sv_bridge s" if "dispatch sr req h s = (out1, h1, s1)" for h out1 h1 s1
  proof (cases "sr_match sr routes (in_method req) (in_rawPath req) (in_path req)")
    case (Unrouted st t)
    with that show ?thesis by (simp add: dispatch_def)
  next
    case (Matched ep ps)
    show ?thesis
    proof (cases ep)
      case MetricsExposition
      with that Matched show ?thesis by (auto simp: dispatch_def split: prod.splits)
    next
      case (Api a)
      then have "a \<noteq> PostEvent"
        using router_contract.post_only [OF assms(1)] Matched assms(3) by blast
      then have "snd (call_endpoint (sr_handler sr) a ps req (sv_bridge s)) = sv_bridge s"
        using call_endpoint_read_only [of "sr_handler sr" a ps req "sv_bridge s"]
        by (metis assms(2) memory_reads_only prod.collapse)
      with that Matched Api show ?thesis
        by (auto simp: dispatch_def split: prod.splits)
    qed
  qed
  have "sv_bridge s1 = sv_bridge s" if "CORSMiddleware (dispatch sr) req h s = (out1, h1, s1)" for h out1 h1 s1
    using that d by (auto simp: CORSMiddleware_def Let_def split: if_splits)
  with assms(4) show ?thesis
    by (auto simp: serve_def RecoveryMiddleware_def LoggingMiddleware_def
        split: prod.splits outcome.splits panic.splits)
qed

theorem only_posts_write_witness:
  "sv_bridge (snd (snd (serve sample_server (sample_request ''GET'' ''/api/v1/chain/d1'' []) sample_state))) =
     sample_bridge"
proof -
  let ?req = "sample_request ''GET'' ''/api/v1/chain/d1'' []"
  obtain out hdr s' where s: "serve sample_server ?req sample_state = (out, hdr, s')" by (rule prod_cases3)
  have "router_contract (sr_match sample_server)"
    using segments.router_contract_axioms by (simp add: sample_server_def)
  moreover have "h_storage (sr_handler sample_server) = MemoryStorage stored_order"
    by (simp add: sample_server_def sample_handler_def)
  moreover have "in_method ?req \<noteq> ''POST''" by (simp add: sample_request_def)
  ultimately show ?thesis
    using only_posts_write [OF _ _ _ s] s by (simp add: sample_state_def)
qed

end
