(* ===== verification/End_To_End.thy ===== *)
theory End_To_End
  imports Server_Facts Bridge_Client
begin

text \<open>
  The library in front of the server: the HTTP client of \<open>pkg/otelbridge\<close> over a bridge that keeps
  its data in memory. A lookup goes through URL escaping, routing, the query parser, the handler,
  the encoder, the middlewares and the decoder, and must come back with what the store holds.
\<close>

section \<open>The server as a transport\<close>

definition bridge_transport :: "'s server \<Rightarrow> string \<Rightarrow> 's server_state transport" where
  "bridge_transport sr base =
     \<lparr>url_error = (\<lambda>url. None),
      round_trip = (\<lambda>ctx rq s.
        if \<not> has_prefix base (rq_url rq) then (Inl (ErrLib ''no such host''), s)
        else
          (case parse_target (drop (length base) (rq_url rq)) of
             None \<Rightarrow> (Inl (ErrLib ''invalid URL escape''), s)
           | Some (path, rawPath, query) \<Rightarrow>
               (case serve sr
                  \<lparr>in_method = ''GET'', in_path = path, in_rawPath = rawPath, in_query = query,
                   in_body = FullBody [], in_ctx = ctx, in_elapsed = 0, in_uptime = []\<rparr> s of
                  (Answered status text, hdr, s) \<Rightarrow>
                    (Inr \<lparr>rp_status = nat status, rp_body = Whole text\<rparr>, s)
                | (Panicked p, hdr, s) \<Rightarrow> (Inl (ErrLib ''EOF''), s))))\<rparr>"

section \<open>The URL\<close>

lemma unescape_literal:
  "CHR ''%'' \<notin> set p \<Longrightarrow> url_unescape False (p @ s) = map_option ((@) p) (url_unescape False s)"
  by (induction p; cases "url_unescape False s") (auto simp: unescape_plain)

lemma escaped_chars:
  "b \<in> set (percent c) \<Longrightarrow> b = CHR ''%'' \<or> unreserved b"
proof -
  have "of_char c < (256::nat)" by simp
  then have "of_char c div 16 < (16::nat)" by linarith
  moreover have "of_char c mod 16 < (16::nat)" by simp
  ultimately have "upper_hex (of_char c div 16) \<in> set ''0123456789ABCDEF''"
    "upper_hex (of_char c mod 16) \<in> set ''0123456789ABCDEF''"
    by (auto intro: upper_hex_in simp del: set_simps)
  moreover have "list_all unreserved ''0123456789ABCDEF''" by code_simp
  ultimately show "b \<in> set (percent c) \<Longrightarrow> b = CHR ''%'' \<or> unreserved b"
    unfolding list_all_iff percent_def by (metis empty_iff list.set(1) set_ConsD)
qed

lemma QueryEscape_chars: "b \<in> set (QueryEscape s) \<Longrightarrow> b = CHR ''%'' \<or> b = CHR ''+'' \<or> unreserved b"
  by (auto simp: QueryEscape_def dest: escaped_chars split: if_splits)

lemma QueryEscape_plain:
  "CHR ''&'' \<notin> set (QueryEscape s)" "CHR '';'' \<notin> set (QueryEscape s)"
  using QueryEscape_chars [of "CHR ''&''" s] QueryEscape_chars [of "CHR '';''" s]
  by (auto simp: unreserved_def between_def)

lemma query_get_escaped:
  "query_get (''environment='' @ QueryEscape env) ''environment'' = env"
proof -
  let ?q = "''environment='' @ QueryEscape env"
  have "split_on (CHR ''&'') ?q = [?q]"
    by (rule split_on_id) (use QueryEscape_plain in auto)
  moreover have "CHR '';'' \<notin> set ?q" using QueryEscape_plain by auto
  moreover have "cut (CHR ''='') ?q = (''environment'', QueryEscape env, True)"
    by simp
  moreover have "url_unescape True ''environment'' = Some ''environment''"
    by code_simp
  ultimately show ?thesis
    by (simp add: query_get_def unescape_query)
qed

lemma query_get_none: "query_get [] key = []"
  by (simp add: query_get_def)

text \<open>A name without these three characters has one encoding as a segment and as a path.\<close>

definition plain_segment :: "string \<Rightarrow> bool" where
  "plain_segment s \<longleftrightarrow> s \<noteq> [] \<and> CHR ''/'' \<notin> set s \<and> CHR '';'' \<notin> set s \<and> CHR '','' \<notin> set s"

lemma escape_path_segment:
  assumes "CHR ''/'' \<notin> set s" "CHR '';'' \<notin> set s" "CHR '','' \<notin> set s"
  shows "escape_path s = PathEscape s"
proof -
  have "path_char c = segment_char c" if "c \<in> set s" for c
    using assms that by (auto simp: path_char_def segment_char_def)
  then have "map (\<lambda>c. if path_char c then [c] else percent c) s =
      map (\<lambda>c. if segment_char c then [c] else percent c) s"
    by (intro map_cong) auto
  then show ?thesis unfolding escape_path_def PathEscape_def by metis
qed

lemma escape_path_append: "escape_path (a @ b) = escape_path a @ escape_path b"
  by (simp add: escape_path_def)

text \<open>
  A slash, a semicolon or a comma is escaped in a segment and not in a path, and then the server
  also keeps the path as it was sent.
\<close>

definition sent_path :: "string \<Rightarrow> string" where
  "sent_path svc =
     (if CHR ''/'' \<in> set svc \<or> CHR '';'' \<in> set svc \<or> CHR '','' \<in> set svc
      then ''/api/v1/deployments/'' @ PathEscape svc else [])"

lemma path_char_segment: "path_char c \<longleftrightarrow> segment_char c \<or> c \<in> set ''/;,''"
  by (auto simp: path_char_def segment_char_def)

lemma escape_path_differs:
  "escape_path s = PathEscape s \<longleftrightarrow> CHR ''/'' \<notin> set s \<and> CHR '';'' \<notin> set s \<and> CHR '','' \<notin> set s"
proof (induction s)
  case Nil
  then show ?case by (simp add: escape_path_def PathEscape_def)
next
  case (Cons c s)
  have e: "escape_path (c # s) = (if path_char c then [c] else percent c) @ escape_path s"
    "PathEscape (c # s) = (if segment_char c then [c] else percent c) @ PathEscape s"
    by (simp_all add: escape_path_def PathEscape_def)
  show ?case
  proof (cases "c \<in> set ''/;,''")
    case True
    then have "path_char c" "\<not> segment_char c" "c \<noteq> CHR ''%''"
      by (auto simp: path_char_segment segment_char_def unreserved_def between_def)
    with True show ?thesis by (auto simp: e percent_def)
  next
    case False
    then have "path_char c = segment_char c" by (simp add: path_char_segment)
    with False Cons show ?thesis by (auto simp: e)
  qed
qed

lemma parse_target_service:
  assumes "query = [] \<or> (\<exists>q. query = CHR ''?'' # q)"
  shows "parse_target (''/api/v1/deployments/'' @ PathEscape svc @ query) =
    Some (''/api/v1/deployments/'' @ svc, sent_path svc, drop 1 query)"
proof -
  let ?pre = "''/api/v1/deployments/''" and ?q = "CHR ''?''"
  have nq: "?q \<notin> set (?pre @ PathEscape svc)" using PathEscape_no_query by auto
  have c: "fst (cut ?q (?pre @ PathEscape svc @ query)) = ?pre @ PathEscape svc \<and>
      fst (snd (cut ?q (?pre @ PathEscape svc @ query))) = drop 1 query"
  proof (cases query)
    case Nil
    with cut_none [OF nq] show ?thesis by (metis append_Nil2 drop_Nil fst_conv snd_conv)
  next
    case (Cons x q)
    with assms have "query = ?q # q" by auto
    with cut_append [OF nq, of q] show ?thesis by (simp del: append.simps cut.simps)
  qed
  have u: "url_unescape False (?pre @ PathEscape svc) = Some (?pre @ svc)"
    using unescape_literal [of ?pre "PathEscape svc"] by (simp add: unescape_path)
  have "escape_path ?pre = ?pre" by code_simp
  then have "escape_path (?pre @ svc) = ?pre @ PathEscape svc \<longleftrightarrow> escape_path svc = PathEscape svc"
    by (simp only: escape_path_append same_append_eq)
  then have e: "(if escape_path (?pre @ svc) = ?pre @ PathEscape svc then [] else ?pre @ PathEscape svc) =
      sent_path svc"
    unfolding sent_path_def using escape_path_differs [of svc] by metis
  show ?thesis
    unfolding parse_target_def split_beta conjunct1 [OF c] conjunct2 [OF c] u option.map(2) e
    by (rule refl)
qed

lemma parse_target_deployment:
  assumes "plain_segment svc" and "query = [] \<or> (\<exists>q. query = CHR ''?'' # q)"
  shows "parse_target (''/api/v1/deployments/'' @ PathEscape svc @ query) =
    Some (''/api/v1/deployments/'' @ svc, [], drop 1 query)"
  using parse_target_service [OF assms(2)] assms(1) by (simp add: sent_path_def plain_segment_def)

lemma endpoint_parses:
  "\<exists>query. parse_target (drop (length (baseURL c)) (endpoint c svc env)) =
     Some (''/api/v1/deployments/'' @ svc, sent_path svc, query) \<and> query_get query ''environment'' = env"
proof -
  let ?q = "if env \<noteq> [] then ''?environment='' @ QueryEscape env else []"
  have "parse_target (''/api/v1/deployments/'' @ PathEscape svc @ ?q) =
      Some (''/api/v1/deployments/'' @ svc, sent_path svc, drop 1 ?q)"
    by (rule parse_target_service) auto
  moreover have "query_get (drop 1 ?q) ''environment'' = env"
    using query_get_escaped [of env] by (auto simp: query_get_none)
  moreover have "drop (length (baseURL c)) (endpoint c svc env) = ''/api/v1/deployments/'' @ PathEscape svc @ ?q"
    by (simp add: endpoint_def del: append_Cons)
  ultimately show ?thesis by metis
qed

lemma endpoint_inj: "endpoint c svc env = endpoint c svc' env' \<longleftrightarrow> svc = svc' \<and> env = env'"
proof
  let ?parsed = "\<lambda>svc env. parse_target (drop (length (baseURL c)) (endpoint c svc env))"
  assume "endpoint c svc env = endpoint c svc' env'"
  then have same: "?parsed svc env = ?parsed svc' env'" by simp
  obtain q where q: "?parsed svc env = Some (''/api/v1/deployments/'' @ svc, sent_path svc, q)"
    "query_get q ''environment'' = env" using endpoint_parses by blast
  obtain q' where q': "?parsed svc' env' = Some (''/api/v1/deployments/'' @ svc', sent_path svc', q')"
    "query_get q' ''environment'' = env'" using endpoint_parses by blast
  from same have "(''/api/v1/deployments/'' @ svc, sent_path svc, q) = (''/api/v1/deployments/'' @ svc', sent_path svc', q')"
    unfolding q(1) q'(1) option.inject .
  then have "svc = svc'" "q = q'" by (simp_all only: prod.inject same_append_eq)
  with q(2) q'(2) show "svc = svc' \<and> env = env'" by simp
qed simp

text \<open>
  C25. The URL of a lookup survives the way to the server, whatever characters the names hold: it
  begins with the base URL of the client, and what follows is parsed by the server into the path
  that ends with the very service and a query whose \<open>environment\<close> is the very environment, empty
  when none was asked for. So different lookups of a client have different URLs. When the service
  holds a slash, a semicolon or a comma the server keeps the escaped path as well, and routes by
  it; for all other services there is only the decoded one.
\<close>

theorem endpoint_roundtrip:
  "has_prefix (baseURL c) (endpoint c svc env) \<and>
   (\<exists>query. parse_target (drop (length (baseURL c)) (endpoint c svc env)) =
      Some (''/api/v1/deployments/'' @ svc,
        if CHR ''/'' \<in> set svc \<or> CHR '';'' \<in> set svc \<or> CHR '','' \<in> set svc
        then ''/api/v1/deployments/'' @ PathEscape svc else [],
        query) \<and>
      query_get query ''environment'' = env) \<and>
   (endpoint c svc env = endpoint c svc' env' \<longleftrightarrow> svc = svc' \<and> env = env')"
proof (intro conjI)
  show "has_prefix (baseURL c) (endpoint c svc env)"
    by (simp add: endpoint_def has_prefix_def)
  show "\<exists>query. parse_target (drop (length (baseURL c)) (endpoint c svc env)) =
      Some (''/api/v1/deployments/'' @ svc,
        if CHR ''/'' \<in> set svc \<or> CHR '';'' \<in> set svc \<or> CHR '','' \<in> set svc
        then ''/api/v1/deployments/'' @ PathEscape svc else [],
        query) \<and>
      query_get query ''environment'' = env"
    using endpoint_parses [of c svc env] unfolding sent_path_def .
  show "endpoint c svc env = endpoint c svc' env' \<longleftrightarrow> svc = svc' \<and> env = env'"
    by (rule endpoint_inj)
qed

section \<open>The body\<close>

lemma string_map_ok: "0 < n \<Longrightarrow> json_ok n (string_map_json m)"
  by (auto simp: string_map_json_def lex_quote)

lemma deployment_response_decodes:
  assumes "valid_deployment d"
  obtains b where "marshal (payload_json num (DeploymentResponse svc d links)) = Inr b"
    and "decode_payload b = Inr (Some d)"
proof -
  from assms have t: "time_marshals (dep_DeployedAt d)" "offset_ok (gt_off (dep_DeployedAt d))"
    by (simp_all add: valid_deployment_def)
  then obtain j where j: "deployment_json d = Inr j"
    by (simp add: deployment_json_def marshal_time_def)
  let ?tree = "JObj (string_member ''service'' svc @ [(''deployment'', j)] @ [(''links'', string_map_json links)])"
  have ok: "json_ok max_depth ?tree"
  proof -
    have n: "2 < max_depth - 1" "0 < max_depth" "0 < max_depth - 1" by (simp_all add: max_depth_def)
    show ?thesis
      unfolding json_ok_JObj
      by (intro conjI obj_ok_append [THEN iffD2] obj_ok_string obj_ok_one n string_map_ok
          deployment_json_ok [OF j]) (simp_all add: tag_literal_def between_def)
  qed
  obtain ms where ms: "j = JObj ms" using j by (auto simp: deployment_json_def bind_result_Inr)
  let ?fs = "[(''deployment'', decode_deployment_ptr)]"
  have f: "find_field (unquote ''service'') ?fs = None" "find_field (unquote ''links'') ?fs = None"
    "find_field (unquote ''deployment'') ?fs = Some decode_deployment_ptr"
  proof -
    have "unquote ''service'' = ''service''" "unquote ''links'' = ''links''" "unquote ''deployment'' = ''deployment''"
      by code_simp+
    moreover have "fold_name ''service'' \<noteq> fold_name ''deployment''" "fold_name ''links'' \<noteq> fold_name ''deployment''"
      by code_simp+
    ultimately show "find_field (unquote ''service'') ?fs = None" "find_field (unquote ''links'') ?fs = None"
      "find_field (unquote ''deployment'') ?fs = Some decode_deployment_ptr"
      by (simp_all del: fold_name.simps unquote.simps)
  qed
  have "decode_deployment_ptr j None = Inr (Some d)"
    using decode_deployment_json [OF j t(2)]
    by (simp add: decode_deployment_ptr_def ms clean_deployment_valid [OF assms])
  then have "decode_struct ?fs ?tree None = Inr (Some d)"
    by (simp add: decode_struct_def string_member_def f del: find_field.simps unquote.simps)
  then have "decode_payload (print_json ?tree) = Inr (Some d)"
    unfolding decode_payload_def parse_print [OF ok] option.case .
  with that show ?thesis by (simp add: marshal_def j)
qed

section \<open>The lookup\<close>

text \<open>What the store of the bridge answers to a lookup of the service, by environment or newest.\<close>

definition store_lookup :: "visit_order \<Rightarrow> string \<Rightarrow> string \<Rightarrow> memory \<Rightarrow> deployment result" where
  "store_lookup rng svc env m =
     (if env = [] then fst (mem_GetLatestDeployment rng None svc m) else fst (mem_GetDeployment None svc env m))"

text \<open>The response of the handler, and the request the transport makes of a lookup.\<close>

definition lookup_response :: "string \<Rightarrow> string \<Rightarrow> deployment result \<Rightarrow> response" where
  "lookup_response svc env r =
     (case r of
        Inr d \<Rightarrow> respondJSON 200 (DeploymentResponse svc d (deployment_links svc d))
      | Inl err \<Rightarrow>
          respondError 404 errNotFound
            (''No deployment found for service '' @ [CHR 0x27] @ svc @ [CHR 0x27] @
             (if env \<noteq> [] then '' in environment '' @ [CHR 0x27] @ env @ [CHR 0x27] else [])))"

lemma store_lookup_error: "store_lookup rng svc env m = Inl err \<Longrightarrow> err = ErrNotFound"
  by (auto simp: store_lookup_def mem_GetLatestDeployment_def mem_GetDeployment_def
      latestDeployment_def split: if_splits option.splits)

lemma get_deployment_lookup:
  assumes "svc \<noteq> []" and "h_storage h = MemoryStorage rng"
  shows "HandleGetDeployment h None svc env br =
    (lookup_response svc env (store_lookup rng svc env (br_store br)), br)"
proof -
  let ?r = "store_lookup rng svc env (br_store br)"
  have "(if env = [] then GetLatestDeployment (h_storage h) None svc (br_store br)
      else GetDeployment (h_storage h) None svc env (br_store br)) = (?r, br_store br)"
    by (auto simp: assms(2) store_lookup_def mem_GetLatestDeployment_def mem_GetDeployment_def split: option.splits)
  then show ?thesis
    using assms(1) store_lookup_error [of rng svc env "br_store br"]
    by (cases ?r) (simp_all add: HandleGetDeployment_def lookup_response_def)
qed

definition lookup_request :: "ctx \<Rightarrow> string \<Rightarrow> string \<Rightarrow> request" where
  "lookup_request ctx svc query =
     \<lparr>in_method = ''GET'', in_path = ''/api/v1/deployments/'' @ svc, in_rawPath = [], in_query = query,
      in_body = FullBody [], in_ctx = ctx, in_elapsed = 0, in_uptime = []\<rparr>"

lemma serve_lookup:
  assumes "router_contract (sr_match sr)" and "h_storage (sr_handler sr) = MemoryStorage rng"
    and "plain_segment svc" and "query_get query ''environment'' = env"
    and "lookup_response svc env (store_lookup rng svc env (br_store (sv_bridge s))) = resp"
  shows "\<exists>hdr s'. serve sr (lookup_request None svc query) s =
    (Answered (resp_status resp) (snd (render (sr_num sr) (resp_body resp))), hdr, s') \<and>
    sv_bridge s' = sv_bridge s"
proof -
  let ?req = "lookup_request None svc query"
  have svc: "svc \<noteq> []" "CHR ''/'' \<notin> set svc" using assms(3) by (simp_all add: plain_segment_def)
  have "sr_match sr routes (in_method ?req) (in_rawPath ?req) (in_path ?req) =
      Matched (Api GetByService) [(''service'', svc)]"
    using router_contract.get_service_route [OF assms(1) svc] by (simp add: lookup_request_def del: append.simps)
  moreover have "call_endpoint (sr_handler sr) GetByService [(''service'', svc)] ?req (sv_bridge s) =
      (resp, sv_bridge s)"
    using get_deployment_lookup [OF svc(1) assms(2), of env "sv_bridge s"] assms(4,5)
    by (simp add: call_endpoint_def url_param_def lookup_request_def)
  ultimately show ?thesis
    by (intro serve_call) (simp_all add: lookup_request_def)
qed

lemma round_trip_lookup:
  assumes "plain_segment svc" and "url = baseURL c @ ''/api/v1/deployments/'' @ PathEscape svc @ query"
    and "query = [] \<or> (\<exists>q. query = CHR ''?'' # q)"
    and "serve sr (lookup_request ctx svc (drop 1 query)) s = (Answered status b, hdr, s')"
  shows "round_trip (bridge_transport sr (baseURL c)) ctx \<lparr>rq_url = url, rq_accept = acc\<rparr> s =
    (Inr \<lparr>rp_status = nat status, rp_body = Whole b\<rparr>, s')"
  using parse_target_deployment [OF assms(1,3)] assms(4)
  unfolding assms(2) by (simp add: bridge_transport_def lookup_request_def del: append_Cons)

text \<open>A lookup across the network, for \<open>lookup_response\<close> as the answer of the handler.\<close>

lemma remote_lookup:
  assumes "router_contract (sr_match sr)" and "h_storage (sr_handler sr) = MemoryStorage rng"
    and "plain_segment svc"
    and stored: "store_lookup rng svc env (br_store (sv_bridge s)) = r"
    and valid: "\<And>d. r = Inr d \<Longrightarrow> valid_deployment d"
    and fits: "length (snd (render (sr_num sr) (resp_body (lookup_response svc env r)))) \<le> maxResponseBytes"
    and "Client_GetDeployment c (bridge_transport sr (baseURL c)) None svc env s = (a, s')"
  shows "a = (case r of Inr d \<Rightarrow> (Some d, None) | Inl err \<Rightarrow> (None, Some ErrBridgeNotFound)) \<and>
    sv_bridge s' = sv_bridge s"
proof -
  let ?query = "if env \<noteq> [] then ''?environment='' @ QueryEscape env else []"
  let ?b = "snd (render (sr_num sr) (resp_body (lookup_response svc env r)))"
  let ?tr = "bridge_transport sr (baseURL c)"
  have svc: "svc \<noteq> []" using assms(3) by (simp add: plain_segment_def)
  have q: "query_get (drop 1 ?query) ''environment'' = env"
    using query_get_escaped [of env] by (simp add: query_get_none)
  from serve_lookup [OF assms(1-3) q stored [THEN arg_cong [where f = "lookup_response svc env"]]]
  obtain hdr t where s: "serve sr (lookup_request None svc (drop 1 ?query)) s =
      (Answered (resp_status (lookup_response svc env r)) ?b, hdr, t)" "sv_bridge t = sv_bridge s"
    by blast
  have rt: "round_trip ?tr None \<lparr>rq_url = endpoint c svc env, rq_accept = ''application/json''\<rparr> s =
      (Inr \<lparr>rp_status = nat (resp_status (lookup_response svc env r)), rp_body = Whole ?b\<rparr>, t)"
    by (rule round_trip_lookup [OF assms(3) _ _ s(1)]) (auto simp: endpoint_def)
  have read: "read_limited (Whole ?b) = Inr ?b" using fits by simp
  note get = Client_GetDeployment_def [of c ?tr None svc env s]
  show ?thesis
  proof (cases r)
    case (Inl err)
    then have "resp_status (lookup_response svc env r) = 404" by (simp add: lookup_response_def)
    with assms(7) rt read Inl s(2) svc show ?thesis
      by (auto simp: get bridge_transport_def [of sr "baseURL c", THEN arg_cong [where f = url_error]] Let_def
          simp del: read_limited.simps)
  next
    case (Inr d)
    note v = valid [OF Inr]
    then have m: "marshals (DeploymentResponse svc d links)" for links
      by (simp add: marshals_def valid_deployment_def)
    then have resp: "lookup_response svc env r = \<lparr>resp_status = 200,
        resp_body = JsonBody (DeploymentResponse svc d (deployment_links svc d))\<rparr>"
      by (simp add: lookup_response_def Inr respondJSON_def)
    obtain b where b: "marshal (payload_json (sr_num sr) (DeploymentResponse svc d (deployment_links svc d))) = Inr b"
      "decode_payload b = Inr (Some d)"
      by (rule deployment_response_decodes [OF v])
    then have "?b = b" by (simp add: resp render_def)
    with assms(7) rt read Inr s(2) svc b resp show ?thesis
      by (auto simp: get bridge_transport_def [of sr "baseURL c", THEN arg_cong [where f = url_error]] Let_def
          simp del: read_limited.simps)
  qed
qed

text \<open>
  C30. Over a bridge with the in-memory storage the HTTP client is the same resolver as the one
  inside the process: for a service whose name needs no raw path it answers the stored deployment
  field for field, or not-found when there is none, and the bridge is not changed. The store
  holds valid text, and a response fits the client's limit.
\<close>

theorem remote_lookup_agrees:
  assumes "router_contract (sr_match sr)" and "h_storage (sr_handler sr) = MemoryStorage rng"
    and "plain_segment svc"
    and stored: "store_lookup rng svc env (br_store (sv_bridge s)) = r"
    and valid: "\<And>d. r = Inr d \<Longrightarrow> valid_deployment d"
    and fits: "length (snd (render (sr_num sr) (resp_body (lookup_response svc env r)))) \<le> maxResponseBytes"
    and "Client_GetDeployment c (bridge_transport sr (baseURL c)) None svc env s = (a, s')"
  shows "a = (case r of Inr d \<Rightarrow> (Some d, None) | Inl err \<Rightarrow> (None, Some ErrBridgeNotFound)) \<and>
    sv_bridge s' = sv_bridge s"
  using assms by (rule remote_lookup)

theorem remote_lookup_agrees_witness:
  "\<exists>s'. Client_GetDeployment (NewClient ''http://bridge:8080/'' [])
     (bridge_transport sample_server ''http://bridge:8080'') None ''api'' ''prod'' sample_state =
     ((Some (sample_deployment ''api'' ''prod'' ''2'' 15), None), s')"
proof -
  let ?c = "NewClient ''http://bridge:8080/'' []" and ?d = "sample_deployment ''api'' ''prod'' ''2'' 15"
  have base: "baseURL ?c = ''http://bridge:8080''" by code_simp
  obtain a s' where g: "Client_GetDeployment ?c (bridge_transport sample_server (baseURL ?c)) None
      ''api'' ''prod'' sample_state = (a, s')" by (metis prod.collapse)
  have r: "router_contract (sr_match sample_server)"
    using segments.router_contract_axioms by (simp add: sample_server_def)
  have h: "h_storage (sr_handler sample_server) = MemoryStorage stored_order"
    by (simp add: sample_server_def sample_handler_def)
  have st: "store_lookup stored_order ''api'' ''prod'' (br_store (sv_bridge sample_state)) = Inr ?d"
    by code_simp
  have v: "valid_deployment ?d" by code_simp
  have "length (snd (render (sr_num sample_server) (resp_body (lookup_response ''api'' ''prod'' (Inr ?d))))) \<le> 700"
    by code_simp
  then have f: "length (snd (render (sr_num sample_server) (resp_body (lookup_response ''api'' ''prod'' (Inr ?d))))) \<le>
      maxResponseBytes" by (simp add: maxResponseBytes_def)
  from remote_lookup_agrees [OF r h _ st _ f g] v g base show ?thesis
    by (auto simp: plain_segment_def)
qed

section \<open>Posting an event\<close>

definition post_request :: "request_body \<Rightarrow> request" where
  "post_request req =
     \<lparr>in_method = ''POST'', in_path = ''/api/v1/events'', in_rawPath = [], in_query = [],
      in_body = req, in_ctx = None, in_elapsed = 0, in_uptime = []\<rparr>"

lemma serve_post:
  assumes "router_contract (sr_match sr)"
    and "HandlePostEvent (sr_handler sr) None req 0 (sv_bridge s) = (resp, br)"
  obtains hdr s' where
    "serve sr (post_request req) s =
      (Answered (resp_status resp) (snd (render (sr_num sr) (resp_body resp))), hdr, s')"
    "sv_bridge s' = br"
proof -
  have "sr_match sr routes ''POST'' [] ''/api/v1/events'' = Matched (Api PostEvent) []"
    using router_contract.static_route [OF assms(1), of "\<lparr>rt_method = Some ''POST'',
      rt_pattern = ''/api/v1/events'', rt_endpoint = Api PostEvent\<rparr>" "''POST''"]
    by (simp add: routes_def mount_def)
  moreover have "call_endpoint (sr_handler sr) PostEvent [] (post_request req) (sv_bridge s) = (resp, br)"
    using assms(2) by (simp add: call_endpoint_def post_request_def)
  ultimately show ?thesis
    using serve_call [of "post_request req" sr PostEvent "[]" s resp br] that
    by (auto simp: post_request_def)
qed

end
