(* ===== verification/Replay.thy ===== *)
theory Replay
  imports Mock_Deployer End_To_End
begin

text \<open>
  The replayer in front of the server: the HTTP client of the mock deployer is a bridge that keeps
  its data in memory, with a clock beside it. A replay that ends without an error is one whose
  events the bridge accepted, all of them and once each.
\<close>

section \<open>The server as the world of the replayer\<close>

definition deliver ::
  "'s server \<Rightarrow> string \<Rightarrow> string \<Rightarrow> string \<Rightarrow> string \<Rightarrow> gotime \<times> 's server_state \<Rightarrow>
   http_response result \<times> gotime \<times> 's server_state" where
  "deliver sr base meth url body st =
     (case st of (t, s) \<Rightarrow>
        if \<not> has_prefix base url then (Inl (ErrLib ''no such host''), t, s)
        else
          (case parse_target (drop (length base) url) of
             None \<Rightarrow> (Inl (ErrLib ''invalid URL escape''), t, s)
           | Some (path, rawPath, query) \<Rightarrow>
               (case serve sr
                  \<lparr>in_method = meth, in_path = path, in_rawPath = rawPath, in_query = query,
                   in_body = FullBody body, in_ctx = None, in_elapsed = 0, in_uptime = []\<rparr> s of
                  (Answered status text, hdr, s) \<Rightarrow>
                    (Inr \<lparr>rp_status = nat status, rp_body = Whole text\<rparr>, t, s)
                | (Panicked p, hdr, s) \<Rightarrow> (Inl (ErrLib ''EOF''), t, s))))"

definition bridge_http :: "'s server \<Rightarrow> string \<Rightarrow> (gotime \<times> 's server_state) http_client" where
  "bridge_http sr base =
     \<lparr>hc_url_error = (\<lambda>url. None),
      hc_get = (\<lambda>url. deliver sr base ''GET'' url []),
      hc_post = (\<lambda>url. deliver sr base ''POST'' url),
      hc_now = fst,
      hc_sleep = (\<lambda>d (t, s). (Add t d, s))\<rparr>"

lemma deliver_time: "deliver sr base meth url body st = (r, st') \<Longrightarrow> fst st' = fst st"
  by (auto simp: deliver_def split: prod.splits option.splits outcome.splits if_splits)

interpretation bridge_clock: ticking "bridge_http sr base" for sr base
  by unfold_locales (auto simp: bridge_http_def Add_def dest: deliver_time)

theorem waitForBridge_returns_witness:
  "\<exists>r s'. waitForBridge (bridge_http sample_server ''http://b'') ''http://b'' (60 * second) (zero_time, sample_state) =
     Some (r, s')"
  using waitForBridge_returns [OF bridge_clock.ticking_axioms, of sample_server "''http://b''" "''http://b''"
    "60 * second" "(zero_time, sample_state)"] by blast

section \<open>Posting one event\<close>

definition posted :: "(string \<Rightarrow> string) \<Rightarrow> mock_event \<Rightarrow> string" where
  "posted num ev = print_json (any_json num (VMap (me_raw ev)))"

definition acceptable_event :: "(string \<Rightarrow> string) \<Rightarrow> mock_event \<Rightarrow> bool" where
  "acceptable_event num ev \<longleftrightarrow> (\<exists>event. acceptable (FullBody (posted num ev)) event)"

lemma events_target: "parse_target ''/api/v1/events'' = Some (''/api/v1/events'', [], [])"
  by code_simp

lemma send_event_bridge:
  assumes "router_contract (sr_match sr)"
    and "HandlePostEvent (sr_handler sr) None (FullBody (posted num ev)) 0 (sv_bridge s) = (resp, br)"
  shows "\<exists>s'. sv_bridge s' = br \<and>
    (if nat (resp_status resp) \<in> set [200, 201, 202]
     then sendEvent num (bridge_http sr base) base ev (t, s) = (None, t, s')
     else \<exists>err. sendEvent num (bridge_http sr base) base ev (t, s) = (Some err, t, s'))"
proof -
  let ?req = "post_request (FullBody (posted num ev))"
  obtain hdr s' where
    "serve sr ?req s = (Answered (resp_status resp) (snd (render (sr_num sr) (resp_body resp))), hdr, s')"
    "sv_bridge s' = br"
    by (rule serve_post [OF assms])
  then show ?thesis
    by (intro exI [of _ s'])
      (simp add: sendEvent_def bridge_http_def deliver_def Let_def posted_def events_target post_request_def)
qed

text \<open>Over the memory backend an event is refused only for what it is.\<close>

lemma post_accepts:
  assumes "h_storage h = MemoryStorage rng" and "HandlePostEvent h None req elapsed br = (resp, br')"
  shows "nat (resp_status resp) \<in> set [200, 201, 202] \<longleftrightarrow> (\<exists>event. acceptable req event)"
    and "\<exists>event. acceptable req event \<Longrightarrow>
      (\<exists>kind. br_metrics br' = ObserveProcessing elapsed (EventReceived kind (br_metrics br)))"
proof -
  have "(nat (resp_status resp) \<in> set [200, 201, 202] \<longleftrightarrow> (\<exists>event. acceptable req event)) \<and>
    ((\<exists>event. acceptable req event) \<longrightarrow>
      (\<exists>kind. br_metrics br' = ObserveProcessing elapsed (EventReceived kind (br_metrics br))))"
    using post_outcome [OF assms(2)]
  proof cases
    case (no_deployment body event err s)
    then show ?thesis using assms(1) by (auto simp: mem_SaveDeployment_def split: option.splits)
  next
    case (no_event body event s1 err s)
    then show ?thesis using assms(1) by (auto simp: mem_SaveEvent_def split: option.splits)
  qed (auto simp: acceptable_def)
  then show "nat (resp_status resp) \<in> set [200, 201, 202] \<longleftrightarrow> (\<exists>event. acceptable req event)"
    and "\<exists>event. acceptable req event \<Longrightarrow>
      (\<exists>kind. br_metrics br' = ObserveProcessing elapsed (EventReceived kind (br_metrics br)))"
    by blast+
qed

section \<open>A replay\<close>

text \<open>
  C37. A replay against a bridge with the in-memory storage succeeds exactly when every event is
  one the bridge accepts; then the bridge has counted each of them once as received and none as
  rejected.
\<close>
theorem replay_complete:
  assumes "router_contract (sr_match sr)" and "h_storage (sr_handler sr) = MemoryStorage rng"
    and "gomap_ok (received (br_metrics (sv_bridge s)))"
    and "replay num (bridge_http sr base) base delay evs seen (t, s) = (res, t', s')"
  shows "((\<exists>r. res = Inr r) \<longleftrightarrow> list_all (acceptable_event num) evs) \<and>
    (list_all (acceptable_event num) evs \<longrightarrow>
      total (received (br_metrics (sv_bridge s'))) = total (received (br_metrics (sv_bridge s))) + length evs \<and>
      rejected (br_metrics (sv_bridge s')) = rejected (br_metrics (sv_bridge s)))"
  using assms(3,4)
proof (induction evs arbitrary: seen t s)
  case (Cons ev evs)
  obtain resp br where p: "HandlePostEvent (sr_handler sr) None (FullBody (posted num ev)) 0 (sv_bridge s) = (resp, br)"
    by fastforce
  from send_event_bridge [OF assms(1) p, of base t] obtain s1 where s1: "sv_bridge s1 = br"
    and send: "if nat (resp_status resp) \<in> set [200, 201, 202]
      then sendEvent num (bridge_http sr base) base ev (t, s) = (None, t, s1)
      else \<exists>err. sendEvent num (bridge_http sr base) base ev (t, s) = (Some err, t, s1)" by blast
  have acc: "nat (resp_status resp) \<in> set [200, 201, 202] \<longleftrightarrow> acceptable_event num ev"
    unfolding acceptable_event_def by (rule post_accepts(1) [OF assms(2) p])
  show ?case
  proof (cases "acceptable_event num ev")
    case False
    with acc send Cons.prems(2) show ?thesis by auto
  next
    case True
    with acc send have n: "sendEvent num (bridge_http sr base) base ev (t, s) = (None, t, s1)" by simp
    obtain kind where m: "br_metrics br = ObserveProcessing 0 (EventReceived kind (br_metrics (sv_bridge s)))"
      using post_accepts(2) [OF assms(2) p] True by (auto simp: acceptable_event_def)
    obtain seen' t1 where r: "replay num (bridge_http sr base) base delay evs seen' (t1, s1) = (res, t', s')"
      using Cons.prems(2) n by (auto simp: Let_def bridge_http_def split: if_splits)
    have ok: "gomap_ok (received (br_metrics (sv_bridge s1)))"
      using Cons.prems(1) s1 m by (simp add: ObserveProcessing_def EventReceived_def)
    have tot: "total (received (br_metrics (sv_bridge s1))) = Suc (total (received (br_metrics (sv_bridge s))))"
      and rej: "rejected (br_metrics (sv_bridge s1)) = rejected (br_metrics (sv_bridge s))"
      using s1 m total_inc [OF Cons.prems(1)] by (simp_all add: ObserveProcessing_def EventReceived_def)
    from Cons.IH [OF ok r] True tot rej show ?thesis by simp
  qed
qed auto

definition sample_mock_event :: mock_event where
  "sample_mock_event =
     \<lparr>me_raw =
        [(''context'', VMap [(''id'', VStr ''d1''), (''type'', VStr ''service.deployed''), (''source'', VStr ''ci''),
           (''timestamp'', VStr ''2024-01-01T10:00:00Z'')]),
         (''subject'', VMap [(''id'', VStr ''api''), (''type'', VStr ''service'')])],
      me_id = ''d1'', me_eventType = ''service.deployed'', me_subjectID = ''api'', me_timestamp = zero_time\<rparr>"

lemma sample_mock_acceptable: "acceptable_event (\<lambda>n. n) sample_mock_event"
proof -
  let ?b = "posted (\<lambda>n. n) sample_mock_event"
  have "case Parse ?b of Inl _ \<Rightarrow> False | Inr e \<Rightarrow> Validate (Some e) = None" by code_simp
  then obtain e where "Parse ?b = Inr e" "Validate (Some e) = None" by (cases "Parse ?b") simp_all
  moreover have "length ?b \<le> 700" by code_simp
  then have "read_all (FullBody ?b) = Inr ?b" by (simp add: maxBodyBytes_def)
  ultimately show ?thesis unfolding acceptable_event_def acceptable_def by blast
qed

theorem replay_complete_witness:
  "\<exists>r st. replay (\<lambda>n. n) (bridge_http sample_server ''http://b'') ''http://b'' second
       [sample_mock_event, sample_mock_event] ([], []) (zero_time, sample_state) = (Inr r, st) \<and>
     total (received (br_metrics (sv_bridge (snd st)))) =
       total (received (br_metrics (sv_bridge sample_state))) + 2"
proof -
  obtain res t' s' where r: "replay (\<lambda>n. n) (bridge_http sample_server ''http://b'') ''http://b'' second
      [sample_mock_event, sample_mock_event] ([], []) (zero_time, sample_state) = (res, t', s')"
    by (metis prod_cases3)
  have c: "router_contract (sr_match sample_server)"
    using segments.router_contract_axioms by (simp add: sample_server_def)
  have h: "h_storage (sr_handler sample_server) = MemoryStorage stored_order"
    by (simp add: sample_server_def sample_handler_def)
  have m: "gomap_ok (received (br_metrics (sv_bridge sample_state)))" by code_simp
  from replay_complete [OF c h m r] sample_mock_acceptable r show ?thesis by auto
qed

section \<open>The end of the process\<close>

text \<open>The lines a replay ends with, from the address of the bridge, the events and what was seen.\<close>

definition mock_summary :: "string \<Rightarrow> nat \<Rightarrow> string \<times> string \<Rightarrow> string list" where
  "mock_summary bridgeURL n seen =
     (case seen of (deployedService, incidentID) \<Rightarrow>
        [''all '' @ show_nat n @ '' events accepted''] @
        (if deployedService \<noteq> [] then
           [''current deployment:  curl -s '' @ bridgeURL @ ''/api/v1/deployments/'' @ deployedService @ '' | jq'']
         else []) @
        (if incidentID \<noteq> [] then
           [''incident to commit:  curl -s '' @ bridgeURL @ ''/api/v1/chain/'' @ incidentID @ '' | jq'']
         else []))"

text \<open>The exit status, and what \<open>log.Fatalf\<close> writes.\<close>

definition mock_main :: "(string \<times> string) result \<Rightarrow> nat \<times> string" where
  "mock_main r = (case r of Inl err \<Rightarrow> (1, ''mock-deployer: '' @ err_text err) | Inr seen \<Rightarrow> (0, []))"

text \<open>The incident of the last line is the last event of its kind.\<close>

lemma replay_incident:
  "replay num c base delay evs seen s = (Inr seen', s') \<Longrightarrow>
     snd seen' = fold (\<lambda>ev inc. if strings_Contains (me_eventType ev) ''.incident.detected.'' then me_id ev else inc)
       evs (snd seen)"
proof (induction evs arbitrary: seen s)
  case (Cons ev evs)
  obtain oerr s1 where send: "sendEvent num c base ev s = (oerr, s1)" by fastforce
  with Cons.prems have "oerr = None" by (cases oerr) simp_all
  with send Cons.prems Cons.IH show ?case
    by (simp add: Let_def)
qed simp

end
