(* ===== verification/Otel_Provider.thy ===== *)
theory Otel_Provider
  imports Go_Format
begin

text \<open>
  The tracer provider of \<open>internal/otel/provider.go\<close>: the options of the exporter, the attributes
  of the resource and the processors it is built from. The exporter, the resource and the
  provider belong to the OpenTelemetry SDK: making an exporter and merging a resource are
  parameters, a provider is the record of what it was made of, and the two global registrations
  are a state.
\<close>

record ProviderConfig =
  pc_Endpoint :: string
  pc_Insecure :: bool
  pc_ServiceName :: string
  pc_ServiceVersion :: string

datatype exporter_option = WithEndpointURL string | WithEndpoint string | WithInsecure

definition exporterOptions :: "ProviderConfig \<Rightarrow> exporter_option list" where
  "exporterOptions cfg =
     (let endpoint = trim_space (pc_Endpoint cfg)
      in if strings_Contains endpoint ''://'' then [WithEndpointURL endpoint]
         else [WithEndpoint endpoint] @ (if pc_Insecure cfg then [WithInsecure] else []))"

datatype propagator = TraceContext | Baggage

record ('e, 'res, 'p) tracer_provider =
  tp_exporter :: 'e
  tp_resource :: 'res
  tp_processors :: "'p list"

record ('e, 'res, 'p) otel_globals =
  og_provider :: "('e, 'res, 'p) tracer_provider option"
  og_propagators :: "propagator list"

definition resource_attributes :: "ProviderConfig \<Rightarrow> (string \<times> string) list" where
  "resource_attributes cfg =
     [(''service.name'', pc_ServiceName cfg)] @
     (if pc_ServiceVersion cfg \<noteq> [] then [(''service.version'', pc_ServiceVersion cfg)] else [])"

text \<open>The loop that leaves out processors that are \<open>nil\<close>.\<close>

fun present :: "'p option list \<Rightarrow> 'p list" where
  "present [] = []"
| "present (None # ps) = present ps"
| "present (Some p # ps) = p # present ps"

definition NewTracerProvider ::
  "(exporter_option list \<Rightarrow> 'e result) \<Rightarrow> ((string \<times> string) list \<Rightarrow> 'res result) \<Rightarrow> ProviderConfig \<Rightarrow>
   'p option list \<Rightarrow> ('e, 'res, 'p) otel_globals \<Rightarrow>
   ('e, 'res, 'p) tracer_provider result \<times> ('e, 'res, 'p) otel_globals" where
  "NewTracerProvider new_exporter merge cfg processors g =
     (case new_exporter (exporterOptions cfg) of
        Inl err \<Rightarrow> (Inl (ErrWrap ''failed to create OTLP exporter: '' err []), g)
      | Inr exporter \<Rightarrow>
          (case merge (resource_attributes cfg) of
             Inl err \<Rightarrow> (Inl (ErrWrap ''failed to create resource: '' err []), g)
           | Inr res \<Rightarrow>
               let tp = \<lparr>tp_exporter = exporter, tp_resource = res, tp_processors = present processors\<rparr>
               in (Inr tp, \<lparr>og_provider = Some tp, og_propagators = [TraceContext, Baggage]\<rparr>)))"

text \<open>
  A URL decides about TLS by its scheme: plain connections are asked for only with a bare
  \<open>host:port\<close>, and only when the configuration says so.
\<close>

lemma exporter_plain_text:
  "WithInsecure \<in> set (exporterOptions cfg) \<longleftrightarrow>
     pc_Insecure cfg \<and> (\<nexists>a b. trim_space (pc_Endpoint cfg) = a @ ''://'' @ b)"
  by (auto simp: exporterOptions_def Let_def strings_Contains_iff)

lemma present_set: "set (present ps) = {p. Some p \<in> set ps}"
  by (induction ps rule: present.induct) auto

lemma provider_error_keeps_globals:
  "NewTracerProvider new_exporter merge cfg ps g = (Inl err, g') \<Longrightarrow> g' = g"
  by (auto simp: NewTracerProvider_def Let_def split: sum.splits)

end
