(* ===== verification/Sample_App.thy ===== *)
theory Sample_App
  imports Otel_Provider Bridge_Client Mock_Deployer
begin

text \<open>
  The sample application of \<open>examples/sample-app/main.go\<close>: how it sets its tracing up and how its
  handlers answer, the one that asks the bridge for the deployment of a service above all. Trace
  ids, the clock and the network are arguments.
\<close>

record app =
  app_serviceName :: string
  app_environment :: string
  app_jaegerURL :: string
  app_client :: Client

text \<open>The settings \<open>main\<close> reads from the environment: the app, the exporter's endpoint and the port.\<close>

definition app_settings :: "(string \<Rightarrow> string) \<Rightarrow> app \<times> string \<times> string" where
  "app_settings env =
     (let service_name = getEnv env ''SERVICE_NAME'' ''sample-app'';
          environ = getEnv env ''ENVIRONMENT'' ''production''
      in (\<lparr>app_serviceName = service_name, app_environment = environ,
           app_jaegerURL = trim_right_slash (getEnv env ''JAEGER_UI_URL'' ''http://localhost:16686''),
           app_client = NewClient (getEnv env ''BRIDGE_URL'' ''http://localhost:8080'') [WithEnvironment environ]\<rparr>,
          getEnv env ''OTEL_EXPORTER_OTLP_ENDPOINT'' ''localhost:4317'', getEnv env ''PORT'' ''8081''))"

definition app_exporterOptions :: "string \<Rightarrow> exporter_option list" where
  "app_exporterOptions url =
     (if strings_Contains url ''://'' then [WithEndpointURL url] else [WithEndpoint url, WithInsecure])"

definition initTracerProvider ::
  "(exporter_option list \<Rightarrow> 'e result) \<Rightarrow> ((string \<times> string) list \<Rightarrow> 'res result) \<Rightarrow> string \<Rightarrow> string \<Rightarrow> 'p \<Rightarrow>
   ('e, 'res, 'p) otel_globals \<Rightarrow> ('e, 'res, 'p) tracer_provider result \<times> ('e, 'res, 'p) otel_globals" where
  "initTracerProvider new_exporter merge url service_name processor g =
     (case new_exporter (app_exporterOptions url) of
        Inl err \<Rightarrow> (Inl (ErrWrap ''create OTLP exporter: '' err []), g)
      | Inr exporter \<Rightarrow>
          (case merge [(''service.name'', service_name), (''service.version'', ''demo'')] of
             Inl err \<Rightarrow> (Inl (ErrWrap ''create resource: '' err []), g)
           | Inr res \<Rightarrow>
               let tp = \<lparr>tp_exporter = exporter, tp_resource = res, tp_processors = [processor]\<rparr>
               in (Inr tp, \<lparr>og_provider = Some tp, og_propagators = [TraceContext, Baggage]\<rparr>)))"

text \<open>Which requests the wrapper of the server traces.\<close>

definition app_traced :: "string \<Rightarrow> bool" where
  "app_traced path \<longleftrightarrow> path \<noteq> ''/healthz''"

section \<open>Handlers\<close>

text \<open>The response maps the handlers encode, with the values that vary.\<close>

datatype app_payload =
    HelloPayload string string string string
  | DataPayload "string list" nat int string
  | LookupError string string string
  | LookupFound string string "deployment option"

definition handleHello :: "app \<Rightarrow> gotime \<Rightarrow> string \<Rightarrow> nat \<times> app_payload" where
  "handleHello a now traceId =
     (200, HelloPayload (''Hello from '' @ app_serviceName a) (FormatRFC3339 (UTC now)) traceId
        (app_jaegerURL a @ ''/trace/'' @ traceId))"

definition handleData :: "int \<Rightarrow> string \<Rightarrow> nat \<times> app_payload" where
  "handleData unix traceId =
     (let items = [''item1'', ''item2'', ''item3''] in (200, DataPayload items (length items) unix traceId))"

definition handleDeployment ::
  "app \<Rightarrow> 'n transport \<Rightarrow> ctx \<Rightarrow> string \<Rightarrow> string \<Rightarrow> 'n \<Rightarrow> (nat \<times> app_payload) \<times> 'n" where
  "handleDeployment a tr ctx service environ n =
     (let service = (if service = [] then app_serviceName a else service);
          environ = (if environ = [] then app_environment a else environ)
      in case Client_GetDeployment (app_client a) tr ctx service environ n of
           ((deployment, Some err), n) \<Rightarrow>
             let status = (if errors_is err ErrBridgeNotFound then 404 else 502)
             in ((status, LookupError (err_text err) service environ), n)
         | ((deployment, None), n) \<Rightarrow> ((200, LookupFound service environ deployment), n))"

text \<open>A found deployment is never missing from the answer, and the status tells the three cases apart.\<close>

lemma handleDeployment_status:
  assumes "handleDeployment a tr ctx service environ n = ((status, p), n')"
  shows "status = 200 \<and> (\<exists>svc env d. p = LookupFound svc env (Some d)) \<or>
    status \<in> {404, 502} \<and> (\<exists>msg svc env. p = LookupError msg svc env)"
proof -
  let ?svc = "if service = [] then app_serviceName a else service"
    and ?env = "if environ = [] then app_environment a else environ"
  obtain od oe m where c: "Client_GetDeployment (app_client a) tr ctx ?svc ?env n = ((od, oe), m)"
    by (metis prod.collapse)
  from Client_answer [OF c] assms show ?thesis
    by (cases oe) (auto simp: handleDeployment_def c Let_def split: if_splits)
qed

end
