(* ===== verification/Sample_Server.thy ===== *)
theory Sample_Server
  imports Sample_App End_To_End
begin

text \<open>
  The server of the sample application in \<open>examples/sample-app/main.go\<close>: its mux, the bytes of its
  answers, the spans of its handlers and the life of its process; and its deployment page over a
  bridge that keeps its data in memory.
\<close>

section \<open>Answers\<close>

text \<open>The encoder writes the keys of a map in order, and ends the text with a newline.\<close>

fun app_payload_json :: "app_payload \<Rightarrow> json result" where
  "app_payload_json (HelloPayload message time traceId jaegerUI) =
     Inr (JObj (string_member ''jaegerUI'' jaegerUI @ string_member ''message'' message @
       string_member ''time'' time @ string_member ''traceId'' traceId))"
| "app_payload_json (DataPayload items n timestamp traceId) =
     Inr (JObj ([(''count'', int_json (int n))] @ [(''data'', JArr (map (\<lambda>i. JStr (quote i)) items))] @
       [(''timestamp'', int_json timestamp)] @ string_member ''traceId'' traceId))"
| "app_payload_json (LookupError err service environ) =
     Inr (JObj (string_member ''environment'' environ @ string_member ''error'' err @
       string_member ''service'' service))"
| "app_payload_json (LookupFound service environ deployment) =
     bind_result (case deployment of None \<Rightarrow> Inr JNull | Some d \<Rightarrow> deployment_json d)
       (\<lambda>j. Inr (JObj ([(''deployment'', j)] @ string_member ''environment'' environ @
         string_member ''service'' service)))"

text \<open>The status is out before the value is encoded: an encoding that fails leaves the body empty.\<close>

definition app_writeJSON :: "nat \<times> app_payload \<Rightarrow> nat \<times> string" where
  "app_writeJSON r =
     (case r of (status, payload) \<Rightarrow>
        (status, case marshal (app_payload_json payload) of Inr text \<Rightarrow> text @ [CHR 0x0A] | Inl err \<Rightarrow> []))"

definition handleHealthz :: "nat \<times> string" where
  "handleHealthz = (200, ''ok'')"

text \<open>The spans a handler opens and closes below the one of its request, and their attributes.\<close>

datatype span_action = SpanStart string | SpanAttr string int | SpanEnd string

definition handleData_spans :: "span_action list" where
  "handleData_spans =
     [SpanStart ''load-data'', SpanAttr ''data.count'' (int (length [''item1'', ''item2'', ''item3''])),
      SpanStart ''fake-db-query'', SpanEnd ''fake-db-query'', SpanEnd ''load-data'']"

section \<open>The mux\<close>

datatype app_endpoint = AppHello | AppData | AppDeployment | AppHealthz

definition app_routes :: "(string \<times> app_endpoint) list" where
  "app_routes =
     [(''/hello'', AppHello), (''/api/data'', AppData), (''/deployment'', AppDeployment),
      (''/healthz'', AppHealthz)]"

text \<open>
  \<open>http.ServeMux\<close>: a request for a path that is not clean is redirected to the clean one, and a
  pattern without a trailing slash matches its path only. A path is cleaned segment by segment.
\<close>

fun clean_segments :: "string list \<Rightarrow> string list \<Rightarrow> string list" where
  "clean_segments [] acc = rev acc"
| "clean_segments (p # ps) acc =
     (if p = [] \<or> p = ''.'' then clean_segments ps acc
      else if p = ''..'' then clean_segments ps (tl acc)
      else clean_segments ps (p # acc))"

definition clean_path :: "string \<Rightarrow> string" where
  "clean_path p =
     (if p = [] then ''/''
      else
        let np = CHR ''/'' # join ''/'' (clean_segments (split_on (CHR ''/'') p) [])
        in if last p = CHR ''/'' \<and> np \<noteq> ''/'' then np @ ''/'' else np)"

datatype mux_result = MuxCall app_endpoint | MuxRedirect string | MuxNotFound

definition app_mux :: "string \<Rightarrow> string \<Rightarrow> mux_result" where
  "app_mux meth path =
     (let clean = (if meth = ''CONNECT'' then path else clean_path path)
      in if clean \<noteq> path then MuxRedirect clean
         else case map_of app_routes path of Some ep \<Rightarrow> MuxCall ep | None \<Rightarrow> MuxNotFound)"

text \<open>The name of the span of a traced request.\<close>

definition app_span_name :: "string \<Rightarrow> string \<Rightarrow> string" where
  "app_span_name meth path = meth @ '' '' @ path"

text \<open>What the app answers; the clock, the trace id and the network are arguments.\<close>

definition app_call ::
  "app \<Rightarrow> 'n transport \<Rightarrow> ctx \<Rightarrow> gotime \<Rightarrow> int \<Rightarrow> string \<Rightarrow> string \<Rightarrow> app_endpoint \<Rightarrow> 'n \<Rightarrow> (nat \<times> string) \<times> 'n" where
  "app_call a tr ctx now unix traceId query ep n =
     (case ep of
        AppHello \<Rightarrow> (app_writeJSON (handleHello a now traceId), n)
      | AppData \<Rightarrow> (app_writeJSON (handleData unix traceId), n)
      | AppDeployment \<Rightarrow>
          (case handleDeployment a tr ctx (query_get query ''service'') (query_get query ''environment'') n of
             (r, n) \<Rightarrow> (app_writeJSON r, n))
      | AppHealthz \<Rightarrow> (handleHealthz, n))"

section \<open>The process\<close>

datatype app_action = AppTracerStarted "exporter_option list" | AppListen string | AppFatal string
  | AppServerShutdown | AppTracerShutdown

text \<open>
  How the wait ends is an argument: with the error \<open>ListenAndServe\<close> returned, or with a signal. A
  server that was closed leaves the process waiting for its signal.
\<close>

definition app_main ::
  "(string \<Rightarrow> string) \<Rightarrow> (exporter_option list \<Rightarrow> 'e result) \<Rightarrow> ((string \<times> string) list \<Rightarrow> 'res result) \<Rightarrow>
   (string \<Rightarrow> gerror option) \<Rightarrow> app_action list" where
  "app_main env new_exporter merge listened =
     (case app_settings env of (a, otlp, port) \<Rightarrow>
        (case fst (initTracerProvider new_exporter merge otlp (app_serviceName a) ()
           \<lparr>og_provider = None, og_propagators = []\<rparr>) of
           Inl err \<Rightarrow> [AppFatal (''failed to initialize tracer provider: '' @ err_text err)]
         | Inr tp \<Rightarrow>
             [AppTracerStarted (app_exporterOptions otlp), AppListen (CHR '':'' # port)] @
             (case listened (CHR '':'' # port) of
                Some err \<Rightarrow>
                  if errors_is err (ErrLib ''http: Server closed'') then [AppServerShutdown, AppTracerShutdown]
                  else [AppFatal (''server error: '' @ err_text err)]
              | None \<Rightarrow> [AppServerShutdown, AppTracerShutdown])))"

section \<open>Properties\<close>

lemma app_mux_paths:
  "app_mux meth ''/hello'' = MuxCall AppHello" "app_mux meth ''/api/data'' = MuxCall AppData"
  "app_mux meth ''/deployment'' = MuxCall AppDeployment" "app_mux meth ''/healthz'' = MuxCall AppHealthz"
proof -
  have "clean_path ''/hello'' = ''/hello''" "clean_path ''/api/data'' = ''/api/data''"
    "clean_path ''/deployment'' = ''/deployment''" "clean_path ''/healthz'' = ''/healthz''"
    by code_simp+
  then show "app_mux meth ''/hello'' = MuxCall AppHello" "app_mux meth ''/api/data'' = MuxCall AppData"
    "app_mux meth ''/deployment'' = MuxCall AppDeployment" "app_mux meth ''/healthz'' = MuxCall AppHealthz"
    by (simp_all add: app_mux_def Let_def app_routes_def)
qed

text \<open>Only the four paths are served, whatever the method.\<close>

lemma app_mux_only: "app_mux meth path = MuxCall ep \<Longrightarrow> (path, ep) \<in> set app_routes"
  unfolding app_mux_def Let_def
  by (rule map_of_SomeD) (metis mux_result.distinct(1,3) mux_result.inject(1) option.case_eq_if option.collapse)

text \<open>A redirect leads to a path the mux does not redirect again.\<close>

definition segment_clean :: "string \<Rightarrow> bool" where
  "segment_clean p \<longleftrightarrow> p \<noteq> [] \<and> p \<noteq> ''.'' \<and> p \<noteq> ''..'' \<and> CHR ''/'' \<notin> set p"

lemma clean_segments_clean:
  "list_all (\<lambda>p. CHR ''/'' \<notin> set p) ps \<Longrightarrow> list_all segment_clean acc \<Longrightarrow>
     list_all segment_clean (clean_segments ps acc)"
proof (induction ps arbitrary: acc)
  case (Cons p ps)
  have "list_all segment_clean (tl acc)" using Cons.prems(2) by (cases acc) simp_all
  with Cons.IH [of "tl acc"] Cons.IH [of acc] Cons.IH [of "p # acc"] Cons.prems show ?case
    by (auto simp: segment_clean_def [of p])
qed (simp add: list_all_iff)

lemma clean_segments_id: "list_all segment_clean ps \<Longrightarrow> clean_segments (ps @ qs) acc = clean_segments qs (rev ps @ acc)"
  by (induction ps arbitrary: acc) (simp_all add: segment_clean_def)

lemma split_on_segments: "list_all (\<lambda>p. c \<notin> set p) (split_on c s)"
  by (auto simp: list_all_iff dest: split_on_no_sep)

lemma join_trailing: "ps \<noteq> [] \<Longrightarrow> join [c] (ps @ [[]]) = join [c] ps @ [c]"
  by (induction ps rule: induct_list012) simp_all

lemma join_last: "list_all segment_clean ps \<Longrightarrow> ps \<noteq> [] \<Longrightarrow>
    join ''/'' ps \<noteq> [] \<and> last (join ''/'' ps) \<noteq> CHR ''/''"
proof (induction ps rule: induct_list012)
  case (2 p)
  moreover have "p \<noteq> [] \<Longrightarrow> last p \<in> set p" by simp
  ultimately show ?case by (auto simp: segment_clean_def simp del: last_in_set)
next
  case (3 p q ps)
  then show ?case by simp
qed simp

lemma clean_path_idem: "clean_path (clean_path p) = clean_path p"
proof (cases "p = []")
  case False
  define ps where "ps = clean_segments (split_on (CHR ''/'') p) []"
  have ok: "list_all segment_clean ps"
    unfolding ps_def by (rule clean_segments_clean [OF split_on_segments]) simp
  then have plain: "list_all (\<lambda>q. CHR ''/'' \<notin> set q) ps"
    by (simp add: segment_clean_def list_all_iff)
  then have plain': "\<forall>q \<in> set ps. CHR ''/'' \<notin> set q" "\<forall>q \<in> set (ps @ [[]]). CHR ''/'' \<notin> set q"
    by (auto simp: list_all_iff)
  have p: "clean_path p = (let np = CHR ''/'' # join ''/'' ps in if last p = CHR ''/'' \<and> np \<noteq> ''/'' then np @ ''/'' else np)"
    using False by (simp add: clean_path_def ps_def)
  show ?thesis
  proof (cases "ps = []")
    case True
    then have "clean_path p = ''/''" by (simp add: p)
    then show ?thesis by (simp add: clean_path_def)
  next
    case ne: False
    have j: "split_on (CHR ''/'') (join ''/'' ps) = ps" "split_on (CHR ''/'') (join ''/'' ps @ ''/'') = ps @ [[]]"
      using split_on_join [OF ne plain'(1)] split_on_join [OF _ plain'(2)] join_trailing [OF ne, of "CHR ''/''"]
      by simp_all
    note l = join_last [OF ok ne]
    have id: "clean_segments ps [] = ps" "clean_segments (ps @ [[]]) [] = ps"
      using clean_segments_id [OF ok, of "[]" "[]"] clean_segments_id [OF ok, of "[[]]" "[]"] by simp_all
    have "clean_path (CHR ''/'' # join ''/'' ps) = CHR ''/'' # join ''/'' ps"
      "clean_path (CHR ''/'' # join ''/'' ps @ ''/'') = CHR ''/'' # join ''/'' ps @ ''/''"
      using j l id by (simp_all add: clean_path_def)
    then show ?thesis by (auto simp: p Let_def)
  qed
qed (simp add: clean_path_def)

lemma app_mux_redirect_once: "app_mux meth path = MuxRedirect p \<Longrightarrow> clean_path p = p"
  using clean_path_idem [of path] by (auto simp: app_mux_def Let_def split: if_split_asm option.split_asm)

text \<open>The process shuts its server down before its tracer, unless it dies of a fatal error.\<close>

lemma app_main_order:
  "(\<exists>msg. last (app_main env ex mg listened) = AppFatal msg) \<or>
   (\<exists>os addr. app_main env ex mg listened =
      [AppTracerStarted os, AppListen addr, AppServerShutdown, AppTracerShutdown])"
  by (auto simp: app_main_def split: prod.split sum.split option.split)

text \<open>
  The deployment page over a bridge with the in-memory storage shows the stored deployment of the
  service and environment asked for, or of the app's own, and 404 when there is none.
\<close>

theorem app_deployment_page:
  assumes "router_contract (sr_match sr)" and "h_storage (sr_handler sr) = MemoryStorage rng"
    and "svc = (if service = [] then app_serviceName a else service)"
    and "env = (if environ = [] then app_environment a else environ)" "plain_segment svc"
    and stored: "store_lookup rng svc env (br_store (sv_bridge s)) = r"
    and valid: "\<And>d. r = Inr d \<Longrightarrow> valid_deployment d"
    and fits: "length (snd (render (sr_num sr) (resp_body (lookup_response svc env r)))) \<le> maxResponseBytes"
  shows "fst (handleDeployment a (bridge_transport sr (baseURL (app_client a))) None service environ s) =
    (case r of Inr d \<Rightarrow> (200, LookupFound svc env (Some d))
     | Inl err \<Rightarrow> (404, LookupError (err_text ErrBridgeNotFound) svc env))"
proof -
  let ?tr = "bridge_transport sr (baseURL (app_client a))"
  obtain ans s' where g: "Client_GetDeployment (app_client a) ?tr None svc env s = (ans, s')" by fastforce
  from remote_lookup [OF assms(1,2,5) stored valid fits g] g assms(3,4) show ?thesis
    by (cases r) (auto simp: handleDeployment_def Let_def)
qed

end
