(* ===== verification/Redis_Storage.thy ===== *)
theory Redis_Storage
  imports Storage Event_Codec
begin

text \<open>
  The Redis backend of \<open>internal/storage/redis.go\<close>. The server and its client library are
  parameters: the commands the code sends, as operations on the state of the server, with their
  documented behaviour as a locale. Keys may expire during any command, and a command that fails
  may have been carried out or not.
\<close>

section \<open>The client\<close>

datatype redis_cmd = CSet string string duration | CSAdd string string | CExpire string duration

record 'r redis_client =
  rd_Set :: "ctx \<Rightarrow> string \<Rightarrow> string \<Rightarrow> duration \<Rightarrow> 'r \<Rightarrow> gerror option \<times> 'r"
  rd_Get :: "ctx \<Rightarrow> string \<Rightarrow> 'r \<Rightarrow> string result \<times> 'r"
  rd_Scan :: "ctx \<Rightarrow> nat \<Rightarrow> string \<Rightarrow> nat \<Rightarrow> 'r \<Rightarrow> (string list \<times> nat) result \<times> 'r"
  rd_SMembers :: "ctx \<Rightarrow> string \<Rightarrow> 'r \<Rightarrow> string list result \<times> 'r"
  rd_Exec :: "ctx \<Rightarrow> redis_cmd list \<Rightarrow> 'r \<Rightarrow> gerror option \<times> 'r"
  rd_Ping :: "ctx \<Rightarrow> 'r \<Rightarrow> gerror option \<times> 'r"
  rd_Close :: "'r \<Rightarrow> gerror option \<times> 'r"

text \<open>The sentinel \<open>redis.Nil\<close>.\<close>

definition redis_Nil :: gerror where
  "redis_Nil = ErrLib ''redis: nil''"

section \<open>Keys\<close>

definition deploymentKeyPrefix :: string where "deploymentKeyPrefix = ''deployment:''"
definition eventKeyPrefix :: string where "eventKeyPrefix = ''event:''"
definition chainKeyPrefix :: string where "chainKeyPrefix = ''chain:''"
definition scanBatchSize :: nat where "scanBatchSize = 100"

definition escapeKeyPart :: "string \<Rightarrow> string" where
  "escapeKeyPart s =
     concat (map (\<lambda>c.
       if c = CHR ''*'' then ''%2A'' else if c = CHR ''?'' then ''%3F''
       else if c = CHR ''['' then ''%5B'' else if c = CHR '']'' then ''%5D''
       else if c = CHR 0x5C then ''%5C'' else [c]) s)"

definition redisDeploymentKey :: "string \<Rightarrow> string \<Rightarrow> string" where
  "redisDeploymentKey service environment =
     deploymentKeyPrefix @ escapeKeyPart service @ '':'' @ escapeKeyPart environment"

section \<open>Deployments\<close>

record 'r RedisStorage =
  rs_client :: "'r redis_client"
  rs_ttl :: duration

definition redis_SaveDeployment ::
  "'r RedisStorage \<Rightarrow> ctx \<Rightarrow> deployment option \<Rightarrow> 'r \<Rightarrow> unit result \<times> 'r" where
  "redis_SaveDeployment r ctx od s =
     (case od of
        None \<Rightarrow> (Inl (ErrNew ''deployment is nil''), s)
      | Some d \<Rightarrow>
          (case marshal (deployment_json d) of
             Inl err \<Rightarrow> (Inl (ErrWrap ''failed to marshal deployment: '' err []), s)
           | Inr data \<Rightarrow>
               (case rd_Set (rs_client r) ctx (redisDeploymentKey (dep_Service d) (dep_Environment d)) data
                  (rs_ttl r) s of
                  (Some err, s) \<Rightarrow> (Inl (ErrWrap ''failed to save deployment: '' err []), s)
                | (None, s) \<Rightarrow> (Inr (), s))))"

definition readDeployment :: "'r RedisStorage \<Rightarrow> ctx \<Rightarrow> string \<Rightarrow> 'r \<Rightarrow> deployment result \<times> 'r" where
  "readDeployment r ctx key s =
     (case rd_Get (rs_client r) ctx key s of
        (Inl err, s) \<Rightarrow>
          if errors_is err redis_Nil then (Inl ErrNotFound, s)
          else (Inl (ErrWrap ''failed to get deployment: '' err []), s)
      | (Inr data, s) \<Rightarrow>
          (case unmarshal_struct deployment_fields data zero_deployment of
             Inl err \<Rightarrow> (Inl (ErrWrap ''failed to unmarshal deployment: '' err []), s)
           | Inr d \<Rightarrow> (Inr d, s)))"

definition redis_GetDeployment ::
  "'r RedisStorage \<Rightarrow> ctx \<Rightarrow> string \<Rightarrow> string \<Rightarrow> 'r \<Rightarrow> deployment result \<times> 'r" where
  "redis_GetDeployment r ctx service environment s =
     readDeployment r ctx (redisDeploymentKey service environment) s"

text \<open>The loop over the keys of one page of a scan.\<close>

fun read_page ::
  "'r RedisStorage \<Rightarrow> ctx \<Rightarrow> string list \<Rightarrow> deployment list \<Rightarrow> 'r \<Rightarrow> deployment list result \<times> 'r" where
  "read_page r ctx [] deployments s = (Inr deployments, s)"
| "read_page r ctx (key # keys) deployments s =
     (case readDeployment r ctx key s of
        (Inl err, s) \<Rightarrow>
          if errors_is err ErrNotFound then read_page r ctx keys deployments s else (Inl err, s)
      | (Inr d, s) \<Rightarrow> read_page r ctx keys (deployments @ [d]) s)"

text \<open>The loop over the pages goes on as long as the server wants: it may not end.\<close>

partial_function (option) scan_loop ::
  "'r RedisStorage \<Rightarrow> ctx \<Rightarrow> string \<Rightarrow> nat \<Rightarrow> deployment list \<Rightarrow> 'r \<Rightarrow>
   (deployment list result \<times> 'r) option" where
  "scan_loop r ctx pattern cursor deployments s =
     (case rd_Scan (rs_client r) ctx cursor pattern scanBatchSize s of
        (Inl err, s) \<Rightarrow> Some (Inl (ErrWrap ''failed to scan deployments: '' err []), s)
      | (Inr (keys, nxt), s) \<Rightarrow>
          (case read_page r ctx keys deployments s of
             (Inl err, s) \<Rightarrow> Some (Inl err, s)
           | (Inr deployments, s) \<Rightarrow>
               if nxt = 0 then Some (Inr deployments, s)
               else scan_loop r ctx pattern nxt deployments s))"

definition scanDeployments ::
  "'r RedisStorage \<Rightarrow> ctx \<Rightarrow> string \<Rightarrow> 'r \<Rightarrow> (deployment list result \<times> 'r) option" where
  "scanDeployments r ctx pattern s = scan_loop r ctx pattern 0 [] s"

definition redis_GetLatestDeployment ::
  "'r RedisStorage \<Rightarrow> ctx \<Rightarrow> string \<Rightarrow> 'r \<Rightarrow> (deployment result \<times> 'r) option" where
  "redis_GetLatestDeployment r ctx service s =
     map_option (\<lambda>(res, s).
       case res of
         Inl err \<Rightarrow> (Inl err, s)
       | Inr deployments \<Rightarrow> (latestDeployment (filter (\<lambda>d. dep_Service d = service) deployments), s))
     (scanDeployments r ctx (deploymentKeyPrefix @ escapeKeyPart service @ '':*'') s)"

definition redis_ListDeployments ::
  "'r RedisStorage \<Rightarrow> ctx \<Rightarrow> ListFilter \<Rightarrow> 'r \<Rightarrow> (deployment list result \<times> 'r) option" where
  "redis_ListDeployments r ctx f s =
     map_option (\<lambda>(res, s).
       case res of Inl err \<Rightarrow> (Inl err, s) | Inr deployments \<Rightarrow> (Inr (applyFilter deployments f), s))
     (scanDeployments r ctx (deploymentKeyPrefix @ ''*'') s)"

section \<open>Events\<close>

text \<open>The commands of the transaction that saves an event.\<close>

definition event_commands :: "duration \<Rightarrow> stored_event \<Rightarrow> string \<Rightarrow> redis_cmd list" where
  "event_commands ttl event data =
     [CSet (eventKeyPrefix @ ev_ID event) data ttl] @
     (if ev_ChainID event \<noteq> [] then
        (let chainKey = chainKeyPrefix @ ev_ChainID event
         in [CSAdd chainKey (ev_ID event)] @ (if 0 < ttl then [CExpire chainKey ttl] else []))
      else [])"

definition redis_SaveEvent ::
  "(string \<Rightarrow> string) \<Rightarrow> 'r RedisStorage \<Rightarrow> ctx \<Rightarrow> stored_event option \<Rightarrow> 'r \<Rightarrow> unit result \<times> 'r" where
  "redis_SaveEvent num r ctx oe s =
     (case oe of
        None \<Rightarrow> (Inl (ErrNew ''event is nil''), s)
      | Some event \<Rightarrow>
          (case marshal (stored_event_json num event) of
             Inl err \<Rightarrow> (Inl (ErrWrap ''failed to marshal event: '' err []), s)
           | Inr data \<Rightarrow>
               (case rd_Exec (rs_client r) ctx (event_commands (rs_ttl r) event data) s of
                  (Some err, s) \<Rightarrow> (Inl (ErrWrap ''failed to save event: '' err []), s)
                | (None, s) \<Rightarrow> (Inr (), s))))"

definition redis_GetEvent :: "'r RedisStorage \<Rightarrow> ctx \<Rightarrow> string \<Rightarrow> 'r \<Rightarrow> stored_event result \<times> 'r" where
  "redis_GetEvent r ctx eventID s =
     (case rd_Get (rs_client r) ctx (eventKeyPrefix @ eventID) s of
        (Inl err, s) \<Rightarrow>
          if errors_is err redis_Nil then (Inl ErrNotFound, s)
          else (Inl (ErrWrap ''failed to get event: '' err []), s)
      | (Inr data, s) \<Rightarrow>
          (case unmarshal_struct stored_event_fields data zero_stored_event of
             Inl err \<Rightarrow> (Inl (ErrWrap ''failed to unmarshal event: '' err []), s)
           | Inr event \<Rightarrow> (Inr event, s)))"

fun read_events ::
  "'r RedisStorage \<Rightarrow> ctx \<Rightarrow> string list \<Rightarrow> stored_event list \<Rightarrow> 'r \<Rightarrow> stored_event list result \<times> 'r" where
  "read_events r ctx [] events s = (Inr events, s)"
| "read_events r ctx (eventID # eventIDs) events s =
     (case redis_GetEvent r ctx eventID s of
        (Inl err, s) \<Rightarrow>
          if errors_is err ErrNotFound then read_events r ctx eventIDs events s else (Inl err, s)
      | (Inr event, s) \<Rightarrow> read_events r ctx eventIDs (events @ [event]) s)"

definition redis_GetEventsByChain ::
  "'r RedisStorage \<Rightarrow> ctx \<Rightarrow> string \<Rightarrow> 'r \<Rightarrow> stored_event list result \<times> 'r" where
  "redis_GetEventsByChain r ctx chainID s =
     (if chainID = [] then (Inr [], s)
      else
        (case rd_SMembers (rs_client r) ctx (chainKeyPrefix @ chainID) s of
           (Inl err, s) \<Rightarrow> (Inl (ErrWrap ''failed to get chain members: '' err []), s)
         | (Inr eventIDs, s) \<Rightarrow>
             (case read_events r ctx eventIDs [] s of
                (Inl err, s) \<Rightarrow> (Inl err, s)
              | (Inr events, s) \<Rightarrow> (Inr (sortEventsNewestFirst events), s))))"

definition redis_Ping :: "'r RedisStorage \<Rightarrow> ctx \<Rightarrow> 'r \<Rightarrow> unit result \<times> 'r" where
  "redis_Ping r ctx s =
     (case rd_Ping (rs_client r) ctx s of
        (Some err, s) \<Rightarrow> (Inl (ErrWrap ''redis ping failed: '' err []), s)
      | (None, s) \<Rightarrow> (Inr (), s))"

definition redis_Close :: "'r RedisStorage \<Rightarrow> 'r \<Rightarrow> unit result \<times> 'r" where
  "redis_Close r s =
     (case rd_Close (rs_client r) s of (Some err, s) \<Rightarrow> (Inl err, s) | (None, s) \<Rightarrow> (Inr (), s))"

text \<open>\<open>NewRedisStorage\<close> connects to a client the library made of the URL, and gives up when it does not answer.\<close>

definition NewRedisStorage ::
  "'r redis_client result \<Rightarrow> duration \<Rightarrow> ctx \<Rightarrow> 'r \<Rightarrow> 'r RedisStorage result \<times> 'r" where
  "NewRedisStorage parsed ttl ctx s =
     (case parsed of
        Inl err \<Rightarrow> (Inl (ErrWrap ''failed to parse redis URL: '' err []), s)
      | Inr client \<Rightarrow>
          (case rd_Ping client ctx s of
             (Some err, s) \<Rightarrow>
               (case rd_Close client s of (_, s) \<Rightarrow> (Inl (ErrWrap ''failed to ping redis: '' err []), s))
           | (None, s) \<Rightarrow> (Inr \<lparr>rs_client = client, rs_ttl = ttl\<rparr>, s)))"

end
