(* ===== verification/Redis_Facts.thy ===== *)
theory Redis_Facts
  imports Redis_Storage
begin

text \<open>
  The contract of a Redis server as the backend uses it, and what the operations of the backend
  do on any server that meets it.
\<close>

lemma map_leD: "m \<subseteq>\<^sub>m m' \<Longrightarrow> m k = Some v \<Longrightarrow> m' k = Some v"
  by (auto simp: map_le_def dom_def)

section \<open>The contract of the server\<close>

datatype rvalue = RStr string | RSet "string list"

text \<open>What the commands of a transaction do to the live keys.\<close>

fun apply_cmd :: "redis_cmd \<Rightarrow> (string \<Rightarrow> rvalue option) \<Rightarrow> string \<Rightarrow> rvalue option" where
  "apply_cmd (CSet k v ttl) ks = ks(k \<mapsto> RStr v)"
| "apply_cmd (CSAdd k m) ks =
     (case ks k of
        Some (RSet ms) \<Rightarrow> ks(k \<mapsto> RSet (List.insert m ms))
      | Some (RStr v) \<Rightarrow> ks
      | None \<Rightarrow> ks(k \<mapsto> RSet [m]))"
| "apply_cmd (CExpire k ttl) ks = ks"

text \<open>A pattern of plain characters before one final asterisk.\<close>

definition plain_glob :: "string \<Rightarrow> bool" where
  "plain_glob p \<longleftrightarrow> list_all (\<lambda>c. c \<notin> set [CHR ''*'', CHR ''?'', CHR ''['', CHR '']'', CHR 0x5C]) p"

text \<open>A full iteration: pages from a cursor to the cursor 0, with time passing between them.\<close>

inductive scan_run ::
  "'r redis_client \<Rightarrow> ('r \<Rightarrow> 'r \<Rightarrow> bool) \<Rightarrow> ctx \<Rightarrow> string \<Rightarrow> nat \<Rightarrow> 'r \<Rightarrow> string list \<Rightarrow> 'r \<Rightarrow> bool"
  for c ages ctx pattern where
  last_page: "rd_Scan c ctx cursor pattern scanBatchSize s = (Inr (ks, 0), s1) \<Longrightarrow> ages s1 s2 \<Longrightarrow>
    scan_run c ages ctx pattern cursor s ks s2"
| more_pages: "rd_Scan c ctx cursor pattern scanBatchSize s = (Inr (ks, nxt), s1) \<Longrightarrow> nxt \<noteq> 0 \<Longrightarrow> ages s1 s2 \<Longrightarrow>
    scan_run c ages ctx pattern nxt s2 ks' s3 \<Longrightarrow> scan_run c ages ctx pattern cursor s (ks @ ks') s3"

inductive_cases scan_runE: "scan_run c ages ctx pattern cursor s ks s'"

text \<open>
  \<open>keys\<close> are the live keys; \<open>ages\<close> relates the states of a server between which only reads were
  served; \<open>rank\<close> bounds how many pages an iteration still has. A read may let keys expire and
  changes nothing else; a write that succeeds leaves the written keys, unless they have expired
  already; a full iteration returns every matching key that is live throughout.
\<close>

locale redis_server =
  fixes c :: "'r redis_client" and keys :: "'r \<Rightarrow> string \<Rightarrow> rvalue option"
    and ages :: "'r \<Rightarrow> 'r \<Rightarrow> bool" and rank :: "'r \<Rightarrow> nat \<Rightarrow> nat"
  assumes ages_keys: "ages s s' \<Longrightarrow> keys s' \<subseteq>\<^sub>m keys s"
    and ages_refl: "ages s s" and ages_trans: "ages s s' \<Longrightarrow> ages s' s'' \<Longrightarrow> ages s s''"
    and ages_rank: "ages s s' \<Longrightarrow> rank s' n \<le> rank s n"
    and get_ages: "rd_Get c ctx k s = (r, s') \<Longrightarrow> ages s s'"
    and get_found: "rd_Get c ctx k s = (Inr v, s') \<Longrightarrow> keys s k = Some (RStr v)"
    and get_missing: "rd_Get c ctx k s = (Inl err, s') \<Longrightarrow> errors_is err redis_Nil \<Longrightarrow> keys s' k = None"
    and set_keys: "rd_Set c ctx k v ttl s = (None, s') \<Longrightarrow> keys s' \<subseteq>\<^sub>m (keys s)(k \<mapsto> RStr v)"
    and exec_keys: "rd_Exec c ctx (event_commands ttl e data) s = (None, s') \<Longrightarrow>
      \<exists>ks. ks \<subseteq>\<^sub>m keys s \<and> keys s' \<subseteq>\<^sub>m fold apply_cmd (event_commands ttl e data) ks"
    and members_ages: "rd_SMembers c ctx k s = (rm, s') \<Longrightarrow> ages s s'"
    and members_found: "rd_SMembers c ctx k s = (Inr ms, s') \<Longrightarrow>
      keys s k = Some (RSet ms) \<or> ms = [] \<and> keys s' k = None"
    and scan_ages: "rd_Scan c ctx cursor pattern n s = (rp, s') \<Longrightarrow> ages s s'"
    and scan_rank: "rd_Scan c ctx cursor pattern scanBatchSize s = (Inr (ks, nxt), s') \<Longrightarrow> nxt \<noteq> 0 \<Longrightarrow>
      rank s' nxt < rank s cursor"
    and scan_complete: "scan_run c ages ctx (pre @ ''*'') 0 s ks s' \<Longrightarrow> plain_glob pre \<Longrightarrow>
      keys s' k \<noteq> None \<Longrightarrow> has_prefix pre k \<Longrightarrow> k \<in> set ks"
    and client_errors: "rd_Get c ctx k s = (Inl err, s') \<Longrightarrow> \<not> errors_is err ErrNotFound"
      "rd_Scan c ctx cursor pattern n s = (Inl err, s') \<Longrightarrow> \<not> errors_is err ErrNotFound"
begin

lemma ages_live: "ages s s' \<Longrightarrow> keys s' k = Some v \<Longrightarrow> keys s k = Some v"
  using ages_keys [of s s'] by (auto simp: map_le_def dom_def)

end

text \<open>
  The two loops that read a list of keys and leave out what has expired are one: here it is over
  any reader of a record.
\<close>

fun collect_found ::
  "(string \<Rightarrow> 'r \<Rightarrow> 'a result \<times> 'r) \<Rightarrow> string list \<Rightarrow> 'a list \<Rightarrow> 'r \<Rightarrow> 'a list result \<times> 'r" where
  "collect_found rd [] acc s = (Inr acc, s)"
| "collect_found rd (k # ks) acc s =
     (case rd k s of
        (Inl err, s) \<Rightarrow> if errors_is err ErrNotFound then collect_found rd ks acc s else (Inl err, s)
      | (Inr x, s) \<Rightarrow> collect_found rd ks (acc @ [x]) s)"

lemma read_page_collect: "read_page r ctx ks acc s = collect_found (readDeployment r ctx) ks acc s"
  by (induction ks arbitrary: acc s) (simp_all split: prod.splits sum.splits)

lemma read_events_collect: "read_events r ctx ids acc s = collect_found (redis_GetEvent r ctx) ids acc s"
  by (induction ids arbitrary: acc s) (simp_all split: prod.splits sum.splits)

text \<open>The deployment a key holds, and the event an id has.\<close>

definition deployment_at :: "(string \<Rightarrow> rvalue option) \<Rightarrow> string \<Rightarrow> deployment \<Rightarrow> bool" where
  "deployment_at ks k d \<longleftrightarrow> (\<exists>data. ks k = Some (RStr data) \<and>
     unmarshal_struct deployment_fields data zero_deployment = Inr d)"

definition event_at :: "(string \<Rightarrow> rvalue option) \<Rightarrow> string \<Rightarrow> stored_event \<Rightarrow> bool" where
  "event_at ks i e \<longleftrightarrow> (\<exists>data. ks (eventKeyPrefix @ i) = Some (RStr data) \<and>
     unmarshal_struct stored_event_fields data zero_stored_event = Inr e)"

context redis_server
begin

section \<open>Reading one record\<close>

lemma deployment_at_ages: "ages s s' \<Longrightarrow> deployment_at (keys s') k d \<Longrightarrow> deployment_at (keys s) k d"
  by (auto simp: deployment_at_def dest: ages_live)

lemma event_at_ages: "ages s s' \<Longrightarrow> event_at (keys s') i e \<Longrightarrow> event_at (keys s) i e"
  by (auto simp: event_at_def dest: ages_live)

lemma deployment_at_unique: "deployment_at ks k d \<Longrightarrow> deployment_at ks k d' \<Longrightarrow> d = d'"
  by (auto simp: deployment_at_def)

lemma event_at_unique: "event_at ks i e \<Longrightarrow> event_at ks i e' \<Longrightarrow> e = e'"
  by (auto simp: event_at_def)

lemma read_deployment:
  assumes "rs_client r = c" and "readDeployment r ctx k s = (res, s')"
  shows "ages s s'" and "res = Inr d \<Longrightarrow> deployment_at (keys s) k d"
    and "deployment_at (keys s') k d \<Longrightarrow> res = Inr d \<or> (\<exists>err. res = Inl err \<and> \<not> errors_is err ErrNotFound)"
proof -
  obtain g s1 where g: "rd_Get c ctx k s = (g, s1)" by fastforce
  have s1: "s1 = s'" using assms g
    by (auto simp: readDeployment_def split: sum.splits if_splits)
  with get_ages [OF g] show a: "ages s s'" by simp
  have found: "g = Inr data \<Longrightarrow> keys s k = Some (RStr data)" for data
    using get_found g by blast
  show "res = Inr d \<Longrightarrow> deployment_at (keys s) k d"
    using assms g found by (auto simp: readDeployment_def deployment_at_def split: sum.splits if_splits)
  assume d: "deployment_at (keys s') k d"
  show "res = Inr d \<or> (\<exists>err. res = Inl err \<and> \<not> errors_is err ErrNotFound)"
  proof (cases g)
    case (Inl err)
    have "\<not> errors_is err redis_Nil"
      using get_missing [OF g [unfolded Inl]] d s1 by (auto simp: deployment_at_def)
    with assms g Inl client_errors(1) [OF g [unfolded Inl]] show ?thesis
      by (auto simp: readDeployment_def)
  next
    case (Inr data)
    with get_found g have "keys s k = Some (RStr data)" by blast
    with deployment_at_ages [OF a d] have "unmarshal_struct deployment_fields data zero_deployment = Inr d"
      by (auto simp: deployment_at_def)
    with assms g Inr show ?thesis by (auto simp: readDeployment_def)
  qed
qed

lemma read_event:
  assumes "rs_client r = c" and "redis_GetEvent r ctx i s = (res, s')"
  shows "ages s s'" and "res = Inr e \<Longrightarrow> event_at (keys s) i e"
    and "event_at (keys s') i e \<Longrightarrow> res = Inr e \<or> (\<exists>err. res = Inl err \<and> \<not> errors_is err ErrNotFound)"
proof -
  let ?k = "eventKeyPrefix @ i"
  obtain g s1 where g: "rd_Get c ctx ?k s = (g, s1)" by fastforce
  have s1: "s1 = s'" using assms g
    by (auto simp: redis_GetEvent_def split: sum.splits if_splits)
  with get_ages [OF g] show a: "ages s s'" by simp
  have found: "g = Inr data \<Longrightarrow> keys s ?k = Some (RStr data)" for data
    using get_found g by blast
  show "res = Inr e \<Longrightarrow> event_at (keys s) i e"
    using assms g found by (auto simp: redis_GetEvent_def event_at_def split: sum.splits if_splits)
  assume e: "event_at (keys s') i e"
  show "res = Inr e \<or> (\<exists>err. res = Inl err \<and> \<not> errors_is err ErrNotFound)"
  proof (cases g)
    case (Inl err)
    have "\<not> errors_is err redis_Nil"
      using get_missing [OF g [unfolded Inl]] e s1 by (auto simp: event_at_def)
    with assms g Inl client_errors(1) [OF g [unfolded Inl]] show ?thesis
      by (auto simp: redis_GetEvent_def)
  next
    case (Inr data)
    with get_found g have "keys s ?k = Some (RStr data)" by blast
    with event_at_ages [OF a e] have "unmarshal_struct stored_event_fields data zero_stored_event = Inr e"
      by (auto simp: event_at_def)
    with assms g Inr show ?thesis by (auto simp: redis_GetEvent_def)
  qed
qed

section \<open>Reading pages\<close>

lemma collect_found_spec:
  assumes read_ages: "\<And>k s res s'. rd k s = (res, s') \<Longrightarrow> ages s s'"
    and read_found: "\<And>k s x s'. rd k s = (Inr x, s') \<Longrightarrow> at (keys s) k x"
    and read_live: "\<And>k s res s' x. rd k s = (res, s') \<Longrightarrow> at (keys s') k x \<Longrightarrow>
      res = Inr x \<or> (\<exists>err. res = Inl err \<and> \<not> errors_is err ErrNotFound)"
    and at_ages: "\<And>s s' k x. ages s s' \<Longrightarrow> at (keys s') k x \<Longrightarrow> at (keys s) k x"
    and at_unique: "\<And>ks k x y. at ks k x \<Longrightarrow> at ks k y \<Longrightarrow> x = y"
    and "collect_found rd ks acc s = (res, s')"
  shows "ages s s' \<and> (\<forall>xs. res = Inr xs \<longrightarrow> set acc \<subseteq> set xs \<and>
    (\<forall>x \<in> set xs. x \<in> set acc \<or> (\<exists>k \<in> set ks. at (keys s) k x)) \<and>
    (\<forall>k \<in> set ks. \<forall>x. at (keys s') k x \<longrightarrow> x \<in> set xs))"
  using assms(6)
proof (induction ks arbitrary: acc s)
  case Nil
  then show ?case by (auto simp: ages_refl)
next
  case (Cons k ks)
  obtain g s1 where g: "rd k s = (g, s1)" by fastforce
  note a1 = read_ages [OF g]
  have down: "at (keys s1) k' x \<Longrightarrow> at (keys s) k' x" for k' x
    using a1 by (rule at_ages)
  consider (stop) err where "g = Inl err" "res = Inl err" "s' = s1"
    | (skip) err where "g = Inl err" "errors_is err ErrNotFound" "collect_found rd ks acc s1 = (res, s')"
    | (found) x where "g = Inr x" "collect_found rd ks (acc @ [x]) s1 = (res, s')"
    using Cons.prems g by (cases g) (auto split: if_splits)
  then show ?case
  proof cases
    case stop
    with a1 show ?thesis by simp
  next
    case skip
    from Cons.IH [OF skip(3)] a1 have a: "ages s s'" by (blast intro: ages_trans)
    have none: "\<not> at (keys s') k x" for x
    proof
      assume "at (keys s') k x"
      then have "at (keys s1) k x" using Cons.IH [OF skip(3)] at_ages by blast
      from read_live [OF g this] skip(1,2) show False by auto
    qed
    show ?thesis
    proof (intro conjI allI impI)
      fix xs assume res: "res = Inr xs"
      note ih = Cons.IH [OF skip(3), THEN conjunct2, THEN spec, THEN mp, OF res]
      show "set acc \<subseteq> set xs" using ih by (rule conjunct1)
      show "\<forall>x \<in> set xs. x \<in> set acc \<or> (\<exists>k' \<in> set (k # ks). at (keys s) k' x)"
        using ih [THEN conjunct2, THEN conjunct1] down by (metis list.set_intros(2))
      show "\<forall>k' \<in> set (k # ks). \<forall>x. at (keys s') k' x \<longrightarrow> x \<in> set xs"
        using ih [THEN conjunct2, THEN conjunct2] none by (metis set_ConsD)
    qed (rule a)
  next
    case (found y)
    from Cons.IH [OF found(2)] a1 have a: "ages s s'" by (blast intro: ages_trans)
    have this_y: "x = y" if "at (keys s') k x" for x
      using at_ages [OF a that] read_found [OF g [unfolded found(1)]] by (rule at_unique)
    show ?thesis
    proof (intro conjI allI impI)
      fix xs assume res: "res = Inr xs"
      note ih = Cons.IH [OF found(2), THEN conjunct2, THEN spec, THEN mp, OF res]
      from ih have sub: "set acc \<union> {y} \<subseteq> set xs" by simp
      then show "set acc \<subseteq> set xs" by simp
      show "\<forall>x \<in> set xs. x \<in> set acc \<or> (\<exists>k' \<in> set (k # ks). at (keys s) k' x)"
      proof
        fix x assume "x \<in> set xs"
        with ih have "x \<in> set acc \<or> x = y \<or> (\<exists>k' \<in> set ks. at (keys s1) k' x)" by auto
        with read_found [OF g [unfolded found(1)]] down
        show "x \<in> set acc \<or> (\<exists>k' \<in> set (k # ks). at (keys s) k' x)" by auto
      qed
      show "\<forall>k' \<in> set (k # ks). \<forall>x. at (keys s') k' x \<longrightarrow> x \<in> set xs"
        using ih [THEN conjunct2, THEN conjunct2] this_y sub by auto
    qed (rule a)
  qed
qed

lemma read_page_spec:
  assumes "rs_client r = c" and "read_page r ctx ks acc s = (res, s')"
  shows "ages s s' \<and> (\<forall>ds. res = Inr ds \<longrightarrow> set acc \<subseteq> set ds \<and>
    (\<forall>d \<in> set ds. d \<in> set acc \<or> (\<exists>k \<in> set ks. deployment_at (keys s) k d)) \<and>
    (\<forall>k \<in> set ks. \<forall>d. deployment_at (keys s') k d \<longrightarrow> d \<in> set ds))"
  using assms(2) unfolding read_page_collect
  by (rule collect_found_spec [rotated -1])
    (use read_deployment [OF assms(1)] in \<open>blast intro: deployment_at_ages deployment_at_unique\<close>)+

lemma read_events_spec:
  assumes "rs_client r = c" and "read_events r ctx ids acc s = (res, s')"
  shows "ages s s' \<and> (\<forall>es. res = Inr es \<longrightarrow> set acc \<subseteq> set es \<and>
    (\<forall>e \<in> set es. e \<in> set acc \<or> (\<exists>i \<in> set ids. event_at (keys s) i e)) \<and>
    (\<forall>i \<in> set ids. \<forall>e. event_at (keys s') i e \<longrightarrow> e \<in> set es))"
  using assms(2) unfolding read_events_collect
  by (rule collect_found_spec [rotated -1])
    (use read_event [OF assms(1)] in \<open>blast intro: event_at_ages event_at_unique\<close>)+

section \<open>Scanning\<close>

lemma scan_loop_spec:
  assumes "rs_client r = c"
  shows "\<exists>res s'. scan_loop r ctx pattern cursor acc s = Some (res, s') \<and> ages s s' \<and>
    (\<forall>ds. res = Inr ds \<longrightarrow> (\<exists>ks. scan_run c ages ctx pattern cursor s ks s' \<and> set acc \<subseteq> set ds \<and>
      (\<forall>d \<in> set ds. d \<in> set acc \<or> (\<exists>k \<in> set ks. deployment_at (keys s) k d)) \<and>
      (\<forall>k \<in> set ks. \<forall>d. deployment_at (keys s') k d \<longrightarrow> d \<in> set ds))) \<and>
    (\<forall>err. res = Inl err \<longrightarrow> \<not> errors_is err ErrNotFound)"
proof (induction "rank s cursor" arbitrary: cursor acc s rule: less_induct)
  case less
  obtain g s1 where g: "rd_Scan c ctx cursor pattern scanBatchSize s = (g, s1)" by fastforce
  note a1 = scan_ages [OF g]
  show ?case
  proof (cases g)
    case (Inl err)
    with g a1 assms client_errors(2) [OF g [unfolded Inl]] show ?thesis
      by (simp add: scan_loop.simps)
  next
    case (Inr page)
    obtain ks nxt where page: "page = (ks, nxt)" by fastforce
    note g' = g [unfolded Inr page]
    obtain res1 s2 where p: "read_page r ctx ks acc s1 = (res1, s2)" by fastforce
    note rp = read_page_spec [OF assms p]
    then have a2: "ages s s2" using a1 by (blast intro: ages_trans)
    show ?thesis
    proof (cases res1)
      case (Inl err)
      have "\<not> errors_is err ErrNotFound"
        using p Inl by (induction r ctx ks acc s1 rule: read_page.induct)
          (auto split: prod.splits sum.splits if_splits)
      with g' p Inl a2 assms Inr show ?thesis by (simp add: scan_loop.simps)
    next
      case ds1: (Inr ds1)
      with rp have sub1: "set acc \<subseteq> set ds1"
        and each1: "\<And>d. d \<in> set ds1 \<Longrightarrow> d \<in> set acc \<or> (\<exists>k \<in> set ks. deployment_at (keys s1) k d)"
        and all1: "\<And>k d. k \<in> set ks \<Longrightarrow> deployment_at (keys s2) k d \<Longrightarrow> d \<in> set ds1"
        and a12: "ages s1 s2" by blast+
      have down1: "deployment_at (keys s1) k d \<Longrightarrow> deployment_at (keys s) k d" for k d
        using a1 by (rule deployment_at_ages)
      show ?thesis
      proof (cases "nxt = 0")
        case True
        then have "scan_run c ages ctx pattern cursor s ks s2"
          using g' a12 last_page by metis
        moreover have "scan_loop r ctx pattern cursor acc s = Some (Inr ds1, s2)"
          using g' p ds1 assms True by (subst scan_loop.simps) simp
        ultimately show ?thesis
          using a2 sub1 each1 all1 down1 by (intro exI [of _ "Inr ds1"] exI [of _ s2]) blast
      next
        case False
        have "rank s2 nxt < rank s cursor"
          using scan_rank [OF g' False] ages_rank [OF a12, of nxt] by simp
        from less [OF this, of ds1] obtain res s' where
          l: "scan_loop r ctx pattern nxt ds1 s2 = Some (res, s')" "ages s2 s'"
          and ok: "\<And>ds. res = Inr ds \<Longrightarrow> \<exists>ks. scan_run c ages ctx pattern nxt s2 ks s' \<and> set ds1 \<subseteq> set ds \<and>
            (\<forall>d \<in> set ds. d \<in> set ds1 \<or> (\<exists>k \<in> set ks. deployment_at (keys s2) k d)) \<and>
            (\<forall>k \<in> set ks. \<forall>d. deployment_at (keys s') k d \<longrightarrow> d \<in> set ds)"
          and err: "\<And>err. res = Inl err \<Longrightarrow> \<not> errors_is err ErrNotFound"
          by blast
        have loop: "scan_loop r ctx pattern cursor acc s = Some (res, s')"
          using g' p ds1 assms False l(1) by (subst scan_loop.simps) simp
        have a: "ages s s'" using a2 l(2) by (rule ages_trans)
        have down2: "deployment_at (keys s2) k d \<Longrightarrow> deployment_at (keys s) k d" for k d
          using a2 by (rule deployment_at_ages)
        have up: "deployment_at (keys s') k d \<Longrightarrow> deployment_at (keys s2) k d" for k d
          using l(2) by (rule deployment_at_ages)
        have "\<exists>ks. scan_run c ages ctx pattern cursor s ks s' \<and> set acc \<subseteq> set ds \<and>
            (\<forall>d \<in> set ds. d \<in> set acc \<or> (\<exists>k \<in> set ks. deployment_at (keys s) k d)) \<and>
            (\<forall>k \<in> set ks. \<forall>d. deployment_at (keys s') k d \<longrightarrow> d \<in> set ds)" if r: "res = Inr ds" for ds
        proof -
          obtain ks' where run: "scan_run c ages ctx pattern nxt s2 ks' s'" and sub: "set ds1 \<subseteq> set ds"
            and each: "\<And>d. d \<in> set ds \<Longrightarrow> d \<in> set ds1 \<or> (\<exists>k \<in> set ks'. deployment_at (keys s2) k d)"
            and all: "\<And>k d. k \<in> set ks' \<Longrightarrow> deployment_at (keys s') k d \<Longrightarrow> d \<in> set ds"
            using ok [OF r] by blast
          have "d \<in> set acc \<or> (\<exists>k \<in> set (ks @ ks'). deployment_at (keys s) k d)" if "d \<in> set ds" for d
            using each [OF that] each1 down1 down2 by (metis Un_iff set_append)
          moreover have "d \<in> set ds" if "k \<in> set (ks @ ks')" "deployment_at (keys s') k d" for k d
            using that all all1 up sub by (metis Un_iff set_append subsetD)
          ultimately show ?thesis
            using more_pages [OF g' False a12 run] sub1 sub by blast
        qed
        with loop a err show ?thesis by blast
      qed
    qed
  qed
qed

section \<open>The operations of the backend\<close>

lemma scan_deployments_complete:
  assumes "rs_client r = c" and "plain_glob pre"
  shows "\<exists>res s'. scanDeployments r ctx (pre @ ''*'') s = Some (res, s') \<and> ages s s' \<and>
    (\<forall>ds. res = Inr ds \<longrightarrow> (\<forall>d \<in> set ds. \<exists>k. deployment_at (keys s) k d) \<and>
      (\<forall>k d. has_prefix pre k \<longrightarrow> deployment_at (keys s') k d \<longrightarrow> d \<in> set ds)) \<and>
    (\<forall>err. res = Inl err \<longrightarrow> \<not> errors_is err ErrNotFound)"
proof -
  from scan_loop_spec [OF assms(1), of ctx "pre @ ''*''" 0 "[]" s] obtain res s' where
    l: "scan_loop r ctx (pre @ ''*'') 0 [] s = Some (res, s')" "ages s s'"
    and ok: "\<And>ds. res = Inr ds \<Longrightarrow> \<exists>ks. scan_run c ages ctx (pre @ ''*'') 0 s ks s' \<and>
      (\<forall>d \<in> set ds. \<exists>k \<in> set ks. deployment_at (keys s) k d) \<and>
      (\<forall>k \<in> set ks. \<forall>d. deployment_at (keys s') k d \<longrightarrow> d \<in> set ds)"
    and err: "\<And>err. res = Inl err \<Longrightarrow> \<not> errors_is err ErrNotFound"
    by (metis empty_iff list.set(1))
  have "(\<forall>d \<in> set ds. \<exists>k. deployment_at (keys s) k d) \<and>
      (\<forall>k d. has_prefix pre k \<longrightarrow> deployment_at (keys s') k d \<longrightarrow> d \<in> set ds)" if "res = Inr ds" for ds
  proof -
    obtain ks where run: "scan_run c ages ctx (pre @ ''*'') 0 s ks s'"
      and each: "\<forall>d \<in> set ds. \<exists>k \<in> set ks. deployment_at (keys s) k d"
      and all: "\<forall>k \<in> set ks. \<forall>d. deployment_at (keys s') k d \<longrightarrow> d \<in> set ds"
      using ok [OF \<open>res = Inr ds\<close>] by blast
    have "d \<in> set ds" if "has_prefix pre k" "deployment_at (keys s') k d" for k d
    proof -
      have "keys s' k \<noteq> None" using that(2) by (auto simp: deployment_at_def)
      from scan_complete [OF run assms(2) this that(1)] all that(2) show ?thesis by blast
    qed
    with each show ?thesis by blast
  qed
  with l err show ?thesis unfolding scanDeployments_def by blast
qed

lemma escapeKeyPart_plain: "plain_glob (escapeKeyPart s)"
  by (auto simp: plain_glob_def escapeKeyPart_def list_all_iff split: if_splits)

lemma latest_spec:
  assumes "rs_client r = c"
  shows "\<exists>res s'. redis_GetLatestDeployment r ctx svc s = Some (res, s') \<and> ages s s' \<and>
    (case res of
       Inr d \<Rightarrow> dep_Service d = svc \<and> (\<exists>k. deployment_at (keys s) k d) \<and>
         (\<forall>env d'. deployment_at (keys s') (redisDeploymentKey svc env) d' \<and> dep_Service d' = svc \<longrightarrow>
            deployment_key d \<le> deployment_key d')
     | Inl err \<Rightarrow> errors_is err ErrNotFound \<longrightarrow>
         (\<forall>env d'. deployment_at (keys s') (redisDeploymentKey svc env) d' \<longrightarrow> dep_Service d' \<noteq> svc))"
proof -
  let ?pre = "deploymentKeyPrefix @ escapeKeyPart svc @ '':''"
  have glob: "plain_glob ?pre"
    using escapeKeyPart_plain [of svc] by (simp add: plain_glob_def deploymentKeyPrefix_def)
  have pre: "has_prefix ?pre (redisDeploymentKey svc env)" for env
    by (simp add: redisDeploymentKey_def has_prefix_def)
  have pat: "deploymentKeyPrefix @ escapeKeyPart svc @ '':*'' = ?pre @ ''*''" by simp
  from scan_deployments_complete [OF assms glob, of ctx s] obtain res s' where
    sc: "scanDeployments r ctx (?pre @ ''*'') s = Some (res, s')" "ages s s'"
    and ok: "\<And>ds. res = Inr ds \<Longrightarrow> (\<forall>d \<in> set ds. \<exists>k. deployment_at (keys s) k d) \<and>
      (\<forall>k d. has_prefix ?pre k \<longrightarrow> deployment_at (keys s') k d \<longrightarrow> d \<in> set ds)"
    and err: "\<And>err. res = Inl err \<Longrightarrow> \<not> errors_is err ErrNotFound"
    by blast
  note sc' = sc(1) [folded pat]
  show ?thesis
  proof (cases res)
    case (Inl e)
    with sc sc' err show ?thesis by (simp add: redis_GetLatestDeployment_def)
  next
    case (Inr ds)
    let ?f = "filter (\<lambda>d. dep_Service d = svc) ds"
    have l: "redis_GetLatestDeployment r ctx svc s = Some (latestDeployment ?f, s')"
      using sc' Inr by (simp add: redis_GetLatestDeployment_def)
    have all: "d' \<in> set ?f" if "deployment_at (keys s') (redisDeploymentKey svc env) d'" "dep_Service d' = svc" for env d'
      using ok [OF Inr] pre that by auto
    show ?thesis
    proof (cases "latestDeployment ?f")
      case (Inl e)
      then have "?f = []" by (simp add: latestDeployment_Inl)
      with all l sc(2) Inl show ?thesis by fastforce
    next
      case d: (Inr d)
      from latestDeployment_Inr [OF d] have "d \<in> set ?f" "\<forall>d' \<in> set ?f. deployment_key d \<le> deployment_key d'"
        by blast+
      with all ok [OF Inr] l sc(2) d show ?thesis by auto
    qed
  qed
qed

text \<open>A listing is that of some list of records that has every record that is live throughout.\<close>

lemma list_spec:
  assumes "rs_client r = c"
  shows "\<exists>res s'. redis_ListDeployments r ctx f s = Some (res, s') \<and> ages s s' \<and>
    (\<forall>ds. res = Inr ds \<longrightarrow> (\<exists>all. (\<forall>d \<in> set all. \<exists>k. deployment_at (keys s) k d) \<and>
      (\<forall>svc env d. deployment_at (keys s') (redisDeploymentKey svc env) d \<longrightarrow> d \<in> set all) \<and>
      listing_of f all ds))"
proof -
  have pre: "has_prefix deploymentKeyPrefix (redisDeploymentKey svc env)" for svc env
    by (simp add: redisDeploymentKey_def)
  have "plain_glob deploymentKeyPrefix" by (simp add: plain_glob_def deploymentKeyPrefix_def)
  from scan_deployments_complete [OF assms this, of ctx s] obtain res s' where
    sc: "scanDeployments r ctx (deploymentKeyPrefix @ ''*'') s = Some (res, s')" "ages s s'"
    and ok: "\<And>ds. res = Inr ds \<Longrightarrow> (\<forall>d \<in> set ds. \<exists>k. deployment_at (keys s) k d) \<and>
      (\<forall>k d. has_prefix deploymentKeyPrefix k \<longrightarrow> deployment_at (keys s') k d \<longrightarrow> d \<in> set ds)"
    by blast
  show ?thesis
  proof (cases res)
    case (Inl err)
    with sc show ?thesis by (simp add: redis_ListDeployments_def)
  next
    case (Inr ds)
    have "redis_ListDeployments r ctx f s = Some (Inr (applyFilter ds f), s')"
      using sc(1) Inr by (simp add: redis_ListDeployments_def)
    with ok [OF Inr] sc(2) pre applyFilter_listing [of f ds] show ?thesis by blast
  qed
qed

lemma save_deployment_spec:
  assumes "rs_client r = c" and "valid_deployment d"
    and "redis_SaveDeployment r ctx (Some d) s = (Inr (), s1)"
  shows "\<exists>data. unmarshal_struct deployment_fields data zero_deployment = Inr d \<and>
    keys s1 \<subseteq>\<^sub>m (keys s)(redisDeploymentKey (dep_Service d) (dep_Environment d) \<mapsto> RStr data)"
proof -
  obtain data where data: "marshal (deployment_json d) = Inr data"
    "unmarshal_struct deployment_fields data zero_deployment = Inr d"
    by (rule valid_deployment_marshals [OF assms(2)])
  with assms(1,3) have "rd_Set c ctx (redisDeploymentKey (dep_Service d) (dep_Environment d)) data (rs_ttl r) s =
      (None, s1)"
    by (auto simp: redis_SaveDeployment_def split: prod.splits option.splits)
  from set_keys [OF this] data(2) show ?thesis by blast
qed

lemma read_your_write:
  assumes "rs_client r = c" and "valid_deployment d"
    and "redis_SaveDeployment r ctx (Some d) s = (Inr (), s1)"
    and "redis_GetDeployment r ctx' svc env s1 = (res, s2)"
  shows "(\<forall>d'. res = Inr d' \<longrightarrow>
      (if redisDeploymentKey svc env = redisDeploymentKey (dep_Service d) (dep_Environment d) then d' = d
       else deployment_at (keys s) (redisDeploymentKey svc env) d')) \<and>
    (\<forall>err d'. res = Inl err \<and> errors_is err ErrNotFound \<longrightarrow>
       \<not> deployment_at (keys s2) (redisDeploymentKey svc env) d')"
proof -
  let ?k = "redisDeploymentKey (dep_Service d) (dep_Environment d)" and ?k' = "redisDeploymentKey svc env"
  obtain data where data: "unmarshal_struct deployment_fields data zero_deployment = Inr d"
    "keys s1 \<subseteq>\<^sub>m (keys s)(?k \<mapsto> RStr data)"
    using save_deployment_spec [OF assms(1-3)] by blast
  note rd = read_deployment [OF assms(1) assms(4) [unfolded redis_GetDeployment_def]]
  have "if ?k' = ?k then d' = d else deployment_at (keys s) ?k' d'" if "res = Inr d'" for d'
    using rd(2) [OF that] data by (auto simp: deployment_at_def map_le_def dom_def split: if_splits)
  moreover have "\<not> deployment_at (keys s2) ?k' d'" if "res = Inl err" "errors_is err ErrNotFound" for err d'
    using rd(3) [of d'] that by auto
  ultimately show ?thesis by blast
qed

lemma save_event_spec:
  assumes "rs_client r = c" and "offset_ok (gt_off (ev_Timestamp e))" and "raw_ok num (ev_RawData e)"
    and "redis_SaveEvent num r ctx (Some e) s = (Inr (), s1)"
  shows "\<exists>data ks. unmarshal_struct stored_event_fields data zero_stored_event = Inr (clean_event num e) \<and>
    ks \<subseteq>\<^sub>m keys s \<and> keys s1 \<subseteq>\<^sub>m fold apply_cmd (event_commands (rs_ttl r) e data) ks"
proof -
  obtain data where data: "marshal (stored_event_json num e) = Inr data"
      "rd_Exec c ctx (event_commands (rs_ttl r) e data) s = (None, s1)"
    using assms(1,4) by (auto simp: redis_SaveEvent_def split: sum.splits prod.splits option.splits)
  from exec_keys [OF data(2)] stored_event_round_trip [OF data(1) assms(2,3)] show ?thesis by blast
qed

lemma chain_spec:
  assumes "rs_client r = c" and "offset_ok (gt_off (ev_Timestamp e))" and "raw_ok num (ev_RawData e)"
    and "redis_SaveEvent num r ctx (Some e) s = (Inr (), s1)" and "ev_ChainID e \<noteq> []"
    and "redis_GetEventsByChain r ctx' (ev_ChainID e) s1 = (Inr es, s2)"
  shows "sorted (map event_key es) \<and> (\<forall>x \<in> set es. \<exists>i. event_at (keys s1) i x) \<and>
    (keys s2 (eventKeyPrefix @ ev_ID e) \<noteq> None \<and> keys s2 (chainKeyPrefix @ ev_ChainID e) \<noteq> None \<and>
     (\<forall>v. keys s (chainKeyPrefix @ ev_ChainID e) \<noteq> Some (RStr v)) \<longrightarrow> clean_event num e \<in> set es)"
proof -
  let ?ck = "chainKeyPrefix @ ev_ChainID e" and ?ek = "eventKeyPrefix @ ev_ID e"
  obtain data ks where data: "unmarshal_struct stored_event_fields data zero_stored_event = Inr (clean_event num e)"
    "keys s1 \<subseteq>\<^sub>m fold apply_cmd (event_commands (rs_ttl r) e data) ks" and ks: "ks \<subseteq>\<^sub>m keys s"
    using save_event_spec [OF assms(1-4)] by blast
  obtain ids t where m: "rd_SMembers c ctx' ?ck s1 = (Inr ids, t)"
    and rd: "\<exists>xs. read_events r ctx' ids [] t = (Inr xs, s2) \<and> es = sortEventsNewestFirst xs"
    using assms(1,5,6) by (auto simp: redis_GetEventsByChain_def split: sum.splits prod.splits)
  then obtain xs where xs: "read_events r ctx' ids [] t = (Inr xs, s2)" "es = sortEventsNewestFirst xs" by blast
  note sp = read_events_spec [OF assms(1) xs(1)]
  note a1 = members_ages [OF m]
  have a2: "ages s1 s2" using a1 sp by (blast intro: ages_trans)
  have "sorted (map event_key es)" unfolding xs(2) by (rule sortEvents_sorted)
  moreover have "\<forall>x \<in> set es. \<exists>i. event_at (keys s1) i x"
    using sp xs(2) event_at_ages [OF a1] by (metis empty_iff list.set(1) sortEvents_set)
  moreover have "clean_event num e \<in> set es"
    if live: "keys s2 ?ek \<noteq> None" "keys s2 ?ck \<noteq> None" "\<forall>v. keys s ?ck \<noteq> Some (RStr v)"
  proof -
    have ne: "?ck \<noteq> ?ek" by (simp add: chainKeyPrefix_def eventKeyPrefix_def)
    have "\<forall>v. ks ?ck \<noteq> Some (RStr v)"
    proof (rule ccontr)
      assume "\<not> (\<forall>v. ks ?ck \<noteq> Some (RStr v))"
      then obtain v where "ks ?ck = Some (RStr v)" by blast
      with ks have "keys s ?ck = Some (RStr v)" by (simp add: map_le_def dom_def)
      with live(3) show False by blast
    qed
    then have at: "fold apply_cmd (event_commands (rs_ttl r) e data) ks ?ek = Some (RStr data)"
      "\<exists>ms. fold apply_cmd (event_commands (rs_ttl r) e data) ks ?ck = Some (RSet ms) \<and> ev_ID e \<in> set ms"
      using assms(5) ne
      by (auto simp: event_commands_def Let_def split: option.splits rvalue.splits)
    obtain v w where vw: "keys s2 ?ek = Some v" "keys s2 ?ck = Some w" using live by auto
    with ages_live [OF a2] have s1: "keys s1 ?ek = Some v" "keys s1 ?ck = Some w" by auto
    have "fold apply_cmd (event_commands (rs_ttl r) e data) ks ?ek = Some v"
      "fold apply_cmd (event_commands (rs_ttl r) e data) ks ?ck = Some w"
      using map_leD [OF data(2) s1(1)] map_leD [OF data(2) s1(2)] .
    with at have v: "v = RStr data" and ms: "\<exists>ms. w = RSet ms \<and> ev_ID e \<in> set ms" by simp_all
    have ev: "event_at (keys s2) (ev_ID e) (clean_event num e)"
      using vw(1) v data(1) by (simp add: event_at_def)
    have "keys t ?ck = Some w" using sp vw(2) ages_live by blast
    with members_found [OF m] s1(2) ms have "ev_ID e \<in> set ids" by auto
    with sp ev have "clean_event num e \<in> set xs" by blast
    with xs(2) show ?thesis by simp
  qed
  ultimately show ?thesis by blast
qed

end

end
