(* ===== verification/Redis_Keyspace.thy ===== *)
theory Redis_Keyspace
  imports Redis_Facts Memory_Storage
begin

text \<open>
  A concrete Redis keyspace with expiry, which meets the contract of a server, and the properties
  of the backend over every server that meets it.
\<close>

section \<open>A keyspace with expiry\<close>

text \<open>
  The live part of a Redis database: a clock that every command moves on, and entries with an
  optional expiry. \<open>SCAN\<close> walks the entries by position, expired ones included, so that a cursor
  stays good while keys expire.
\<close>

record keyspace =
  ks_now :: int
  ks_tick :: nat
  ks_entries :: "(string \<times> rvalue \<times> int option) list"

definition entry_live :: "int \<Rightarrow> int option \<Rightarrow> bool" where
  "entry_live now deadline = (case deadline of None \<Rightarrow> True | Some t \<Rightarrow> now < t)"

definition live_keys :: "keyspace \<Rightarrow> string \<Rightarrow> rvalue option" where
  "live_keys db k =
     (case map_of (ks_entries db) k of
        None \<Rightarrow> None
      | Some (v, deadline) \<Rightarrow> if entry_live (ks_now db) deadline then Some v else None)"

definition tick :: "keyspace \<Rightarrow> keyspace" where
  "tick db = db\<lparr>ks_now := ks_now db + int (ks_tick db)\<rparr>"

definition ks_put :: "string \<Rightarrow> rvalue \<Rightarrow> int option \<Rightarrow> keyspace \<Rightarrow> keyspace" where
  "ks_put k v deadline db = db\<lparr>ks_entries := AList.update k (v, deadline) (ks_entries db)\<rparr>"

definition deadline_in :: "duration \<Rightarrow> keyspace \<Rightarrow> int option" where
  "deadline_in ttl db = (if 0 < ttl then Some (ks_now db + ttl) else None)"

fun ks_cmd :: "redis_cmd \<Rightarrow> keyspace \<Rightarrow> keyspace" where
  "ks_cmd (CSet k v ttl) db = ks_put k (RStr v) (deadline_in ttl db) db"
| "ks_cmd (CSAdd k m) db =
     (case (live_keys db k, map_of (ks_entries db) k) of
        (Some (RSet ms), Some (_, deadline)) \<Rightarrow> ks_put k (RSet (List.insert m ms)) deadline db
      | (Some (RStr v), _) \<Rightarrow> db
      | _ \<Rightarrow> ks_put k (RSet [m]) None db)"
| "ks_cmd (CExpire k ttl) db =
     (case live_keys db k of Some v \<Rightarrow> ks_put k v (Some (ks_now db + ttl)) db | None \<Rightarrow> db)"

definition glob :: "string \<Rightarrow> string \<Rightarrow> bool" where
  "glob pattern k =
     (if pattern \<noteq> [] \<and> last pattern = CHR ''*'' then has_prefix (butlast pattern) k else pattern = k)"

definition ks_scan :: "nat \<Rightarrow> string \<Rightarrow> nat \<Rightarrow> keyspace \<Rightarrow> string list \<times> nat" where
  "ks_scan cursor pattern n db =
     (map fst (filter (\<lambda>(k, v, deadline). entry_live (ks_now db) deadline \<and> glob pattern k)
        (take n (drop cursor (ks_entries db)))),
      if cursor + n < length (ks_entries db) then cursor + n else 0)"

definition alive :: "ctx \<Rightarrow> ('a \<times> keyspace) \<Rightarrow> (gerror \<Rightarrow> 'a) \<Rightarrow> keyspace \<Rightarrow> 'a \<times> keyspace" where
  "alive ctx ok err db = (case ctx of Some t \<Rightarrow> (err (ErrCtx t), db) | None \<Rightarrow> ok)"

definition keyspace_client :: "keyspace redis_client" where
  "keyspace_client =
     \<lparr>rd_Set = (\<lambda>ctx k v ttl db. alive ctx (None, ks_cmd (CSet k v ttl) (tick db)) Some db),
      rd_Get = (\<lambda>ctx k db. alive ctx
        (case live_keys (tick db) k of
           Some (RStr v) \<Rightarrow> Inr v
         | Some (RSet ms) \<Rightarrow> Inl (ErrLib ''WRONGTYPE'')
         | None \<Rightarrow> Inl redis_Nil, tick db) Inl db),
      rd_Scan = (\<lambda>ctx cursor pattern n db.
        alive ctx (Inr (ks_scan cursor pattern n (tick db)), tick db) Inl db),
      rd_SMembers = (\<lambda>ctx k db. alive ctx
        (case live_keys (tick db) k of
           Some (RSet ms) \<Rightarrow> Inr ms
         | Some (RStr v) \<Rightarrow> Inl (ErrLib ''WRONGTYPE'')
         | None \<Rightarrow> Inr [], tick db) Inl db),
      rd_Exec = (\<lambda>ctx cmds db. alive ctx (None, fold ks_cmd cmds (tick db)) Some db),
      rd_Ping = (\<lambda>ctx db. alive ctx (None, tick db) Some db),
      rd_Close = (\<lambda>db. (None, db))\<rparr>"

definition ks_ages :: "keyspace \<Rightarrow> keyspace \<Rightarrow> bool" where
  "ks_ages db db' \<longleftrightarrow> ks_entries db' = ks_entries db \<and> ks_now db \<le> ks_now db'"

definition ks_rank :: "keyspace \<Rightarrow> nat \<Rightarrow> nat" where
  "ks_rank db cursor = length (ks_entries db) - cursor"

lemma ages_tick [simp]: "ks_ages db (tick db)" "ks_ages db db"
  by (simp_all add: ks_ages_def tick_def)

lemma ks_ages_live: "ks_ages db db' \<Longrightarrow> live_keys db' \<subseteq>\<^sub>m live_keys db"
  by (auto simp: ks_ages_def live_keys_def map_le_def dom_def entry_live_def split: option.splits if_splits)

lemma live_put:
  "live_keys (ks_put k v deadline db) =
     (if entry_live (ks_now db) deadline then (live_keys db)(k \<mapsto> v) else (live_keys db)(k := None))"
  by (auto simp: live_keys_def ks_put_def fun_eq_iff split: option.splits)

lemma deadline_live [simp]: "entry_live (ks_now db) (deadline_in ttl db)"
  by (simp add: entry_live_def deadline_in_def)

lemma ks_cmd_apply:
  "(\<And>k ttl. cmd = CExpire k ttl \<Longrightarrow> 0 < ttl) \<Longrightarrow> live_keys (ks_cmd cmd db) = apply_cmd cmd (live_keys db)"
proof (cases cmd)
  case (CSAdd k m)
  then show ?thesis
    by (auto simp: live_put live_keys_def [of db] entry_live_def [of _ None] fun_eq_iff
        split: option.splits rvalue.splits if_splits)
next
  case (CExpire k ttl)
  moreover assume "\<And>k ttl. cmd = CExpire k ttl \<Longrightarrow> 0 < ttl"
  ultimately show ?thesis
    by (auto simp: live_put entry_live_def fun_eq_iff split: option.splits)
qed (simp add: live_put)

lemma ks_cmds_apply:
  "(\<And>k ttl. CExpire k ttl \<in> set cmds \<Longrightarrow> 0 < ttl) \<Longrightarrow>
     live_keys (fold ks_cmd cmds db) = fold apply_cmd cmds (live_keys db)"
proof (induction cmds arbitrary: db)
  case (Cons cmd cmds)
  have "live_keys (ks_cmd cmd db) = apply_cmd cmd (live_keys db)"
    by (rule ks_cmd_apply) (use Cons.prems in auto)
  moreover have "live_keys (fold ks_cmd cmds (ks_cmd cmd db)) =
      fold apply_cmd cmds (live_keys (ks_cmd cmd db))"
    by (rule Cons.IH) (use Cons.prems in auto)
  ultimately show ?case by simp
qed simp

section \<open>The keyspace meets the contract\<close>

lemma alive_Inr: "alive ctx (r, db') err db = (res, s) \<Longrightarrow> ctx = None \<and> res = r \<and> s = db' \<or>
    (\<exists>t. ctx = Some t \<and> res = err (ErrCtx t) \<and> s = db)"
  by (auto simp: alive_def split: option.splits)

lemma ks_ages_trans: "ks_ages db db' \<Longrightarrow> ks_ages db' db'' \<Longrightarrow> ks_ages db db''"
  by (auto simp: ks_ages_def)

lemma live_keys_mem: "live_keys db k \<noteq> None \<Longrightarrow>
    \<exists>v deadline. (k, v, deadline) \<in> set (ks_entries db) \<and> entry_live (ks_now db) deadline"
  by (fastforce simp: live_keys_def split: option.splits if_splits dest: map_of_SomeD)

lemma entry_live_mono: "now \<le> now' \<Longrightarrow> entry_live now' deadline \<Longrightarrow> entry_live now deadline"
  by (auto simp: entry_live_def split: option.splits)

lemma glob_prefix: "glob (pre @ ''*'') k = has_prefix pre k"
  by (simp add: glob_def butlast_append)

text \<open>One page holds every live matching entry of its stretch of positions.\<close>

lemma ks_scan_page:
  "(k, v, deadline) \<in> set (take n (drop cursor (ks_entries db))) \<Longrightarrow> entry_live (ks_now db) deadline \<Longrightarrow>
     has_prefix pre k \<Longrightarrow> k \<in> set (fst (ks_scan cursor (pre @ ''*'') n db))"
  by (force simp: ks_scan_def glob_prefix)

lemma ks_scan_next:
  assumes "snd (ks_scan cursor pattern n db) \<noteq> 0"
  shows "snd (ks_scan cursor pattern n db) = cursor + n" and "cursor + n < length (ks_entries db)"
  using assms by (auto simp: ks_scan_def split: if_splits)

lemma ks_scan_last:
  "snd (ks_scan cursor pattern n db) = 0 \<Longrightarrow> 0 < n \<Longrightarrow> length (ks_entries db) \<le> cursor + n"
  by (auto simp: ks_scan_def split: if_splits)

lemma keyspace_scan:
  "rd_Scan keyspace_client ctx cursor pattern n db = (Inr (ks, nxt), db') \<Longrightarrow>
     db' = tick db \<and> ks_scan cursor pattern n db' = (ks, nxt)"
  by (auto simp: keyspace_client_def dest: alive_Inr)

lemma keyspace_run_ages: "scan_run keyspace_client ks_ages ctx pattern cursor db ks db' \<Longrightarrow> ks_ages db db'"
proof (induction cursor db ks db' rule: scan_run.induct)
  case (last_page cursor db ks db1 db2)
  with keyspace_scan [OF last_page(1)] ages_tick(1) show ?case by (metis ks_ages_trans)
next
  case (more_pages cursor db ks nxt db1 db2 ks' db3)
  with keyspace_scan [OF more_pages(1)] ages_tick(1) show ?case by (metis ks_ages_trans)
qed

lemma scan_run_complete:
  assumes "scan_run keyspace_client ks_ages ctx (pre @ ''*'') cursor db ks db'"
    and "(k, v, deadline) \<in> set (drop cursor (ks_entries db))" and "entry_live (ks_now db') deadline"
    and "has_prefix pre k"
  shows "k \<in> set ks"
  using assms
proof (induction cursor db ks db' rule: scan_run.induct)
  case (last_page cursor db ks db1 db2)
  from keyspace_scan [OF last_page(1)] have p: "db1 = tick db" "ks_scan cursor (pre @ ''*'') scanBatchSize db1 = (ks, 0)"
    by blast+
  have "length (ks_entries db1) \<le> cursor + scanBatchSize"
    using ks_scan_last [of cursor "pre @ ''*''" scanBatchSize db1] p(2) by (simp add: scanBatchSize_def)
  then have "(k, v, deadline) \<in> set (take scanBatchSize (drop cursor (ks_entries db1)))"
    using last_page(3) p(1) by (simp add: tick_def)
  moreover have "entry_live (ks_now db1) deadline"
    using last_page(2,4) entry_live_mono by (auto simp: ks_ages_def)
  ultimately have "k \<in> set (fst (ks_scan cursor (pre @ ''*'') scanBatchSize db1))"
    using last_page(5) by (rule ks_scan_page)
  with p(2) show ?case by simp
next
  case (more_pages cursor db ks nxt db1 db2 ks' db3)
  from keyspace_scan [OF more_pages(1)] have p: "db1 = tick db" "ks_scan cursor (pre @ ''*'') scanBatchSize db1 = (ks, nxt)"
    by blast+
  have nxt: "nxt = cursor + scanBatchSize"
    using ks_scan_next(1) [of cursor "pre @ ''*''" scanBatchSize db1] p(2) more_pages(2) by simp
  have a: "ks_ages db db2" using ks_ages_trans [OF ages_tick(1)] more_pages(3) p(1) by simp
  show ?case
  proof (cases "(k, v, deadline) \<in> set (drop nxt (ks_entries db2))")
    case True
    with more_pages.IH [OF True more_pages.prems(2,3)] show ?thesis by simp
  next
    case False
    have e: "ks_entries db1 = ks_entries db" "ks_entries db2 = ks_entries db"
      using a p(1) by (simp_all add: ks_ages_def tick_def)
    have "drop cursor (ks_entries db) =
        take scanBatchSize (drop cursor (ks_entries db)) @ drop nxt (ks_entries db)"
      by (metis append_take_drop_id drop_drop add.commute nxt)
    with more_pages.prems(1) False e have m: "(k, v, deadline) \<in> set (take scanBatchSize (drop cursor (ks_entries db1)))"
      by (metis Un_iff set_append)
    have a3: "ks_ages db2 db3" using more_pages(4) by (rule keyspace_run_ages)
    then have "entry_live (ks_now db1) deadline"
      using more_pages(3) more_pages.prems(2) entry_live_mono by (auto simp: ks_ages_def)
    from ks_scan_page [OF m this more_pages.prems(3)] p(2) show ?thesis by simp
  qed
qed

interpretation keyspace: redis_server keyspace_client live_keys ks_ages ks_rank
proof
  fix s s' :: keyspace and ctx k v r err
  show "ks_ages s s' \<Longrightarrow> live_keys s' \<subseteq>\<^sub>m live_keys s" by (rule ks_ages_live)
  show "ks_ages s s" by simp
  show "ks_ages s s' \<Longrightarrow> ks_ages s' s'' \<Longrightarrow> ks_ages s s''" for s'' by (rule ks_ages_trans)
  show "ks_ages s s' \<Longrightarrow> ks_rank s' n \<le> ks_rank s n" for n by (simp add: ks_ages_def ks_rank_def)
  show "rd_Get keyspace_client ctx k s = (r, s') \<Longrightarrow> ks_ages s s'"
    by (auto simp: keyspace_client_def dest: alive_Inr)
  show "rd_Get keyspace_client ctx k s = (Inr v, s') \<Longrightarrow> live_keys s k = Some (RStr v)"
    by (auto simp: keyspace_client_def dest!: alive_Inr split: option.splits rvalue.splits
        intro: map_leD [OF ks_ages_live [OF ages_tick(1)]])
  show "rd_Get keyspace_client ctx k s = (Inl err, s') \<Longrightarrow> errors_is err redis_Nil \<Longrightarrow> live_keys s' k = None"
    by (auto simp: keyspace_client_def redis_Nil_def dest!: alive_Inr split: option.splits rvalue.splits)
  show "rd_Get keyspace_client ctx k s = (Inl err, s') \<Longrightarrow> \<not> errors_is err ErrNotFound"
    by (auto simp: keyspace_client_def redis_Nil_def dest!: alive_Inr split: option.splits rvalue.splits)
next
  fix s s' :: keyspace and ctx k v ttl
  assume "rd_Set keyspace_client ctx k v ttl s = (None, s')"
  then show "live_keys s' \<subseteq>\<^sub>m (live_keys s)(k \<mapsto> RStr v)"
    using ks_ages_live [OF ages_tick(1), of s]
    by (auto simp: keyspace_client_def live_put dest!: alive_Inr)
next
  fix s s' :: keyspace and ctx ttl e data
  let ?cmds = "event_commands ttl e data"
  assume "rd_Exec keyspace_client ctx ?cmds s = (None, s')"
  then have s': "s' = fold ks_cmd ?cmds (tick s)"
    by (auto simp: keyspace_client_def dest: alive_Inr)
  have "live_keys s' = fold apply_cmd ?cmds (live_keys (tick s))"
    unfolding s' by (rule ks_cmds_apply) (auto simp: event_commands_def Let_def split: if_splits)
  then show "\<exists>ks. ks \<subseteq>\<^sub>m live_keys s \<and> live_keys s' \<subseteq>\<^sub>m fold apply_cmd ?cmds ks"
    using ks_ages_live [OF ages_tick(1), of s] by auto
next
  fix s s' :: keyspace and ctx k rm ms
  show "rd_SMembers keyspace_client ctx k s = (rm, s') \<Longrightarrow> ks_ages s s'"
    by (auto simp: keyspace_client_def dest: alive_Inr)
  show "rd_SMembers keyspace_client ctx k s = (Inr ms, s') \<Longrightarrow>
      live_keys s k = Some (RSet ms) \<or> ms = [] \<and> live_keys s' k = None"
    by (auto simp: keyspace_client_def dest!: alive_Inr split: option.splits rvalue.splits
        intro: map_leD [OF ks_ages_live [OF ages_tick(1)]])
next
  fix s s' :: keyspace and ctx cursor pattern n rp ks nxt err
  show "rd_Scan keyspace_client ctx cursor pattern n s = (rp, s') \<Longrightarrow> ks_ages s s'"
    by (auto simp: keyspace_client_def dest: alive_Inr)
  show "rd_Scan keyspace_client ctx cursor pattern n s = (Inl err, s') \<Longrightarrow> \<not> errors_is err ErrNotFound"
    by (auto simp: keyspace_client_def dest!: alive_Inr)
  show "rd_Scan keyspace_client ctx cursor pattern scanBatchSize s = (Inr (ks, nxt), s') \<Longrightarrow> nxt \<noteq> 0 \<Longrightarrow>
      ks_rank s' nxt < ks_rank s cursor"
    using keyspace_scan [of ctx cursor pattern scanBatchSize s ks nxt s']
    by (auto simp: ks_rank_def ks_scan_def tick_def scanBatchSize_def split: if_splits)
next
  fix s s' :: keyspace and ctx pre ks k
  assume run: "scan_run keyspace_client ks_ages ctx (pre @ ''*'') 0 s ks s'"
    and k: "live_keys s' k \<noteq> None" "has_prefix pre k"
  from keyspace_run_ages [OF run] have e: "ks_entries s' = ks_entries s" by (simp add: ks_ages_def)
  from live_keys_mem [OF k(1)] e obtain v deadline where
    "(k, v, deadline) \<in> set (drop 0 (ks_entries s))" "entry_live (ks_now s') deadline" by auto
  from scan_run_complete [OF run this k(2)] show "k \<in> set ks" .
qed

section \<open>Properties of the backend\<close>

text \<open>
  A client of a keyspace: one command takes no time, values are kept for the given time.
\<close>

definition keyspace_storage :: "duration \<Rightarrow> keyspace RedisStorage" where
  "keyspace_storage ttl = \<lparr>rs_client = keyspace_client, rs_ttl = ttl\<rparr>"

lemma keyspace_storage_client [simp]: "rs_client (keyspace_storage ttl) = keyspace_client"
  by (simp add: keyspace_storage_def)

definition empty_keyspace :: keyspace where
  "empty_keyspace = \<lparr>ks_now = 0, ks_tick = 1, ks_entries = []\<rparr>"

lemma keyspace_save:
  assumes "valid_deployment d"
  obtains s1 data where "redis_SaveDeployment (keyspace_storage 0) None (Some d) s = (Inr (), s1)"
    and "unmarshal_struct deployment_fields data zero_deployment = Inr d"
    and "\<And>db. ks_entries db = ks_entries s1 \<Longrightarrow>
      live_keys db (redisDeploymentKey (dep_Service d) (dep_Environment d)) = Some (RStr data)"
proof -
  let ?k = "redisDeploymentKey (dep_Service d) (dep_Environment d)"
  obtain data where data: "marshal (deployment_json d) = Inr data"
    "unmarshal_struct deployment_fields data zero_deployment = Inr d"
    by (rule valid_deployment_marshals [OF assms])
  let ?s1 = "ks_put ?k (RStr data) None (tick s)"
  have "redis_SaveDeployment (keyspace_storage 0) None (Some d) s = (Inr (), ?s1)"
    using data(1) by (simp add: redis_SaveDeployment_def keyspace_storage_def keyspace_client_def
        alive_def deadline_in_def)
  moreover have "live_keys db ?k = Some (RStr data)" if "ks_entries db = ks_entries ?s1" for db
    by (simp add: live_keys_def that ks_put_def entry_live_def)
  ultimately show ?thesis using data(2) that by blast
qed

lemma keyspace_read:
  assumes "live_keys (tick s) k = Some (RStr data)"
    and "unmarshal_struct deployment_fields data zero_deployment = Inr d"
  shows "readDeployment (keyspace_storage ttl) None k s = (Inr d, tick s)"
  using assms by (simp add: readDeployment_def keyspace_storage_def keyspace_client_def alive_def)

lemma keyspace_save_get:
  assumes "valid_deployment d"
    and "redisDeploymentKey svc env = redisDeploymentKey (dep_Service d) (dep_Environment d)"
  shows "\<exists>s1. redis_SaveDeployment (keyspace_storage 0) None (Some d) s = (Inr (), s1) \<and>
    redis_GetDeployment (keyspace_storage 0) None svc env s1 = (Inr d, tick s1)"
proof -
  obtain s1 data where "redis_SaveDeployment (keyspace_storage 0) None (Some d) s = (Inr (), s1)"
    and "unmarshal_struct deployment_fields data zero_deployment = Inr d"
    and "\<And>db. ks_entries db = ks_entries s1 \<Longrightarrow>
      live_keys db (redisDeploymentKey (dep_Service d) (dep_Environment d)) = Some (RStr data)"
    using keyspace_save [OF assms(1)] by blast
  moreover from this(3) have "live_keys (tick s1) (redisDeploymentKey svc env) = Some (RStr data)"
    by (simp add: assms(2) tick_def)
  ultimately show ?thesis
    by (metis keyspace_read redis_GetDeployment_def)
qed

text \<open>Where commands take no time, the keyspace is the map of its live keys.\<close>

definition still_keyspace :: keyspace where
  "still_keyspace = \<lparr>ks_now = 0, ks_tick = 0, ks_entries = []\<rparr>"

lemma tick_still: "ks_tick db = 0 \<Longrightarrow> tick db = db"
  by (simp add: tick_def)

lemma ks_tick_put [simp]: "ks_tick (ks_put k v deadline db) = ks_tick db"
  by (simp add: ks_put_def)

lemma ks_tick_cmds [simp]: "ks_tick (fold ks_cmd cmds db) = ks_tick db"
proof -
  have "ks_tick (ks_cmd cmd db) = ks_tick db" for cmd db
    by (cases cmd) (auto split: option.splits rvalue.splits)
  then show ?thesis by (induction cmds arbitrary: db) simp_all
qed

lemma live_still [simp]: "live_keys still_keyspace = Map.empty" "ks_tick still_keyspace = 0"
  by (simp_all add: still_keyspace_def live_keys_def fun_eq_iff)

definition event_marshals :: "(string \<Rightarrow> string) \<Rightarrow> stored_event \<Rightarrow> bool" where
  "event_marshals num e \<longleftrightarrow>
     time_marshals (ev_Timestamp e) \<and> offset_ok (gt_off (ev_Timestamp e)) \<and> raw_ok num (ev_RawData e)"

lemma keyspace_save_event:
  assumes "event_marshals num e" and "ks_tick s = 0"
  obtains data s1 where "redis_SaveEvent num (keyspace_storage 0) None (Some e) s = (Inr (), s1)"
    and "unmarshal_struct stored_event_fields data zero_stored_event = Inr (clean_event num e)"
    and "live_keys s1 = fold apply_cmd (event_commands 0 e data) (live_keys s)" and "ks_tick s1 = 0"
proof -
  obtain data where data: "marshal (stored_event_json num e) = Inr data"
    using assms(1) by (simp add: event_marshals_def marshal_def stored_event_json_def marshal_time_def)
  let ?s1 = "fold ks_cmd (event_commands 0 e data) s"
  have "redis_SaveEvent num (keyspace_storage 0) None (Some e) s = (Inr (), ?s1)"
    using data assms(2) by (simp add: redis_SaveEvent_def keyspace_storage_def keyspace_client_def
        alive_def tick_still)
  moreover have "unmarshal_struct stored_event_fields data zero_stored_event = Inr (clean_event num e)"
    using assms(1) by (intro stored_event_round_trip [OF data]) (simp_all add: event_marshals_def)
  moreover have "live_keys ?s1 = fold apply_cmd (event_commands 0 e data) (live_keys s)"
    by (rule ks_cmds_apply) (auto simp: event_commands_def Let_def split: if_splits)
  ultimately show ?thesis using that assms(2) by simp
qed

lemma keyspace_chain:
  assumes "live_keys s (chainKeyPrefix @ c) = Some (RSet [i])" and "c \<noteq> []" and "ks_tick s = 0"
    and "live_keys s (eventKeyPrefix @ i) = Some (RStr data)"
    and "unmarshal_struct stored_event_fields data zero_stored_event = Inr e"
  shows "redis_GetEventsByChain (keyspace_storage 0) None c s = (Inr [e], s)"
proof -
  have "redis_GetEvent (keyspace_storage 0) None i s = (Inr e, s)"
    using assms(3-) by (simp add: redis_GetEvent_def keyspace_storage_def keyspace_client_def alive_def tick_still)
  moreover have "rd_SMembers (rs_client (keyspace_storage 0)) None (chainKeyPrefix @ c) s = (Inr [i], s)"
    using assms(1,3) by (simp add: keyspace_client_def alive_def tick_still)
  moreover have "sortEventsNewestFirst [e] = [e]" by (simp add: sortEventsNewestFirst_def)
  ultimately show ?thesis
    using assms(2) by (simp add: redis_GetEventsByChain_def)
qed

text \<open>
  A member of the set of a chain stays there when its event is saved again with another chain id,
  and is then answered for both chains; the memory backend answers it for the new one only.
\<close>

theorem redis_stale_chain_member:
  assumes "event_marshals num e" and "event_marshals num e'" and "ev_ID e' = ev_ID e"
    and "ev_ChainID e \<noteq> []" and "ev_ChainID e' \<noteq> []" and "ev_ChainID e' \<noteq> ev_ChainID e"
  shows "\<exists>s1 s2. redis_SaveEvent num (keyspace_storage 0) None (Some e) still_keyspace = (Inr (), s1) \<and>
    redis_SaveEvent num (keyspace_storage 0) None (Some e') s1 = (Inr (), s2) \<and>
    redis_GetEventsByChain (keyspace_storage 0) None (ev_ChainID e) s2 = (Inr [clean_event num e'], s2)"
proof -
  obtain d s1 where a: "redis_SaveEvent num (keyspace_storage 0) None (Some e) still_keyspace = (Inr (), s1)"
    "live_keys s1 = fold apply_cmd (event_commands 0 e d) (live_keys still_keyspace)" "ks_tick s1 = 0"
    by (rule keyspace_save_event [OF assms(1) live_still(2)])
  obtain d' s2 where b: "redis_SaveEvent num (keyspace_storage 0) None (Some e') s1 = (Inr (), s2)"
    "unmarshal_struct stored_event_fields d' zero_stored_event = Inr (clean_event num e')"
    "live_keys s2 = fold apply_cmd (event_commands 0 e' d') (live_keys s1)" "ks_tick s2 = 0"
    by (rule keyspace_save_event [OF assms(2) a(3)])
  have ne: "chainKeyPrefix @ x \<noteq> eventKeyPrefix @ y" for x y
    by (simp add: chainKeyPrefix_def eventKeyPrefix_def)
  have "live_keys s2 (chainKeyPrefix @ ev_ChainID e) = Some (RSet [ev_ID e])"
    "live_keys s2 (eventKeyPrefix @ ev_ID e) = Some (RStr d')"
    using assms(3-6) ne ne [symmetric] a(2) b(3)
    by (simp_all add: event_commands_def Let_def)
  from keyspace_chain [OF this(1) assms(4) b(4) this(2) b(2)] a(1) b(1) show ?thesis by blast
qed

text \<open>
  Keys are kept apart for services without a colon and names without a percent sign; a colon in a
  service, or a literal \<open>%2A\<close>, makes two pairs of names share a key.
\<close>

lemma escapeKeyPart_inj:
  "CHR ''%'' \<notin> set a \<Longrightarrow> CHR ''%'' \<notin> set b \<Longrightarrow> escapeKeyPart a = escapeKeyPart b \<longleftrightarrow> a = b"
proof (induction a arbitrary: b)
  case Nil
  then show ?case by (cases b) (auto simp: escapeKeyPart_def split: if_splits)
next
  case (Cons x a)
  then show ?case by (cases b) (auto simp: escapeKeyPart_def split: if_splits)
qed

lemma escapeKeyPart_colon: "CHR '':'' \<in> set (escapeKeyPart a) \<longleftrightarrow> CHR '':'' \<in> set a"
  by (induction a) (auto simp: escapeKeyPart_def)

theorem redisDeploymentKey_inj:
  assumes "set svc \<union> set svc' \<subseteq> - {CHR ''%'', CHR '':''}" and "set env \<union> set env' \<subseteq> - {CHR ''%''}"
  shows "redisDeploymentKey svc env = redisDeploymentKey svc' env' \<longleftrightarrow> svc = svc' \<and> env = env'"
proof -
  have "CHR '':'' \<notin> set (escapeKeyPart svc)" "CHR '':'' \<notin> set (escapeKeyPart svc')"
    using assms(1) by (auto simp: escapeKeyPart_colon)
  then have "redisDeploymentKey svc env = redisDeploymentKey svc' env' \<longleftrightarrow>
      escapeKeyPart svc = escapeKeyPart svc' \<and> escapeKeyPart env = escapeKeyPart env'"
    unfolding redisDeploymentKey_def using cut_append [of "CHR '':''"]
    by (metis append_Cons append_Nil prod.inject same_append_eq)
  moreover have "escapeKeyPart svc = escapeKeyPart svc' \<longleftrightarrow> svc = svc'"
    "escapeKeyPart env = escapeKeyPart env' \<longleftrightarrow> env = env'"
    using assms by (intro escapeKeyPart_inj; auto)+
  ultimately show ?thesis by simp
qed

theorem redis_key_collision:
  assumes "valid_deployment d" and "dep_Service d = ''a''" and "dep_Environment d = ''b:c''"
  shows "\<exists>s1 s2. redis_SaveDeployment (keyspace_storage 0) None (Some d) s = (Inr (), s1) \<and>
    redis_GetDeployment (keyspace_storage 0) None ''a:b'' ''c'' s1 = (Inr d, s2)"
proof -
  have "redisDeploymentKey ''a:b'' ''c'' = redisDeploymentKey (dep_Service d) (dep_Environment d)"
    by (simp add: assms redisDeploymentKey_def escapeKeyPart_def)
  from keyspace_save_get [OF assms(1) this] show ?thesis by blast
qed

text \<open>
  C31. The latest deployment over Redis: the iteration over the keys ends, and unless the server
  fails the answer is a stored deployment of the service that is at least as new as every
  deployment of the service that is live until the end; not-found is answered only when there is
  none. Entries may expire between any two commands.
\<close>
theorem redis_latest_newest:
  assumes "redis_server c keys ages rank" and "rs_client r = c"
  shows "\<exists>res s'. redis_GetLatestDeployment r ctx svc s = Some (res, s') \<and> ages s s' \<and>
    (case res of
       Inr d \<Rightarrow> dep_Service d = svc \<and> (\<exists>k. deployment_at (keys s) k d) \<and>
         (\<forall>env d'. deployment_at (keys s') (redisDeploymentKey svc env) d' \<and> dep_Service d' = svc \<longrightarrow>
            deployment_key d \<le> deployment_key d')
     | Inl err \<Rightarrow> errors_is err ErrNotFound \<longrightarrow>
         (\<forall>env d'. deployment_at (keys s') (redisDeploymentKey svc env) d' \<longrightarrow> dep_Service d' \<noteq> svc))"
  using assms by (rule redis_server.latest_spec)

theorem redis_latest_newest_witness:
  "\<exists>res s'. redis_GetLatestDeployment (keyspace_storage 60) None ''api'' empty_keyspace = Some (res, s') \<and>
     ks_ages empty_keyspace s'"
  using redis_latest_newest [OF keyspace.redis_server_axioms keyspace_storage_client, of 60 None "''api''" empty_keyspace]
  by blast

text \<open>
  A listing over Redis ends, and unless the server fails it is a listing of a list that holds
  stored deployments only and every deployment that is live until the end.
\<close>
theorem redis_list_complete:
  assumes "redis_server c keys ages rank" and "rs_client r = c"
  shows "\<exists>res s'. redis_ListDeployments r ctx f s = Some (res, s') \<and> ages s s' \<and>
    (\<forall>ds. res = Inr ds \<longrightarrow> (\<exists>all. (\<forall>d \<in> set all. \<exists>k. deployment_at (keys s) k d) \<and>
      (\<forall>svc env d. deployment_at (keys s') (redisDeploymentKey svc env) d \<longrightarrow> d \<in> set all) \<and>
      listing_of f all ds))"
  using assms by (rule redis_server.list_spec)

theorem redis_list_complete_witness:
  "\<exists>res s'. redis_ListDeployments (keyspace_storage 60) None
     \<lparr>lf_Environment = [], lf_Since = zero_time, lf_Limit = 0\<rparr> empty_keyspace = Some (res, s') \<and>
     ks_ages empty_keyspace s'"
  using redis_list_complete [OF keyspace.redis_server_axioms keyspace_storage_client, of 60 None _ empty_keyspace]
  by blast

text \<open>
  C32. A deployment that was saved over Redis is what its key holds until it expires: a lookup
  under the same key returns it, a lookup under another key what was there before, and not-found
  means that there is nothing.
\<close>
theorem redis_read_your_write:
  assumes "redis_server c keys ages rank" and "rs_client r = c" and "valid_deployment d"
    and "redis_SaveDeployment r ctx (Some d) s = (Inr (), s1)"
    and "redis_GetDeployment r ctx' svc env s1 = (res, s2)"
  shows "(\<forall>d'. res = Inr d' \<longrightarrow>
      (if redisDeploymentKey svc env = redisDeploymentKey (dep_Service d) (dep_Environment d) then d' = d
       else deployment_at (keys s) (redisDeploymentKey svc env) d')) \<and>
    (\<forall>err d'. res = Inl err \<and> errors_is err ErrNotFound \<longrightarrow>
       \<not> deployment_at (keys s2) (redisDeploymentKey svc env) d')"
  using assms by (rule redis_server.read_your_write)

theorem redis_read_your_write_witness:
  "\<exists>s1 s2. redis_SaveDeployment (keyspace_storage 0) None
       (Some (sample_deployment ''api'' ''prod'' ''1'' 10)) empty_keyspace = (Inr (), s1) \<and>
     redis_GetDeployment (keyspace_storage 0) None ''api'' ''prod'' s1 =
       (Inr (sample_deployment ''api'' ''prod'' ''1'' 10), s2)"
proof -
  let ?d = "sample_deployment ''api'' ''prod'' ''1'' 10"
  have v: "valid_deployment ?d" by code_simp
  have k: "redisDeploymentKey ''api'' ''prod'' = redisDeploymentKey (dep_Service ?d) (dep_Environment ?d)"
    by (simp add: sample_deployment_def)
  obtain s1 d' where s: "redis_SaveDeployment (keyspace_storage 0) None (Some ?d) empty_keyspace = (Inr (), s1)"
    and g: "redis_GetDeployment (keyspace_storage 0) None ''api'' ''prod'' s1 = (Inr d', tick s1)"
    using keyspace_save_get [OF v k] by blast
  from redis_read_your_write [OF keyspace.redis_server_axioms keyspace_storage_client v s g] k
  have "d' = ?d" by simp
  with s g show ?thesis by blast
qed

text \<open>
  C33. The members of a chain over Redis: a chain is answered newest first and with stored events
  only, and an event that was saved last is in its chain as long as neither it nor the set of the
  chain expires.
\<close>
theorem redis_chain_members:
  assumes "redis_server c keys ages rank" and "rs_client r = c"
    and "offset_ok (gt_off (ev_Timestamp e))" and "raw_ok num (ev_RawData e)"
    and "redis_SaveEvent num r ctx (Some e) s = (Inr (), s1)" and "ev_ChainID e \<noteq> []"
    and "redis_GetEventsByChain r ctx' (ev_ChainID e) s1 = (Inr es, s2)"
  shows "sorted (map event_key es) \<and> (\<forall>x \<in> set es. \<exists>i. event_at (keys s1) i x) \<and>
    (keys s2 (eventKeyPrefix @ ev_ID e) \<noteq> None \<and> keys s2 (chainKeyPrefix @ ev_ChainID e) \<noteq> None \<and>
     (\<forall>v. keys s (chainKeyPrefix @ ev_ChainID e) \<noteq> Some (RStr v)) \<longrightarrow> clean_event num e \<in> set es)"
  using assms by (rule redis_server.chain_spec)

theorem redis_chain_members_witness:
  "\<exists>s1 e'. redis_SaveEvent (\<lambda>n. n) (keyspace_storage 0) None
       (Some (sample_event ''e1'' ''change.merged'' ''c'' 10 [''e2''])) still_keyspace = (Inr (), s1) \<and>
     redis_GetEventsByChain (keyspace_storage 0) None ''c'' s1 = (Inr [e'], s1) \<and>
     clean_event (\<lambda>n. n) (sample_event ''e1'' ''change.merged'' ''c'' 10 [''e2'']) = e'"
proof -
  let ?e = "sample_event ''e1'' ''change.merged'' ''c'' 10 [''e2'']" and ?num = "\<lambda>n::string. n"
  have ok: "event_marshals ?num ?e" by code_simp
  then have o: "offset_ok (gt_off (ev_Timestamp ?e))" "raw_ok ?num (ev_RawData ?e)"
    by (simp_all add: event_marshals_def)
  have c: "ev_ChainID ?e = ''c''" "ev_ChainID ?e \<noteq> []" "ev_ID ?e = ''e1''" by (simp_all add: sample_event_def)
  obtain d s1 where s: "redis_SaveEvent ?num (keyspace_storage 0) None (Some ?e) still_keyspace = (Inr (), s1)"
    "unmarshal_struct stored_event_fields d zero_stored_event = Inr (clean_event ?num ?e)"
    "live_keys s1 = fold apply_cmd (event_commands 0 ?e d) (live_keys still_keyspace)" "ks_tick s1 = 0"
    by (rule keyspace_save_event [OF ok live_still(2)])
  have k: "live_keys s1 (chainKeyPrefix @ ''c'') = Some (RSet [''e1''])"
    "live_keys s1 (eventKeyPrefix @ ''e1'') = Some (RStr d)"
    using s(3) c by (simp_all add: event_commands_def Let_def chainKeyPrefix_def eventKeyPrefix_def)
  obtain e' where g: "redis_GetEventsByChain (keyspace_storage 0) None ''c'' s1 = (Inr [e'], s1)"
    using keyspace_chain [OF k(1) _ s(4) k(2) s(2)] by auto
  have g': "redis_GetEventsByChain (keyspace_storage 0) None (ev_ChainID ?e) s1 = (Inr [e'], s1)"
    using g by (simp only: c(1))
  have "clean_event ?num ?e \<in> set [e']"
    by (rule redis_chain_members [OF keyspace.redis_server_axioms keyspace_storage_client o s(1) c(2) g',
          THEN conjunct2, THEN conjunct2, THEN mp])
      (simp only: c k live_still(1), simp)
  then have "clean_event ?num ?e = e'" by simp
  with s(1) g show ?thesis by blast
qed

end
