(* ===== verification/Bridge_Config.thy ===== *)
theory Bridge_Config
  imports Go_Format
begin

text \<open>
  The configuration of \<open>internal/config/config.go\<close>: defaults, file and environment, and the
  validation of the result. The YAML library is a parameter, a function from the text and the
  settings it writes into; so are the files and the environment the process finds.
\<close>

section \<open>Settings\<close>

record ServerConfig =
  srv_Host :: string
  srv_Port :: int

record StorageConfig =
  sto_Type :: string
  sto_RedisURL :: string
  sto_RedisTTL :: int

record OTelConfig =
  ot_Enabled :: bool
  ot_Endpoint :: string
  ot_Insecure :: bool
  ot_ServiceName :: string

record LogConfig =
  lc_Level :: string
  lc_Format :: string

record Config =
  cfg_Server :: ServerConfig
  cfg_Storage :: StorageConfig
  cfg_OTel :: OTelConfig
  cfg_Log :: LogConfig

definition StorageMemory :: string where "StorageMemory = ''memory''"
definition StorageRedis :: string where "StorageRedis = ''redis''"
definition LogFormatJSON :: string where "LogFormatJSON = ''json''"
definition LogFormatText :: string where "LogFormatText = ''text''"

lemmas config_names = StorageMemory_def StorageRedis_def LogFormatJSON_def LogFormatText_def

definition Default :: Config where
  "Default =
     \<lparr>cfg_Server = \<lparr>srv_Host = ''0.0.0.0'', srv_Port = 8080\<rparr>,
      cfg_Storage = \<lparr>sto_Type = StorageMemory, sto_RedisURL = [], sto_RedisTTL = 86400\<rparr>,
      cfg_OTel = \<lparr>ot_Enabled = False, ot_Endpoint = ''localhost:4317'', ot_Insecure = True,
        ot_ServiceName = ''cdevents-otel-bridge''\<rparr>,
      cfg_Log = \<lparr>lc_Level = ''info'', lc_Format = LogFormatJSON\<rparr>\<rparr>"

section \<open>The platform\<close>

text \<open>
  What start-up finds: the environment, the files it can read or stat, the YAML decoder and the
  printable code points. A decoder that fails may have written some settings already.
\<close>

record platform =
  Getenv :: "string \<Rightarrow> string"
  ReadFile :: "string \<Rightarrow> string result"
  Stat :: "string \<Rightarrow> gerror option"
  yaml_Unmarshal :: "string \<Rightarrow> Config \<Rightarrow> gerror option \<times> Config"
  printable_runes :: "nat \<Rightarrow> bool"

definition os_ErrNotExist :: gerror where
  "os_ErrNotExist = ErrLib ''file does not exist''"

section \<open>Environment\<close>

text \<open>
  The two shapes of an override: a text that is taken as it is, and one that is parsed first. An
  empty variable is no override.
\<close>

definition env_text ::
  "platform \<Rightarrow> string \<Rightarrow> (string \<Rightarrow> Config \<Rightarrow> Config) \<Rightarrow> Config \<Rightarrow> Config result" where
  "env_text p name set_field cfg =
     (let v = Getenv p name in if v \<noteq> [] then Inr (set_field v cfg) else Inr cfg)"

definition env_parsed ::
  "platform \<Rightarrow> string \<Rightarrow> (string \<Rightarrow> 'a result) \<Rightarrow> ('a \<Rightarrow> Config \<Rightarrow> Config) \<Rightarrow> Config \<Rightarrow> Config result" where
  "env_parsed p name parse set_field cfg =
     (let v = Getenv p name
      in if v \<noteq> [] then
           (case parse v of
              Inl err \<Rightarrow>
                Inl (ErrWrap (''invalid '' @ name @ '' '' @ go_quote (printable_runes p) v @ '': '') err [])
            | Inr x \<Rightarrow> Inr (set_field x cfg))
         else Inr cfg)"

fun in_order :: "(Config \<Rightarrow> Config result) list \<Rightarrow> Config \<Rightarrow> Config result" where
  "in_order [] cfg = Inr cfg"
| "in_order (f # fs) cfg = bind_result (f cfg) (in_order fs)"

definition applyEnvOverrides :: "platform \<Rightarrow> Config \<Rightarrow> Config result" where
  "applyEnvOverrides p =
     (let atoi = atoi_result (printable_runes p); parse_bool = parse_bool_result (printable_runes p)
      in in_order
        [env_text p ''BRIDGE_HOST'' (\<lambda>v. cfg_Server_update (srv_Host_update (\<lambda>_. v))),
         env_parsed p ''BRIDGE_PORT'' atoi (\<lambda>n. cfg_Server_update (srv_Port_update (\<lambda>_. n))),
         env_text p ''BRIDGE_STORAGE_TYPE'' (\<lambda>v. cfg_Storage_update (sto_Type_update (\<lambda>_. v))),
         env_text p ''BRIDGE_REDIS_URL'' (\<lambda>v. cfg_Storage_update (sto_RedisURL_update (\<lambda>_. v))),
         env_parsed p ''BRIDGE_REDIS_TTL'' atoi (\<lambda>n. cfg_Storage_update (sto_RedisTTL_update (\<lambda>_. n))),
         env_parsed p ''BRIDGE_OTEL_ENABLED'' parse_bool (\<lambda>b. cfg_OTel_update (ot_Enabled_update (\<lambda>_. b))),
         env_text p ''BRIDGE_OTEL_ENDPOINT'' (\<lambda>v. cfg_OTel_update (ot_Endpoint_update (\<lambda>_. v))),
         env_parsed p ''BRIDGE_OTEL_INSECURE'' parse_bool (\<lambda>b. cfg_OTel_update (ot_Insecure_update (\<lambda>_. b))),
         env_text p ''BRIDGE_OTEL_SERVICE_NAME'' (\<lambda>v. cfg_OTel_update (ot_ServiceName_update (\<lambda>_. v))),
         env_text p ''BRIDGE_LOG_LEVEL'' (\<lambda>v. cfg_Log_update (lc_Level_update (\<lambda>_. v))),
         env_text p ''BRIDGE_LOG_FORMAT'' (\<lambda>v. cfg_Log_update (lc_Format_update (\<lambda>_. v)))])"

section \<open>Validation\<close>

definition Config_Validate :: "(nat \<Rightarrow> bool) \<Rightarrow> Config \<Rightarrow> gerror option" where
  "Config_Validate printable c =
     (let port = srv_Port (cfg_Server c); sto = cfg_Storage c; ot = cfg_OTel c; lc = cfg_Log c
      in if port \<le> 0 \<or> 65535 < port then Some (ErrNew (''invalid server port: '' @ show_int port))
         else if sto_Type sto \<noteq> StorageMemory \<and> sto_Type sto \<noteq> StorageRedis then
           Some (ErrNew (''invalid storage type: '' @ go_quote printable (sto_Type sto) @ '' (must be '' @
             go_quote printable StorageMemory @ '' or '' @ go_quote printable StorageRedis @ '')''))
         else if sto_Type sto = StorageRedis \<and> sto_RedisURL sto = [] then
           Some (ErrNew ''redis storage requires storage.redisURL to be set'')
         else if sto_RedisTTL sto < 0 then
           Some (ErrNew (''invalid redis TTL: '' @ show_int (sto_RedisTTL sto) @ '' (must be >= 0)''))
         else if lc_Level lc \<notin> set [''debug'', ''info'', ''warn'', ''error''] then
           Some (ErrNew (''invalid log level: '' @ go_quote printable (lc_Level lc) @
             '' (must be debug, info, warn, or error)''))
         else if lc_Format lc \<notin> set [LogFormatJSON, LogFormatText] then
           Some (ErrNew (''invalid log format: '' @ go_quote printable (lc_Format lc) @
             '' (must be json or text)''))
         else if ot_Enabled ot \<and> ot_Endpoint ot = [] then
           Some (ErrNew ''otel.endpoint is required when otel is enabled'')
         else if ot_Enabled ot \<and> ot_ServiceName ot = [] then
           Some (ErrNew ''otel.serviceName is required when otel is enabled'')
         else None)"

text \<open>The product of two 64-bit integers, which wraps.\<close>

definition wrap_int64 :: "int \<Rightarrow> int" where
  "wrap_int64 n = (n + 2 ^ 63) mod 2 ^ 64 - 2 ^ 63"

definition StorageConfig_TTL :: "StorageConfig \<Rightarrow> duration" where
  "StorageConfig_TTL s = wrap_int64 (sto_RedisTTL s * second)"

section \<open>Loading\<close>

definition file_layer :: "platform \<Rightarrow> string \<Rightarrow> Config result" where
  "file_layer p path =
     (if path \<noteq> [] then
        (case ReadFile p path of
           Inl err \<Rightarrow> Inl (ErrWrap ''failed to read config file: '' err [])
         | Inr data \<Rightarrow>
             (case yaml_Unmarshal p data Default of
                (Some err, cfg) \<Rightarrow>
                  Inl (ErrWrap (''failed to parse config file '' @ path @ '': '') err [])
              | (None, cfg) \<Rightarrow> Inr cfg))
      else Inr Default)"

definition Load :: "platform \<Rightarrow> string \<Rightarrow> Config result" where
  "Load p path =
     bind_result (file_layer p path) (\<lambda>cfg.
     bind_result (applyEnvOverrides p cfg) (\<lambda>cfg.
       case Config_Validate (printable_runes p) cfg of
         Some err \<Rightarrow> Inl (ErrWrap ''invalid configuration: '' err [])
       | None \<Rightarrow> Inr cfg))"

text \<open>\<open>loadConfig\<close> of \<open>cmd/bridge/main.go\<close> finds the file.\<close>

definition defaultConfigPath :: string where "defaultConfigPath = ''configs/config.yaml''"

definition config_path :: "platform \<Rightarrow> string \<Rightarrow> string" where
  "config_path p path =
     (if path = [] then
        (let env = Getenv p ''BRIDGE_CONFIG''
         in if env \<noteq> [] then env
            else if Stat p defaultConfigPath = None then defaultConfigPath else path)
      else path)"

definition loadConfig :: "platform \<Rightarrow> string \<Rightarrow> Config result" where
  "loadConfig p path =
     (let path = config_path p path
      in case Load p path of
           Inl err \<Rightarrow>
             if path \<noteq> [] \<and> errors_is err os_ErrNotExist
             then Inl (ErrNew (''config file '' @ path @ '' does not exist''))
             else Inl err
         | Inr cfg \<Rightarrow> Inr cfg)"

section \<open>What a configuration has to satisfy\<close>

definition config_ok :: "Config \<Rightarrow> bool" where
  "config_ok c \<longleftrightarrow>
     0 < srv_Port (cfg_Server c) \<and> srv_Port (cfg_Server c) < 2 ^ 16 \<and>
     (sto_Type (cfg_Storage c) = ''memory'' \<or>
      sto_Type (cfg_Storage c) = ''redis'' \<and> sto_RedisURL (cfg_Storage c) \<noteq> []) \<and>
     0 \<le> sto_RedisTTL (cfg_Storage c) \<and>
     lc_Level (cfg_Log c) \<in> {''debug'', ''info'', ''warn'', ''error''} \<and>
     lc_Format (cfg_Log c) \<in> {''json'', ''text''} \<and>
     (ot_Enabled (cfg_OTel c) \<longrightarrow> ot_Endpoint (cfg_OTel c) \<noteq> [] \<and> ot_ServiceName (cfg_OTel c) \<noteq> [])"

lemma Config_Validate_ok: "Config_Validate printable c = None \<longleftrightarrow> config_ok c"
  by (auto simp: Config_Validate_def config_ok_def config_names Let_def)

lemma Default_ok: "config_ok Default"
  by (simp add: config_ok_def Default_def config_names)

text \<open>The layer of the environment over a configuration, field by field.\<close>

definition pick :: "platform \<Rightarrow> string \<Rightarrow> (string \<Rightarrow> 'a) \<Rightarrow> 'a \<Rightarrow> 'a" where
  "pick p name parse old = (if Getenv p name = [] then old else parse (Getenv p name))"

definition env_layer :: "platform \<Rightarrow> Config \<Rightarrow> Config" where
  "env_layer p c =
     \<lparr>cfg_Server = \<lparr>srv_Host = pick p ''BRIDGE_HOST'' (\<lambda>v. v) (srv_Host (cfg_Server c)),
        srv_Port = pick p ''BRIDGE_PORT'' (\<lambda>v. the (Atoi v)) (srv_Port (cfg_Server c))\<rparr>,
      cfg_Storage = \<lparr>sto_Type = pick p ''BRIDGE_STORAGE_TYPE'' (\<lambda>v. v) (sto_Type (cfg_Storage c)),
        sto_RedisURL = pick p ''BRIDGE_REDIS_URL'' (\<lambda>v. v) (sto_RedisURL (cfg_Storage c)),
        sto_RedisTTL = pick p ''BRIDGE_REDIS_TTL'' (\<lambda>v. the (Atoi v)) (sto_RedisTTL (cfg_Storage c))\<rparr>,
      cfg_OTel = \<lparr>ot_Enabled = pick p ''BRIDGE_OTEL_ENABLED'' (\<lambda>v. the (ParseBool v)) (ot_Enabled (cfg_OTel c)),
        ot_Endpoint = pick p ''BRIDGE_OTEL_ENDPOINT'' (\<lambda>v. v) (ot_Endpoint (cfg_OTel c)),
        ot_Insecure = pick p ''BRIDGE_OTEL_INSECURE'' (\<lambda>v. the (ParseBool v)) (ot_Insecure (cfg_OTel c)),
        ot_ServiceName = pick p ''BRIDGE_OTEL_SERVICE_NAME'' (\<lambda>v. v) (ot_ServiceName (cfg_OTel c))\<rparr>,
      cfg_Log = \<lparr>lc_Level = pick p ''BRIDGE_LOG_LEVEL'' (\<lambda>v. v) (lc_Level (cfg_Log c)),
        lc_Format = pick p ''BRIDGE_LOG_FORMAT'' (\<lambda>v. v) (lc_Format (cfg_Log c))\<rparr>\<rparr>"

text \<open>The variables that are set hold what their type needs.\<close>

definition env_well_typed :: "platform \<Rightarrow> bool" where
  "env_well_typed p \<longleftrightarrow>
     list_all (\<lambda>name. Getenv p name = [] \<or> Atoi (Getenv p name) \<noteq> None)
       [''BRIDGE_PORT'', ''BRIDGE_REDIS_TTL''] \<and>
     list_all (\<lambda>name. Getenv p name = [] \<or> ParseBool (Getenv p name) \<noteq> None)
       [''BRIDGE_OTEL_ENABLED'', ''BRIDGE_OTEL_INSECURE'']"

lemma bind_Inr_iff: "bind_result r f = Inr y \<longleftrightarrow> (\<exists>x. r = Inr x \<and> f x = Inr y)"
  by (cases r) auto

text \<open>An override that does not fail replaces its field by what it picks.\<close>

lemma pick_cases:
  "Getenv p name = [] \<Longrightarrow> pick p name parse = (\<lambda>old. old)"
  "Getenv p name \<noteq> [] \<Longrightarrow> pick p name parse = (\<lambda>old. parse (Getenv p name))"
  by (simp_all add: pick_def fun_eq_iff)

lemma env_text_pick:
  assumes "upd (\<lambda>old. old) cfg = cfg"
  shows "env_text p name (\<lambda>v. upd (\<lambda>_. v)) cfg = Inr (upd (pick p name (\<lambda>v. v)) cfg)"
  using assms by (cases "Getenv p name = []") (simp_all add: env_text_def pick_cases)

lemma env_parsed_pick:
  assumes "upd (\<lambda>old. old) cfg = cfg"
    and "Getenv p name = [] \<or> parse (Getenv p name) = Inr (f (Getenv p name))"
  shows "env_parsed p name parse (\<lambda>v. upd (\<lambda>_. v)) cfg = Inr (upd (pick p name f) cfg)"
  using assms by (cases "Getenv p name = []") (auto simp: env_parsed_def pick_cases)

lemma env_parsed_Inr:
  "env_parsed p name parse set_field cfg = Inr cfg' \<Longrightarrow>
     Getenv p name = [] \<or> (\<exists>x. parse (Getenv p name) = Inr x)"
  by (auto simp: env_parsed_def Let_def split: sum.splits if_splits)

lemma in_order_Inr: "in_order fs cfg = Inr cfg' \<Longrightarrow> f \<in> set fs \<Longrightarrow> \<exists>x y. f x = Inr y"
  by (induction fs arbitrary: cfg) (auto simp: bind_Inr_iff)

lemma well_typed_parses:
  assumes "env_well_typed p"
  shows "Getenv p ''BRIDGE_PORT'' = [] \<or>
      Atoi (Getenv p ''BRIDGE_PORT'') = Some (the (Atoi (Getenv p ''BRIDGE_PORT'')))"
    and "Getenv p ''BRIDGE_REDIS_TTL'' = [] \<or>
      Atoi (Getenv p ''BRIDGE_REDIS_TTL'') = Some (the (Atoi (Getenv p ''BRIDGE_REDIS_TTL'')))"
    and "Getenv p ''BRIDGE_OTEL_ENABLED'' = [] \<or>
      ParseBool (Getenv p ''BRIDGE_OTEL_ENABLED'') = Some (the (ParseBool (Getenv p ''BRIDGE_OTEL_ENABLED'')))"
    and "Getenv p ''BRIDGE_OTEL_INSECURE'' = [] \<or>
      ParseBool (Getenv p ''BRIDGE_OTEL_INSECURE'') = Some (the (ParseBool (Getenv p ''BRIDGE_OTEL_INSECURE'')))"
  using assms by (auto simp: env_well_typed_def)

lemma update_ids:
  "srv_Host_update (\<lambda>old. old) = (\<lambda>r::ServerConfig. r)"
  "srv_Port_update (\<lambda>old. old) = (\<lambda>r::ServerConfig. r)"
  "sto_Type_update (\<lambda>old. old) = (\<lambda>r::StorageConfig. r)"
  "sto_RedisURL_update (\<lambda>old. old) = (\<lambda>r::StorageConfig. r)"
  "sto_RedisTTL_update (\<lambda>old. old) = (\<lambda>r::StorageConfig. r)"
  "ot_Enabled_update (\<lambda>old. old) = (\<lambda>r::OTelConfig. r)"
  "ot_Endpoint_update (\<lambda>old. old) = (\<lambda>r::OTelConfig. r)"
  "ot_Insecure_update (\<lambda>old. old) = (\<lambda>r::OTelConfig. r)"
  "ot_ServiceName_update (\<lambda>old. old) = (\<lambda>r::OTelConfig. r)"
  "lc_Level_update (\<lambda>old. old) = (\<lambda>r::LogConfig. r)"
  "lc_Format_update (\<lambda>old. old) = (\<lambda>r::LogConfig. r)"
  "cfg_Server_update (\<lambda>old. old) = (\<lambda>r::Config. r)"
  "cfg_Storage_update (\<lambda>old. old) = (\<lambda>r::Config. r)"
  "cfg_OTel_update (\<lambda>old. old) = (\<lambda>r::Config. r)"
  "cfg_Log_update (\<lambda>old. old) = (\<lambda>r::Config. r)"
  by (rule ext, simp)+

lemma applyEnvOverrides_layer:
  "applyEnvOverrides p cfg = Inr cfg' \<longleftrightarrow> env_well_typed p \<and> cfg' = env_layer p cfg"
proof -
  obtain h pt ty url ttl en ep ins sn lv fm where cfg:
    "cfg = \<lparr>cfg_Server = \<lparr>srv_Host = h, srv_Port = pt\<rparr>,
      cfg_Storage = \<lparr>sto_Type = ty, sto_RedisURL = url, sto_RedisTTL = ttl\<rparr>,
      cfg_OTel = \<lparr>ot_Enabled = en, ot_Endpoint = ep, ot_Insecure = ins, ot_ServiceName = sn\<rparr>,
      cfg_Log = \<lparr>lc_Level = lv, lc_Format = fm\<rparr>\<rparr>"
    by (metis Config.cases ServerConfig.cases StorageConfig.cases OTelConfig.cases LogConfig.cases)
  have layer: "applyEnvOverrides p cfg = Inr (env_layer p cfg)" if w: "env_well_typed p"
    unfolding applyEnvOverrides_def Let_def cfg
    by (simp add: env_layer_def well_typed_parses [OF w] update_ids
        env_text_pick [where upd = "\<lambda>f. cfg_Server_update (srv_Host_update f)"]
        env_parsed_pick [where upd = "\<lambda>f. cfg_Server_update (srv_Port_update f)" and f = "\<lambda>v. the (Atoi v)"]
        env_text_pick [where upd = "\<lambda>f. cfg_Storage_update (sto_Type_update f)"]
        env_text_pick [where upd = "\<lambda>f. cfg_Storage_update (sto_RedisURL_update f)"]
        env_parsed_pick [where upd = "\<lambda>f. cfg_Storage_update (sto_RedisTTL_update f)" and f = "\<lambda>v. the (Atoi v)"]
        env_parsed_pick [where upd = "\<lambda>f. cfg_OTel_update (ot_Enabled_update f)" and f = "\<lambda>v. the (ParseBool v)"]
        env_text_pick [where upd = "\<lambda>f. cfg_OTel_update (ot_Endpoint_update f)"]
        env_parsed_pick [where upd = "\<lambda>f. cfg_OTel_update (ot_Insecure_update f)" and f = "\<lambda>v. the (ParseBool v)"]
        env_text_pick [where upd = "\<lambda>f. cfg_OTel_update (ot_ServiceName_update f)"]
        env_text_pick [where upd = "\<lambda>f. cfg_Log_update (lc_Level_update f)"]
        env_text_pick [where upd = "\<lambda>f. cfg_Log_update (lc_Format_update f)"])
  have "env_well_typed p" if a: "applyEnvOverrides p cfg = Inr cfg'"
  proof -
    note steps = in_order_Inr [OF a [unfolded applyEnvOverrides_def Let_def]]
    have "Getenv p name = [] \<or> Atoi (Getenv p name) \<noteq> None"
      if "name = ''BRIDGE_PORT'' \<or> name = ''BRIDGE_REDIS_TTL''" for name
      using that steps [of "env_parsed p ''BRIDGE_PORT'' (atoi_result (printable_runes p)) (\<lambda>n. cfg_Server_update (srv_Port_update (\<lambda>_. n)))"]
        steps [of "env_parsed p ''BRIDGE_REDIS_TTL'' (atoi_result (printable_runes p)) (\<lambda>n. cfg_Storage_update (sto_RedisTTL_update (\<lambda>_. n)))"]
      by (auto dest: env_parsed_Inr)
    moreover have "Getenv p name = [] \<or> ParseBool (Getenv p name) \<noteq> None"
      if "name = ''BRIDGE_OTEL_ENABLED'' \<or> name = ''BRIDGE_OTEL_INSECURE''" for name
      using that steps [of "env_parsed p ''BRIDGE_OTEL_ENABLED'' (parse_bool_result (printable_runes p)) (\<lambda>b. cfg_OTel_update (ot_Enabled_update (\<lambda>_. b)))"]
        steps [of "env_parsed p ''BRIDGE_OTEL_INSECURE'' (parse_bool_result (printable_runes p)) (\<lambda>b. cfg_OTel_update (ot_Insecure_update (\<lambda>_. b)))"]
      by (auto dest: env_parsed_Inr)
    ultimately show ?thesis by (simp add: env_well_typed_def)
  qed
  with layer show ?thesis by auto
qed

text \<open>Loading, layer by layer.\<close>

lemma Load_layers:
  "Load p path = Inr cfg \<longleftrightarrow>
     (\<exists>base. file_layer p path = Inr base \<and> env_well_typed p \<and> cfg = env_layer p base \<and> config_ok cfg)"
proof -
  have "(case Config_Validate (printable_runes p) c of
        None \<Rightarrow> Inr c | Some err \<Rightarrow> Inl (ErrWrap ''invalid configuration: '' err [])) = Inr cfg \<longleftrightarrow>
      cfg = c \<and> config_ok c" for c
    using Config_Validate_ok [of "printable_runes p" c] by (cases "Config_Validate (printable_runes p) c") auto
  then show ?thesis
    unfolding Load_def bind_Inr_iff by (auto simp: applyEnvOverrides_layer)
qed

section \<open>Properties\<close>

text \<open>
  C35. Loading succeeds exactly when the file layer is there, every variable that is set parses
  and the layered result is valid; and the result is the environment over the file over the
  defaults, field by field.
\<close>
theorem Load_exact:
  "Load p path = Inr cfg \<longleftrightarrow>
     (\<exists>base. file_layer p path = Inr base \<and> env_well_typed p \<and> cfg = env_layer p base \<and> config_ok cfg)"
  by (rule Load_layers)

text \<open>
  C40. The time to live of a valid configuration is the configured number of seconds exactly up to
  9223372036 seconds; beyond that the product wraps.
\<close>
theorem TTL_exact:
  assumes "config_ok c" and "sto_RedisTTL (cfg_Storage c) < 2 ^ 63"
  shows "StorageConfig_TTL (cfg_Storage c) = sto_RedisTTL (cfg_Storage c) * second \<longleftrightarrow>
    sto_RedisTTL (cfg_Storage c) \<le> 9223372036"
proof -
  let ?n = "sto_RedisTTL (cfg_Storage c)"
  have n: "0 \<le> ?n" using assms(1) by (simp add: config_ok_def)
  show ?thesis
  proof (cases "?n \<le> 9223372036")
    case True
    then have "(?n * second + 2 ^ 63) mod 2 ^ 64 = ?n * second + 2 ^ 63"
      using n by (intro mod_pos_pos_trivial) (simp_all add: second_def)
    with True show ?thesis by (simp add: StorageConfig_TTL_def wrap_int64_def)
  next
    case False
    have "StorageConfig_TTL (cfg_Storage c) < 2 ^ 63"
      unfolding StorageConfig_TTL_def wrap_int64_def
      using pos_mod_bound [of "2 ^ 64 :: int" "?n * second + 2 ^ 63"] by simp
    moreover have "(2 :: int) ^ 63 \<le> ?n * second" using False by (simp add: second_def)
    ultimately show ?thesis using False by linarith
  qed
qed

text \<open>A platform without files, whose variables are a list.\<close>

definition bare_platform :: "(string \<times> string) list \<Rightarrow> platform" where
  "bare_platform env =
     \<lparr>Getenv = (\<lambda>name. case map_of env name of None \<Rightarrow> [] | Some v \<Rightarrow> v),
      ReadFile = (\<lambda>path. Inl (ErrWrap (''open '' @ path @ '': '') os_ErrNotExist [])),
      Stat = (\<lambda>path. Some os_ErrNotExist), yaml_Unmarshal = (\<lambda>data cfg. (None, cfg)),
      printable_runes = (\<lambda>r. True)\<rparr>"

theorem TTL_exact_witness:
  "StorageConfig_TTL (cfg_Storage Default) = 86400 * second"
  using TTL_exact [of Default] by (simp add: Default_ok) (simp add: Default_def)

text \<open>A time to live that passes validation and is negative.\<close>

theorem TTL_negative:
  "\<exists>cfg. Load (bare_platform [(''BRIDGE_REDIS_TTL'', ''9223372037'')]) [] = Inr cfg \<and>
     StorageConfig_TTL (cfg_Storage cfg) < 0"
proof -
  let ?p = "bare_platform [(''BRIDGE_REDIS_TTL'', ''9223372037'')]"
  let ?cfg = "Default\<lparr>cfg_Storage := (cfg_Storage Default)\<lparr>sto_RedisTTL := 9223372037\<rparr>\<rparr>"
  have atoi: "Atoi ''9223372037'' = Some 9223372037" by code_simp
  have "Load ?p [] = Inr ?cfg"
    unfolding Load_layers
    by (simp add: file_layer_def env_well_typed_def env_layer_def pick_def bare_platform_def atoi
        config_ok_def Default_def config_names)
  moreover have "StorageConfig_TTL (cfg_Storage ?cfg) < 0"
    by (simp add: StorageConfig_TTL_def wrap_int64_def second_def)
  ultimately show ?thesis by blast
qed

text \<open>
  A configuration file that is named but does not exist is an error that says so.
\<close>
theorem loadConfig_missing:
  assumes "config_path p path \<noteq> []" and "ReadFile p (config_path p path) = Inl err"
    and "errors_is err os_ErrNotExist"
  shows "loadConfig p path = Inl (ErrNew (''config file '' @ config_path p path @ '' does not exist''))"
  using assms by (simp add: loadConfig_def Load_def file_layer_def Let_def)

theorem loadConfig_missing_witness:
  "loadConfig (bare_platform [(''BRIDGE_CONFIG'', ''/etc/bridge.yaml'')]) [] =
     Inl (ErrNew ''config file /etc/bridge.yaml does not exist'')"
  using loadConfig_missing [of "bare_platform [(''BRIDGE_CONFIG'', ''/etc/bridge.yaml'')]" "[]"]
  by (simp add: bare_platform_def config_path_def Let_def)

end
