(* ===== verification/Bridge_Main.thy ===== *)
theory Bridge_Main
  imports Bridge_Config Otel_Provider Redis_Storage Memory_Storage Api_Server
begin

text \<open>
  The entry point of \<open>cmd/bridge/main.go\<close> and the construction of the server of
  \<open>internal/api/server.go\<close>: which storage backend and logger a configuration selects, how the
  server's options are completed, and in which order the process acquires and releases what it
  uses. The log lines are left out.
\<close>

section \<open>Storage and logger\<close>

datatype 'r store_choice = InMemory memory | InRedis "'r RedisStorage"

definition newStorage ::
  "(string \<Rightarrow> 'r redis_client result) \<Rightarrow> StorageConfig \<Rightarrow> ctx \<Rightarrow> 'r \<Rightarrow> 'r store_choice result \<times> 'r" where
  "newStorage parse_url cfg ctx s =
     (if sto_Type cfg = StorageRedis then
        (case NewRedisStorage (parse_url (sto_RedisURL cfg)) (StorageConfig_TTL cfg) ctx s of
           (Inl err, s) \<Rightarrow> (Inl (ErrWrap ''failed to connect to redis: '' err []), s)
         | (Inr store, s) \<Rightarrow> (Inr (InRedis store), s))
      else (Inr (InMemory NewMemoryStorage), s))"

datatype log_level = LevelDebug | LevelInfo | LevelWarn | LevelError

datatype log_handler = TextHandler log_level | JSONHandler log_level

definition newLogger :: "LogConfig \<Rightarrow> log_handler" where
  "newLogger cfg =
     (let level = (if lc_Level cfg = ''debug'' then LevelDebug
                   else if lc_Level cfg = ''warn'' then LevelWarn
                   else if lc_Level cfg = ''error'' then LevelError else LevelInfo)
      in if lc_Format cfg = LogFormatText then TextHandler level else JSONHandler level)"

section \<open>The server\<close>

text \<open>
  The options of the server and what it is made of; a correlator is its graph and the order in
  which it visits a map.
\<close>

record 's Options =
  op_Host :: string
  op_Port :: int
  op_Storage :: "'s storage"
  op_Correlator :: "event_graph option"
  op_Metrics :: "metrics option"
  op_Version :: string
  op_Tracing :: bool
  op_ServiceName :: string

record 's Server =
  ns_addr :: string
  ns_handler :: "'s handler"
  ns_metrics :: metrics
  ns_tracing :: "string option"
  ns_readHeaderTimeout :: duration
  ns_readTimeout :: duration
  ns_writeTimeout :: duration
  ns_idleTimeout :: duration

definition NewServer :: "(stored_event list \<Rightarrow> stored_event list) \<Rightarrow> 's Options \<Rightarrow> 's Server" where
  "NewServer visit opts =
     (let m = (case op_Metrics opts of None \<Rightarrow> New_metrics | Some m \<Rightarrow> m);
          graph = (case op_Correlator opts of None \<Rightarrow> NewEventGraph | Some g \<Rightarrow> g);
          version = (if op_Version opts = [] then ''dev'' else op_Version opts);
          service = (if op_ServiceName opts = [] then ''cdevents-otel-bridge'' else op_ServiceName opts)
      in \<lparr>ns_addr = JoinHostPort (op_Host opts) (show_int (op_Port opts)),
          ns_handler = \<lparr>h_storage = op_Storage opts, h_graph = graph, h_visit = visit, h_version = version\<rparr>,
          ns_metrics = m,
          ns_tracing = (if op_Tracing opts then Some service else None),
          ns_readHeaderTimeout = 10 * second, ns_readTimeout = 30 * second,
          ns_writeTimeout = 30 * second, ns_idleTimeout = 120 * second\<rparr>)"

text \<open>Which requests get a span when tracing is on, and its name.\<close>

definition traced_request :: "request \<Rightarrow> bool" where
  "traced_request req \<longleftrightarrow> in_path req \<noteq> healthPath \<and> in_path req \<noteq> metricsPath"

definition span_name :: "request \<Rightarrow> string" where
  "span_name req = in_method req @ '' '' @ in_path req"

definition http_ErrServerClosed :: gerror where
  "http_ErrServerClosed = ErrLib ''http: Server closed''"

definition Server_Start :: "gerror option \<Rightarrow> gerror option" where
  "Server_Start listened =
     (case listened of
        Some err \<Rightarrow> if errors_is err http_ErrServerClosed then None else Some err
      | None \<Rightarrow> None)"

section \<open>The process\<close>

text \<open>
  What the process does to the resources it holds, in order. The outside world is a parameter:
  the platform, the Redis client a URL gives, the exporter and the resource of the SDK, and how
  the wait ends: with the result of \<open>ListenAndServe\<close>, or, when that has not returned yet, with a
  signal.
\<close>

datatype action = Print string | OpenStorage string | CloseStorage
  | StartTracer "exporter_option list" | Listen string | ShutdownServer | ShutdownTracer

record ('r, 'e, 'res) outside =
  w_platform :: platform
  w_parse_url :: "string \<Rightarrow> 'r redis_client result"
  w_exporter :: "exporter_option list \<Rightarrow> 'e result"
  w_resource :: "(string \<times> string) list \<Rightarrow> 'res result"
  w_listened :: "string \<Rightarrow> gerror option option"

text \<open>From the moment the storage is open; the deferred call closes it whatever happens.\<close>

definition serve_until_stopped ::
  "('r, 'e, 'res) outside \<Rightarrow> string \<Rightarrow> Config \<Rightarrow> gerror option \<times> action list" where
  "serve_until_stopped w version cfg =
     (let ot = cfg_OTel cfg;
          pc = \<lparr>pc_Endpoint = ot_Endpoint ot, pc_Insecure = ot_Insecure ot,
                pc_ServiceName = ot_ServiceName ot, pc_ServiceVersion = version\<rparr>;
          tracer = (if ot_Enabled ot then
                      Some (fst (NewTracerProvider (w_exporter w) (w_resource w) pc [Some ()]
                        \<lparr>og_provider = None, og_propagators = []\<rparr>))
                    else None);
          addr = JoinHostPort (srv_Host (cfg_Server cfg)) (show_int (srv_Port (cfg_Server cfg)))
      in case tracer of
           Some (Inl err) \<Rightarrow> (Some (ErrWrap ''failed to initialize OpenTelemetry: '' err []), [])
         | _ \<Rightarrow>
             let started = (if tracer = None then [] else [StartTracer (exporterOptions pc)]) @ [Listen addr]
             in case w_listened w addr of
                  Some listened \<Rightarrow>
                    (map_option (\<lambda>err. ErrWrap ''server failed: '' err []) (Server_Start listened), started)
                | None \<Rightarrow>
                    (None, started @ [ShutdownServer] @ (if tracer = None then [] else [ShutdownTracer])))"

definition run ::
  "('r, 'e, 'res) outside \<Rightarrow> string \<Rightarrow> bool \<Rightarrow> string \<Rightarrow> ctx \<Rightarrow> 'r \<Rightarrow> gerror option \<times> action list" where
  "run w version showVersion path ctx s =
     (if showVersion then (None, [Print version])
      else case loadConfig (w_platform w) path of
        Inl err \<Rightarrow> (Some err, [])
      | Inr cfg \<Rightarrow>
          (case newStorage (w_parse_url w) (cfg_Storage cfg) ctx s of
             (Inl err, s) \<Rightarrow> (Some err, [])
           | (Inr store, s) \<Rightarrow>
               (case serve_until_stopped w version cfg of
                  (err, acts) \<Rightarrow> (err, [OpenStorage (sto_Type (cfg_Storage cfg))] @ acts @ [CloseStorage]))))"

section \<open>The life of the process as a state machine\<close>

text \<open>
  The phases the process goes through. \<open>ended\<close> tells of an address whether \<open>ListenAndServe\<close> returned
  on it by itself; otherwise the wait ended with a signal. A serving process remembers whether it
  started a tracer and how its wait ended. After a signal the server has to be shut down, then the
  tracer, if there is one, and then the storage closed, with no step left out; after an end of the
  server by itself the storage is closed at once, and a tracer is not shut down.
\<close>

datatype phase = Idle | Holding | Traced | Serving bool bool | Drained bool | Flushed | Released

fun life_step :: "(string \<Rightarrow> bool) \<Rightarrow> phase \<Rightarrow> action \<Rightarrow> phase option" where
  "life_step ended Idle (Print v) = Some Idle"
| "life_step ended Idle (OpenStorage t) = Some Holding"
| "life_step ended Holding (StartTracer os) = Some Traced"
| "life_step ended Holding (Listen a) = Some (Serving False (ended a))"
| "life_step ended Traced (Listen a) = Some (Serving True (ended a))"
| "life_step ended (Serving tracer False) ShutdownServer = Some (Drained tracer)"
| "life_step ended (Drained True) ShutdownTracer = Some Flushed"
| "life_step ended Holding CloseStorage = Some Released"
| "life_step ended (Serving tracer True) CloseStorage = Some Released"
| "life_step ended (Drained False) CloseStorage = Some Released"
| "life_step ended Flushed CloseStorage = Some Released"
| "life_step ended _ _ = None"

fun life :: "(string \<Rightarrow> bool) \<Rightarrow> phase \<Rightarrow> action list \<Rightarrow> phase option" where
  "life ended p [] = Some p"
| "life ended p (a # acts) =
     (case life_step ended p a of None \<Rightarrow> None | Some p' \<Rightarrow> life ended p' acts)"

text \<open>How the wait on an address ended: with the result of the listener, or with a signal.\<close>

abbreviation self_ended :: "('r, 'e, 'res) outside \<Rightarrow> string \<Rightarrow> bool" where
  "self_ended w \<equiv> (\<lambda>a. w_listened w a \<noteq> None)"

text \<open>A wait that ends without an error: with a signal, or with a listener that was closed.\<close>

definition clean_stop :: "('r, 'e, 'res) outside \<Rightarrow> string \<Rightarrow> bool" where
  "clean_stop w a =
     (case w_listened w a of
        None \<Rightarrow> True
      | Some None \<Rightarrow> True
      | Some (Some err) \<Rightarrow> errors_is err http_ErrServerClosed)"

section \<open>Lemmas\<close>

lemma life_append:
  "life ended p (xs @ ys) = (case life ended p xs of None \<Rightarrow> None | Some p' \<Rightarrow> life ended p' ys)"
  by (induction xs arbitrary: p) (simp_all split: option.splits)

text \<open>What happens between opening and closing the storage.\<close>

lemma serve_actions:
  "\<exists>ph. life (self_ended w) Holding (snd (serve_until_stopped w version cfg)) = Some ph \<and>
     life_step (self_ended w) ph CloseStorage = Some Released"
  by (simp add: serve_until_stopped_def Let_def split: option.splits sum.splits)

text \<open>It ends without an error exactly when the process listened and the wait ended cleanly.\<close>

lemma serve_result:
  "fst (serve_until_stopped w version cfg) = None \<longleftrightarrow>
     (\<exists>a. Listen a \<in> set (snd (serve_until_stopped w version cfg)) \<and> clean_stop w a)"
proof -
  let ?a = "JoinHostPort (srv_Host (cfg_Server cfg)) (show_int (srv_Port (cfg_Server cfg)))"
  have "clean_stop w ?a \<longleftrightarrow>
      (case w_listened w ?a of None \<Rightarrow> True | Some listened \<Rightarrow> Server_Start listened = None)"
    by (simp add: clean_stop_def Server_Start_def split: option.splits)
  then show ?thesis
    by (cases "w_listened w ?a") (auto simp: serve_until_stopped_def Let_def split: option.splits sum.splits)
qed

lemma serve_opens_nothing: "OpenStorage t \<notin> set (snd (serve_until_stopped w version cfg))"
  by (simp add: serve_until_stopped_def Let_def split: option.splits sum.splits)

lemma serve_listens:
  "Listen a \<in> set (snd (serve_until_stopped w version cfg)) \<Longrightarrow>
     a = JoinHostPort (srv_Host (cfg_Server cfg)) (show_int (srv_Port (cfg_Server cfg)))"
  by (simp add: serve_until_stopped_def Let_def split: option.splits sum.splits if_splits)

lemma loadConfig_ok: "loadConfig p path = Inr cfg \<Longrightarrow> config_ok cfg"
  by (auto simp: loadConfig_def Load_def Let_def Config_Validate_ok bind_Inr_iff split: sum.splits if_splits option.splits)

text \<open>The phases of a whole run.\<close>

lemma run_life:
  "life (self_ended w) Idle (snd (run w version showVersion path ctx s)) =
     Some (if \<exists>t. OpenStorage t \<in> set (snd (run w version showVersion path ctx s)) then Released else Idle)"
proof -
  have "life (self_ended w) Holding (acts @ [CloseStorage]) = Some Released"
    if "serve_until_stopped w version cfg = (err, acts)" for cfg err acts
    using serve_actions [of w version cfg] that by (auto simp: life_append)
  then show ?thesis
    by (auto simp: run_def split: sum.splits prod.splits)
qed

text \<open>
  C36. The life of the process, however it ends. The storage is opened first and, once opened,
  closed last; a process that did not open it acquired nothing. After a signal the server is shut
  down, then the tracer if one was started, then the storage is closed. When the server ends by
  itself the storage is closed at once: a tracer that was started is then not shut down, as
  \<open>main.go\<close> is written. The process ends without an error exactly when it only printed its version,
  or listened and was stopped by a signal or by a regular close of the server.
\<close>
theorem run_lifecycle:
  "life (self_ended w) Idle (snd (run w version showVersion path ctx s)) =
     Some (if \<exists>t. OpenStorage t \<in> set (snd (run w version showVersion path ctx s)) then Released else Idle) \<and>
   (fst (run w version showVersion path ctx s) = None \<longleftrightarrow>
     showVersion \<or>
     (\<exists>a. Listen a \<in> set (snd (run w version showVersion path ctx s)) \<and> clean_stop w a))"
proof
  show "fst (run w version showVersion path ctx s) = None \<longleftrightarrow>
     showVersion \<or>
     (\<exists>a. Listen a \<in> set (snd (run w version showVersion path ctx s)) \<and> clean_stop w a)"
    unfolding run_def
    by (auto split: sum.splits prod.splits) (metis serve_result fst_conv snd_conv)+
qed (rule run_life)

text \<open>
  The process listens only with a configuration that was validated, at the address it names.
\<close>
theorem run_listens_validated:
  "{a. Listen a \<in> set (snd (run w version showVersion path ctx s))} \<subseteq>
   {JoinHostPort (srv_Host (cfg_Server cfg)) (show_int (srv_Port (cfg_Server cfg))) | cfg.
      loadConfig (w_platform w) path = Inr cfg \<and> config_ok cfg}"
  by (auto simp: run_def loadConfig_ok split: sum.splits prod.splits if_splits)
    (metis serve_listens snd_conv)

text \<open>An endpoint of blanks passes validation, and the exporter is given an empty one.\<close>

theorem blank_endpoint_accepted:
  "\<exists>cfg. Load (bare_platform [(''BRIDGE_OTEL_ENABLED'', ''true''), (''BRIDGE_OTEL_ENDPOINT'', '' '')]) [] = Inr cfg \<and>
     exporterOptions \<lparr>pc_Endpoint = ot_Endpoint (cfg_OTel cfg), pc_Insecure = ot_Insecure (cfg_OTel cfg),
       pc_ServiceName = ot_ServiceName (cfg_OTel cfg), pc_ServiceVersion = v\<rparr> = [WithEndpoint [], WithInsecure]"
proof -
  let ?p = "bare_platform [(''BRIDGE_OTEL_ENABLED'', ''true''), (''BRIDGE_OTEL_ENDPOINT'', '' '')]"
  let ?cfg = "Default\<lparr>cfg_OTel := (cfg_OTel Default)\<lparr>ot_Enabled := True, ot_Endpoint := '' ''\<rparr>\<rparr>"
  have parse_true: "ParseBool ''true'' = Some True" by code_simp
  have "Load ?p [] = Inr ?cfg"
    unfolding Load_layers
    by (simp add: file_layer_def env_well_typed_def env_layer_def pick_def bare_platform_def parse_true
        config_ok_def Default_def config_names) (rule exI [of _ True], rule TrueI)
  moreover have "trim_space '' '' = []" "strings_Contains [] ''://'' = False" by code_simp+
  then have "exporterOptions \<lparr>pc_Endpoint = '' '', pc_Insecure = True, pc_ServiceName = n, pc_ServiceVersion = v\<rparr> =
      [WithEndpoint [], WithInsecure]" for n
    by (simp add: exporterOptions_def)
  ultimately show ?thesis by (auto simp: Default_def)
qed

end
