(* ===== verification/Bridge_Command.thy ===== *)
theory Bridge_Command
  imports Bridge_Main
begin

text \<open>
  The command line and the exit status of \<open>cmd/bridge/main.go\<close>: the two flags as the package \<open>flag\<close>
  parses them, what \<open>main\<close> makes of the result of \<open>run\<close>, and the options the server is built with.
\<close>

section \<open>Flags\<close>

text \<open>Parsing ends with the values of the flags, or ends the process with a status.\<close>

datatype flag_result = Flags string bool | FlagExit nat

fun split_value :: "string \<Rightarrow> string \<times> string option" where
  "split_value [] = ([], None)"
| "split_value (c # cs) =
     (if c = CHR ''='' then ([], Some cs)
      else case split_value cs of (name, value) \<Rightarrow> (c # name, value))"

text \<open>
  The name of a flag argument after one or two dashes, with the value given by an equals sign: the
  first character of a name is never taken for the sign. An argument that is no flag ends the list.
\<close>

datatype flag_arg = NoFlag | BadFlag | FlagNamed string "string option"

definition flag_of :: "string \<Rightarrow> flag_arg" where
  "flag_of arg =
     (if length arg < 2 \<or> arg ! 0 \<noteq> CHR ''-'' then NoFlag
      else if arg = ''--'' then NoFlag
      else
        let name = (if arg ! 1 = CHR ''-'' then drop 2 arg else drop 1 arg)
        in if name = [] \<or> name ! 0 = CHR ''-'' \<or> name ! 0 = CHR ''='' then BadFlag
           else case split_value (tl name) of (n, v) \<Rightarrow> FlagNamed (hd name # n) v)"

fun parse_flags :: "string list \<Rightarrow> string \<Rightarrow> bool \<Rightarrow> flag_result" where
  "parse_flags [] config version = Flags config version"
| "parse_flags (arg # args) config version =
     (case flag_of arg of
        NoFlag \<Rightarrow> Flags config version
      | BadFlag \<Rightarrow> FlagExit 2
      | FlagNamed name value \<Rightarrow>
          if name = ''version'' then
            (case value of
               None \<Rightarrow> parse_flags args config True
             | Some v \<Rightarrow>
                 (case ParseBool v of
                    None \<Rightarrow> FlagExit 2
                  | Some b \<Rightarrow> parse_flags args config b))
          else if name = ''config'' then
            (case value of
               Some v \<Rightarrow> parse_flags args v version
             | None \<Rightarrow>
                 (case args of
                    [] \<Rightarrow> FlagExit 2
                  | v # args' \<Rightarrow> parse_flags args' v version))
          else FlagExit (if name = ''help'' \<or> name = ''h'' then 0 else 2))"

section \<open>The process\<close>

text \<open>
  The exit status of the process, what \<open>main\<close> itself prints on the error stream, and what the process
  did; the usage text of the package \<open>flag\<close> is left out.
\<close>

definition bridge_main ::
  "('r, 'e, 'res) outside \<Rightarrow> string \<Rightarrow> string list \<Rightarrow> ctx \<Rightarrow> 'r \<Rightarrow> nat \<times> string \<times> action list" where
  "bridge_main w version args ctx s =
     (case parse_flags args [] False of
        FlagExit status \<Rightarrow> (status, [], [])
      | Flags path showVersion \<Rightarrow>
          (case run w version showVersion path ctx s of
             (Some err, acts) \<Rightarrow> (1, ''bridge: '' @ err_text err @ [CHR 0x0A], acts)
           | (None, acts) \<Rightarrow> (0, [], acts)))"

text \<open>The options \<open>run\<close> gives the server.\<close>

definition bridge_options :: "'s storage \<Rightarrow> string \<Rightarrow> Config \<Rightarrow> 's Options" where
  "bridge_options store version cfg =
     \<lparr>op_Host = srv_Host (cfg_Server cfg), op_Port = srv_Port (cfg_Server cfg), op_Storage = store,
      op_Correlator = Some NewEventGraph, op_Metrics = Some New_metrics, op_Version = version,
      op_Tracing = ot_Enabled (cfg_OTel cfg), op_ServiceName = ot_ServiceName (cfg_OTel cfg)\<rparr>"

text \<open>The handler the server is built around; its start time only shows in the uptime.\<close>

definition NewHandler ::
  "'s storage \<Rightarrow> event_graph \<Rightarrow> (stored_event list \<Rightarrow> stored_event list) \<Rightarrow> string \<Rightarrow> 's handler" where
  "NewHandler store corr visit version =
     \<lparr>h_storage = store, h_graph = corr, h_visit = visit, h_version = version\<rparr>"

section \<open>Lemmas\<close>

lemma split_value_plain: "CHR ''='' \<notin> set s \<Longrightarrow> split_value s = (s, None)"
  by (induction s) auto

lemma split_value_given: "CHR ''='' \<notin> set n \<Longrightarrow> split_value (n @ CHR ''='' # v) = (n, Some v)"
  by (induction n) auto

text \<open>Both spellings of a flag give its value, and the value that comes last counts.\<close>

lemma flag_of_bare:
  "flag_of ''-config'' = FlagNamed ''config'' None" "flag_of ''--config'' = FlagNamed ''config'' None"
  "flag_of ''-version'' = FlagNamed ''version'' None"
  by code_simp+

lemma flag_of_given: "flag_of (''-config='' @ path) = FlagNamed ''config'' (Some path)"
  using split_value_given [of "''onfig''" path] by (simp add: flag_of_def)

lemma parse_config:
  "parse_flags (''-config'' # path # args) c v = parse_flags args path v"
  "parse_flags (''--config'' # path # args) c v = parse_flags args path v"
  "parse_flags ((''-config='' @ path) # args) c v = parse_flags args path v"
  "parse_flags (''-version'' # args) c v = parse_flags args c True"
  by (subst parse_flags.simps(2), simp only: flag_of_bare flag_of_given flag_arg.case option.case list.case, simp)+

lemma flag_exit_status: "parse_flags args c v = FlagExit n \<Longrightarrow> n \<in> {0, 2}"
proof (induction args c v rule: parse_flags.induct)
  case (2 arg args config version)
  show ?case
  proof (cases "flag_of arg")
    case (FlagNamed nm val)
    note ih = "2.IH" [OF FlagNamed]
    from "2.prems" FlagNamed ih show ?thesis
      unfolding parse_flags.simps(2)
      by (auto simp del: parse_flags.simps split: option.splits list.splits if_splits)
  qed (use "2.prems" in auto)
qed simp

text \<open>The server listens where \<open>run\<close> says, with the correlator and the metrics it was given.\<close>

lemma bridge_server:
  "ns_addr (NewServer visit (bridge_options store version cfg)) =
     JoinHostPort (srv_Host (cfg_Server cfg)) (show_int (srv_Port (cfg_Server cfg)))"
  "ns_handler (NewServer visit (bridge_options store version cfg)) =
     NewHandler store NewEventGraph visit (if version = [] then ''dev'' else version)"
  "ns_tracing (NewServer visit (bridge_options store version cfg)) = None \<longleftrightarrow> \<not> ot_Enabled (cfg_OTel cfg)"
  by (simp_all add: NewServer_def bridge_options_def NewHandler_def Let_def)

text \<open>
  The exit status tells the three ways to end apart: 2 is for arguments that do not parse, and then
  nothing was acquired; 1 is for an error of \<open>run\<close>, which \<open>main\<close> prints.
  With an accepted command line, whatever was acquired is released.
\<close>

theorem bridge_main_exit:
  assumes "bridge_main w version args ctx s = (status, text, acts)"
  shows "status \<in> {0, 1, 2} \<and> (text \<noteq> [] \<longleftrightarrow> status = 1) \<and> (status = 2 \<longrightarrow> acts = []) \<and>
    (\<exists>ph \<in> {Idle, Released}. life (self_ended w) Idle acts = Some ph)"
proof (cases "parse_flags args [] False")
  case (FlagExit n)
  with assms flag_exit_status [OF FlagExit] show ?thesis by (auto simp: bridge_main_def)
next
  case (Flags path showVersion)
  obtain err as where "run w version showVersion path ctx s = (err, as)" by fastforce
  with assms Flags run_life [of w version showVersion path ctx s] show ?thesis
    by (cases err) (auto simp: bridge_main_def split: if_splits)
qed

text \<open>
  When the server stops with an error of its own the process ends without flushing the tracer: the
  spans that are still buffered are lost, although the tracer was started.
\<close>

theorem server_failure_skips_flush:
  assumes "ot_Enabled (cfg_OTel cfg)"
    and "w_listened w (JoinHostPort (srv_Host (cfg_Server cfg)) (show_int (srv_Port (cfg_Server cfg)))) = Some (Some err)"
    and "\<not> errors_is err http_ErrServerClosed"
    and "serve_until_stopped w version cfg = (result, acts)" "Listen a \<in> set acts"
  shows "result = Some (ErrWrap ''server failed: '' err []) \<and> (\<exists>os. StartTracer os \<in> set acts) \<and>
    ShutdownTracer \<notin> set acts"
  using assms
  by (auto simp: serve_until_stopped_def Let_def Server_Start_def split: sum.splits option.splits if_splits)

end
