(* ===== verification/Trace_Enrichment.thy ===== *)
theory Trace_Enrichment
  imports End_To_End Span_Processor
begin

text \<open>
  The whole path the program is for: a deployment is posted to the bridge, and a span that starts
  in the deployed service carries it. The span processor looks the service up in its cache, the
  cache asks the HTTP client, and the client asks the server over the memory backend.
\<close>

text \<open>The resolver of an instrumented service: the cache in front of the client of a bridge.\<close>

definition service_resolver ::
  "'s server \<Rightarrow> Client \<Rightarrow> gotime \<Rightarrow> (CachedResolver \<times> 's server_state) resolver" where
  "service_resolver sr c now =
     Cached_ResolveDeployment (Client_ResolveDeployment c (bridge_transport sr (baseURL c))) now"

lemma cached_miss:
  assumes "fresh_answer now (map_of (entries r) svc) = None" and "resolve ctx svc n = ((Some d, None), n')"
  shows "Cached_ResolveDeployment resolve now ctx svc (r, n) = ((Some d, None),
    store_entry svc \<lparr>entry_deployment = Some d, entry_err = None, expiresAt = Add now (cacheTTL r)\<rparr> r, n')"
  using assms by (simp add: Cached_ResolveDeployment_def finish_lookup_def)

lemma OnStart_found:
  assumes "sp_resolver p = Some resolve" and "span_service api p span = svc" and "svc \<noteq> []"
    and "resolve None svc s = ((Some d, None), s')"
  shows "OnStart api p (Some span) s = (Some (SetAttributes api (Attributes (Some d)) span), s')"
  using assms by (auto simp: OnStart_def span_service_code Let_def)

text \<open>What the post leaves for a lookup in the store.\<close>

lemma posted_lookup:
  assumes "router_contract (sr_match sr)" and "h_storage (sr_handler sr) = MemoryStorage rng"
    and "memory_plain (br_store (sv_bridge s))"
    and "acceptable req event" "IsDeployment event" "ToDeployment (Some event) = Some d"
    and "CHR 0x00 \<notin> set (dep_Service d)" and "dep_Environment d \<noteq> []"
    and "serve sr (post_request req) s = (out, hdr, s')"
  shows "(\<exists>text. out = Answered 201 text) \<and>
    store_lookup rng (dep_Service d) (dep_Environment d) (br_store (sv_bridge s')) = Inr d"
proof -
  obtain e where e: "ToStoredEvent (Some event) = Some e" using ToStoredEvent_Some by blast
  obtain resp br where post: "HandlePostEvent (sr_handler sr) None req 0 (sv_bridge s) = (resp, br)" by fastforce
  have a: "resp_status resp = 201" "memory_plain (br_store br)"
    "memory_deps (br_store br) (dep_Service d, dep_Environment d) = Some d"
    using accepted_post [OF assms(4,3,2,6) e assms(7) post] assms(5) by auto
  obtain hdr' t where "serve sr (post_request req) s =
      (Answered (resp_status resp) (snd (render (sr_num sr) (resp_body resp))), hdr', t)" "sv_bridge t = br"
    by (rule serve_post [OF assms(1) post])
  moreover have "fst (mem_GetDeployment None (dep_Service d) (dep_Environment d) (br_store br)) = Inr d"
    using mem.live_get_dep_eq [OF a(2), of "dep_Service d" "dep_Environment d"] a(3) assms(7)
    by (simp add: plain_service_def)
  ultimately show ?thesis
    using assms(8,9) a(1) by (auto simp: store_lookup_def)
qed

text \<open>
  C5. A deployment that was posted is on the next span of its service: the bridge answers the
  post with 201, and when the service, whose client asks for the environment of the deployment,
  starts a span with nothing fresh in its cache, the span gets exactly the attributes of that
  deployment, the cache keeps it for its time to live, and the bridge is not changed. The text of
  the deployment is valid and the response fits the limit of the client.
\<close>

theorem deployed_then_traced:
  assumes "router_contract (sr_match sr)" and "h_storage (sr_handler sr) = MemoryStorage rng"
    and "memory_plain (br_store (sv_bridge s))"
    and "acceptable req event" "IsDeployment event" "ToDeployment (Some event) = Some d"
    and "plain_segment (dep_Service d)" "CHR 0x00 \<notin> set (dep_Service d)"
    and "environment c = dep_Environment d" "dep_Environment d \<noteq> []"
    and "valid_deployment d"
    and "length (snd (render (sr_num sr) (resp_body (lookup_response (dep_Service d) (dep_Environment d) (Inr d)))))
      \<le> maxResponseBytes"
    and "serve sr (post_request req) s = (posted, hdr, s1)"
    and "sp_resolver p = Some (service_resolver sr c now)" "span_service api p span = dep_Service d"
    and "fresh_answer now (map_of (entries cache) (dep_Service d)) = None"
    and "OnStart api p (Some span) (cache, s1) = (out, cache', s2)"
  shows "(\<exists>text. posted = Answered 201 text) \<and>
    out = Some (SetAttributes api (Attributes (Some d)) span) \<and>
    map_of (entries cache') (dep_Service d) =
      Some \<lparr>entry_deployment = Some d, entry_err = None, expiresAt = Add now (cacheTTL cache)\<rparr> \<and>
    sv_bridge s2 = sv_bridge s1"
proof -
  let ?svc = "dep_Service d" and ?env = "dep_Environment d"
  let ?tr = "bridge_transport sr (baseURL c)"
  note post = posted_lookup [OF assms(1-6,8,10,13)]
  obtain a t where get: "Client_GetDeployment c ?tr None ?svc ?env s1 = (a, t)" by fastforce
  from remote_lookup [OF assms(1,2,7) _ _ assms(12) get] post assms(11)
  have a: "a = (Some d, None)" "sv_bridge t = sv_bridge s1" by auto
  let ?cache = "store_entry ?svc \<lparr>entry_deployment = Some d, entry_err = None,
      expiresAt = Add now (cacheTTL cache)\<rparr> cache"
  have "Client_ResolveDeployment c ?tr None ?svc s1 = ((Some d, None), t)"
    using get a(1) assms(9) by (simp add: Client_ResolveDeployment_def)
  then have "service_resolver sr c now None ?svc (cache, s1) = ((Some d, None), ?cache, t)"
    unfolding service_resolver_def by (rule cached_miss [OF assms(16)])
  moreover have "?svc \<noteq> []" using assms(7) by (simp add: plain_segment_def)
  ultimately have "out = Some (SetAttributes api (Attributes (Some d)) span)" "cache' = ?cache" "s2 = t"
    using OnStart_found [OF assms(14,15)] assms(17) by auto
  then show ?thesis
    using post a(2) by (simp add: store_entry_def)
qed

theorem deployed_then_traced_witness:
  "\<exists>span' rest. OnStart map_span_api
       (NewSpanProcessor (Some (service_resolver sample_server
          (NewClient ''http://bridge:8080/'' [WithEnvironment ''prod'']) zero_time)) [])
       (Some ([(ServiceNameKey, ''api'')], Map.empty))
       (NewCachedResolver [], snd (snd (serve sample_server (post_request (FullBody sample_post)) sample_state))) =
     (Some span', rest) \<and> snd span' DeploymentEventIDKey = Some ''d1''"
proof -
  let ?c = "NewClient ''http://bridge:8080/'' [WithEnvironment ''prod'']"
  let ?p = "NewSpanProcessor (Some (service_resolver sample_server ?c zero_time)) []"
  let ?sp = "([(ServiceNameKey, ''api'')], Map.empty)" and ?cache = "NewCachedResolver []"
  let ?post = "serve sample_server (post_request (FullBody sample_post)) sample_state"
  obtain e d where e: "acceptable (FullBody sample_post) e" "ToDeployment (Some e) = Some d"
    "IsDeployment e" "d = sample_posted" by (rule sample_post_parses)
  obtain posted hdr s1 where post: "?post = (posted, hdr, s1)" by (metis prod.collapse)
  obtain out cache' s2 where os: "OnStart map_span_api ?p (Some ?sp) (?cache, s1) = (out, cache', s2)"
    by (metis prod.collapse)
  have d: "dep_Service d = ''api''" "dep_Environment d = ''prod''" "dep_EventID d = ''d1''"
    by (simp_all add: e(4) sample_posted_def)
  have r: "router_contract (sr_match sample_server)"
    using segments.router_contract_axioms by (simp add: sample_server_def)
  have h: "h_storage (sr_handler sample_server) = MemoryStorage stored_order"
    by (simp add: sample_server_def sample_handler_def)
  have plain: "memory_plain (br_store (sv_bridge sample_state))"
    using sample_bridge_plain by (simp add: sample_state_def)
  have "length (snd (render (sr_num sample_server) (resp_body (lookup_response ''api'' ''prod'' (Inr sample_posted)))))
      \<le> 700" by code_simp
  then have fits: "length (snd (render (sr_num sample_server)
      (resp_body (lookup_response (dep_Service d) (dep_Environment d) (Inr d))))) \<le> maxResponseBytes"
    using d(1,2) by (simp add: e(4) maxResponseBytes_def)
  have v: "valid_deployment d" unfolding e(4) by code_simp
  have p: "sp_resolver ?p = Some (service_resolver sample_server ?c zero_time)"
    by (simp add: NewSpanProcessor_def)
  have sv: "span_service map_span_api ?p ?sp = dep_Service d"
    by (simp add: d span_service_code NewSpanProcessor_def serviceNameFromResource_def map_span_api_def)
  have f: "fresh_answer zero_time (map_of (entries ?cache) (dep_Service d)) = None"
    by (simp add: NewCachedResolver_def fresh_answer_def)
  from deployed_then_traced [OF r h plain e(1,3,2) _ _ _ _ v fits post p sv f os]
  have "out = Some (SetAttributes map_span_api (Attributes (Some d)) ?sp)"
    by (simp add: d plain_segment_def NewClient_def WithEnvironment_def)
  moreover have "map_of (Attributes (Some d)) DeploymentEventIDKey = Some ''d1''"
    by (simp add: e(4)) code_simp
  ultimately show ?thesis
    using os post by (simp add: map_span_api_def)
qed

end
