(* ===== verification/Client_Options.thy ===== *)
theory Client_Options
  imports Bridge_Client
begin

text \<open>
  The construction of the client in \<open>pkg/otelbridge/client.go\<close>, with the \<open>http.Client\<close> it holds by
  pointer. The options write through that pointer, so the objects live in a heap from addresses to
  their \<open>Timeout\<close> fields, and two clients may share one.
\<close>

type_synonym http_heap = "nat \<rightharpoonup> duration"

record client_vars =
  cv_client :: Client
  cv_httpClient :: nat

definition DefaultRequestTimeout :: duration where
  "DefaultRequestTimeout = 2 * second"

text \<open>The options, each with what its closure captures; a missing address is the \<open>nil\<close> pointer.\<close>

datatype client_option =
    WithHTTPClient "nat option"
  | WithEnvironmentOf string
  | WithRequestTimeout duration

fun apply_option :: "client_option \<Rightarrow> client_vars \<times> http_heap \<Rightarrow> client_vars \<times> http_heap" where
  "apply_option (WithHTTPClient httpClient) (c, heap) =
     (case httpClient of Some r \<Rightarrow> (c\<lparr>cv_httpClient := r\<rparr>, heap) | None \<Rightarrow> (c, heap))"
| "apply_option (WithEnvironmentOf env) (c, heap) =
     (c\<lparr>cv_client := WithEnvironment env (cv_client c)\<rparr>, heap)"
| "apply_option (WithRequestTimeout timeout) (c, heap) =
     (if 0 < timeout then (c, heap(cv_httpClient c \<mapsto> timeout)) else (c, heap))"

text \<open>The new object is allocated at an address nothing lives at.\<close>

definition NewClient_vars ::
  "nat \<Rightarrow> string \<Rightarrow> client_option list \<Rightarrow> http_heap \<Rightarrow> client_vars \<times> http_heap" where
  "NewClient_vars new url opts heap =
     fold apply_option opts
       (\<lparr>cv_client = \<lparr>baseURL = trim_right_slash url, environment = []\<rparr>, cv_httpClient = new\<rparr>,
        heap(new \<mapsto> DefaultRequestTimeout))"

section \<open>What the options leave\<close>

text \<open>The object a list of options selects, and the last timeout given after it was selected.\<close>

fun selected :: "client_option list \<Rightarrow> nat \<Rightarrow> nat" where
  "selected [] r = r"
| "selected (WithHTTPClient (Some r') # opts) r = selected opts r'"
| "selected (_ # opts) r = selected opts r"

fun given :: "client_option list \<Rightarrow> duration option \<Rightarrow> duration option" where
  "given [] t = t"
| "given (WithHTTPClient (Some r') # opts) t = given opts None"
| "given (WithRequestTimeout t' # opts) t = given opts (if 0 < t' then Some t' else t)"
| "given (_ # opts) t = given opts t"

definition passed :: "client_option list \<Rightarrow> nat set" where
  "passed opts = {r. WithHTTPClient (Some r) \<in> set opts}"

definition environments :: "client_option list \<Rightarrow> ClientOption list" where
  "environments opts = concat (map (\<lambda>opt. case opt of WithEnvironmentOf env \<Rightarrow> [WithEnvironment env] | _ \<Rightarrow> []) opts)"

lemma options_client:
  "cv_client (fst (fold apply_option opts (c, heap))) = fold (\<lambda>opt c. opt c) (environments opts) (cv_client c)"
proof (induction opts arbitrary: c heap)
  case (Cons opt opts)
  then show ?case by (cases opt) (simp_all add: environments_def split: option.split)
qed (simp add: environments_def)

lemma options_selected: "cv_httpClient (fst (fold apply_option opts (c, heap))) = selected opts (cv_httpClient c)"
proof (induction opts arbitrary: c heap)
  case (Cons opt opts)
  then show ?case by (cases "(opt # opts, cv_httpClient c)" rule: selected.cases) simp_all
qed simp

lemma options_frame:
  "r \<noteq> cv_httpClient c \<Longrightarrow> r \<notin> passed opts \<Longrightarrow> snd (fold apply_option opts (c, heap)) r = heap r"
proof (induction opts arbitrary: c heap)
  case (Cons opt opts)
  have tl: "r \<notin> passed opts" using Cons.prems by (simp add: passed_def)
  show ?case
  proof (cases opt)
    case (WithHTTPClient q)
    with Cons.prems have "q \<noteq> Some r" by (auto simp: passed_def)
    with WithHTTPClient Cons.prems tl show ?thesis
      by (cases q) (simp_all add: Cons.IH)
  qed (use Cons.prems tl in \<open>simp_all add: Cons.IH\<close>)
qed simp

lemma options_timeout:
  assumes "\<forall>t. pending = Some t \<longrightarrow> heap (cv_httpClient c) = Some t"
  shows "\<forall>t. given opts pending = Some t \<longrightarrow>
    snd (fold apply_option opts (c, heap)) (selected opts (cv_httpClient c)) = Some t"
  using assms
proof (induction opts arbitrary: c heap pending)
  case (Cons opt opts)
  show ?case
  proof (cases opt)
    case (WithHTTPClient r)
    show ?thesis
    proof (cases r)
      case (Some r')
      with WithHTTPClient Cons.IH [where pending = None and c = "c\<lparr>cv_httpClient := r'\<rparr>"] show ?thesis
        by simp
    qed (use WithHTTPClient Cons.prems in \<open>simp add: Cons.IH\<close>)
  next
    case (WithEnvironmentOf env)
    with Cons.prems Cons.IH [of pending heap "c\<lparr>cv_client := WithEnvironment env (cv_client c)\<rparr>"]
    show ?thesis by simp
  next
    case (WithRequestTimeout t)
    with Cons.prems Cons.IH [of "Some t" "heap(cv_httpClient c \<mapsto> t)" c] Cons.IH [of pending heap c]
    show ?thesis by (simp add: fun_upd_def)
  qed
qed simp

text \<open>
  The client as the lookups see it is the one the options for the environment make; the object it
  uses is the one passed last, else its own; objects that were not passed are left alone; and the
  timeout given last after that object was passed is the timeout of the object.
\<close>

lemma NewClient_vars_spec:
  assumes "NewClient_vars new url opts heap = (c, heap')"
  shows "cv_client c = NewClient url (environments opts)"
    and "cv_httpClient c = selected opts new"
    and "r \<noteq> new \<Longrightarrow> r \<notin> passed opts \<Longrightarrow> heap' r = heap r"
    and "given opts (Some DefaultRequestTimeout) = Some t \<Longrightarrow> heap' (cv_httpClient c) = Some t"
proof -
  let ?c = "\<lparr>cv_client = \<lparr>baseURL = trim_right_slash url, environment = []\<rparr>, cv_httpClient = new\<rparr>"
    and ?heap = "heap(new \<mapsto> DefaultRequestTimeout)"
  have f: "fold apply_option opts (?c, ?heap) = (c, heap')"
    using assms by (simp add: NewClient_vars_def)
  show "cv_client c = NewClient url (environments opts)"
    using options_client [of opts ?c ?heap] f by (simp add: NewClient_def)
  show s: "cv_httpClient c = selected opts new"
    using options_selected [of opts ?c ?heap] f by simp
  show "r \<noteq> new \<Longrightarrow> r \<notin> passed opts \<Longrightarrow> heap' r = heap r"
    using options_frame [of r ?c opts ?heap] f by simp
  show "given opts (Some DefaultRequestTimeout) = Some t \<Longrightarrow> heap' (cv_httpClient c) = Some t"
    using options_timeout [of "Some DefaultRequestTimeout" ?heap ?c opts] f s by simp
qed

text \<open>
  A timeout is written into the object that was passed, so it is the timeout of every other
  holder of that object as well, such as the default client of the process; and a timeout given
  before the object is passed has no effect on the client.
\<close>

theorem request_timeout_shared:
  assumes "0 < t" and "r \<noteq> new"
  shows "NewClient_vars new url [WithHTTPClient (Some r), WithRequestTimeout t] heap =
      (\<lparr>cv_client = NewClient url [], cv_httpClient = r\<rparr>, heap(new \<mapsto> DefaultRequestTimeout, r \<mapsto> t))"
    and "snd (NewClient_vars new url [WithRequestTimeout t, WithHTTPClient (Some r)] heap) r = heap r"
  using assms by (simp_all add: NewClient_vars_def NewClient_def)

end
