(* ===== verification/Concurrent_Ingestion.thy ===== *)
theory Concurrent_Ingestion
  imports Handler_Facts
begin

text \<open>
  Concurrent ingestions. The server runs every request in a goroutine of its own, so the handler
  of \<open>internal/api/handlers.go\<close> that posts an event interleaves with others between its accesses to
  shared state: the two saves, each under the lock of the backend, and the updates of the metrics.
  Here the handler is cut at these accesses, a schedule says whose turn it is, and the handler of
  \<^theory_text>\<open>Handlers\<close> is what a request computes that is left alone.
\<close>

section \<open>The handler, one access at a time\<close>

text \<open>Where the handler of a request stands, with what its local variables hold there.\<close>

datatype post =
    Arrived request_body
  | SavingDeployment cdevent
  | SavingEvent cdevent
  | Counting cdevent
  | Observing cdevent
  | Rejecting string response
  | Replied response

text \<open>Reading, parsing and validating touch no shared state.\<close>

definition admit :: "request_body \<Rightarrow> post" where
  "admit req =
     (case read_all req of
        Inl MaxBytesError \<Rightarrow>
          Rejecting rejectTooLarge (respondError 413 errPayloadTooLarge ''Request body exceeds 1048576 bytes'')
      | Inl (ReadError err) \<Rightarrow>
          Rejecting rejectUnreadable (respondError 400 errInvalidRequest ''Failed to read request body'')
      | Inr body \<Rightarrow>
     (case Parse body of
        Inl err \<Rightarrow>
          Rejecting rejectParse (respondError 400 errInvalidEvent (''Failed to parse CDEvent: '' @ err_text err))
      | Inr event \<Rightarrow>
     (case Validate (Some event) of
        Some err \<Rightarrow>
          Rejecting rejectValidation
            (respondError 400 errValidation (''CDEvent validation failed: '' @ err_text err))
      | None \<Rightarrow> if IsDeployment event then SavingDeployment event else SavingEvent event)))"

definition accepted_response :: "cdevent \<Rightarrow> response" where
  "accepted_response event =
     respondJSON 201
       (SuccessResponse ''accepted'' (ctx_ID (Context event)) (ctx_Type (Context event))
         (FormatRFC3339 (UTC (ctx_Timestamp (Context event)))))"

fun post_step :: "'s handler \<Rightarrow> ctx \<Rightarrow> duration \<Rightarrow> post \<times> 's bridge \<Rightarrow> post \<times> 's bridge" where
  "post_step h ctx elapsed (Arrived req, br) = (admit req, br)"
| "post_step h ctx elapsed (SavingDeployment event, br) =
     (case SaveDeployment (h_storage h) ctx (ToDeployment (Some event)) (br_store br) of
        (Inl err, s) \<Rightarrow>
          (Rejecting rejectStorage (respondError 500 errStorage ''Failed to save deployment''),
           br\<lparr>br_store := s\<rparr>)
      | (Inr _, s) \<Rightarrow> (SavingEvent event, br\<lparr>br_store := s\<rparr>))"
| "post_step h ctx elapsed (SavingEvent event, br) =
     (case SaveEvent (h_storage h) ctx (ToStoredEvent (Some event)) (br_store br) of
        (Inl err, s) \<Rightarrow>
          (Rejecting rejectStorage (respondError 500 errStorage ''Failed to save event''),
           br\<lparr>br_store := s\<rparr>)
      | (Inr _, s) \<Rightarrow> (Counting event, br\<lparr>br_store := s\<rparr>))"
| "post_step h ctx elapsed (Counting event, br) =
     (Observing event, br\<lparr>br_metrics := EventReceived (event_ShortType event) (br_metrics br)\<rparr>)"
| "post_step h ctx elapsed (Observing event, br) =
     (Replied (accepted_response event), br\<lparr>br_metrics := ObserveProcessing elapsed (br_metrics br)\<rparr>)"
| "post_step h ctx elapsed (Rejecting reason resp, br) =
     (Replied resp, br\<lparr>br_metrics := EventRejected reason (br_metrics br)\<rparr>)"
| "post_step h ctx elapsed (Replied resp, br) = (Replied resp, br)"

lemma five_steps: "(f ^^ 5) x = f (f (f (f (f x))))"
  by (simp add: numeral_eq_Suc)

text \<open>A request that is left alone is answered by its fifth step, as the handler answers it.\<close>

lemma post_steps_alone:
  "(post_step h ctx elapsed ^^ 5) (Arrived req, br) =
     (let (resp, br') = HandlePostEvent h ctx req elapsed br in (Replied resp, br'))"
proof (cases "admit req")
  case (Rejecting reason resp)
  then have "HandlePostEvent h ctx req elapsed br =
      (resp, br\<lparr>br_metrics := EventRejected reason (br_metrics br)\<rparr>)"
    by (auto simp: admit_def HandlePostEvent_def split: sum.splits read_error.splits option.splits if_splits)
  with Rejecting show ?thesis by (simp add: five_steps)
next
  case (SavingDeployment event)
  then obtain body where "read_all req = Inr body" "Parse body = Inr event" "Validate (Some event) = None"
    "IsDeployment event"
    by (auto simp: admit_def split: sum.splits read_error.splits option.splits if_splits)
  with SavingDeployment show ?thesis
    by (simp add: five_steps HandlePostEvent_def accepted_response_def Let_def split: prod.split sum.split)
next
  case (SavingEvent event)
  then obtain body where "read_all req = Inr body" "Parse body = Inr event" "Validate (Some event) = None"
    "\<not> IsDeployment event"
    by (auto simp: admit_def split: sum.splits read_error.splits option.splits if_splits)
  with SavingEvent show ?thesis
    by (simp add: five_steps HandlePostEvent_def accepted_response_def Let_def split: prod.split sum.split)
qed (auto simp: admit_def split: sum.splits read_error.splits option.splits if_splits)

lemma admit_accepts:
  "admit req = SavingDeployment event \<longleftrightarrow> acceptable req event \<and> IsDeployment event"
  "admit req = SavingEvent event \<longleftrightarrow> acceptable req event \<and> \<not> IsDeployment event"
  by (auto simp: admit_def acceptable_def split: sum.splits read_error.splits option.splits)

lemma admit_shapes:
  obtains (deployment) event where "admit req = SavingDeployment event"
  | (plain) event where "admit req = SavingEvent event"
  | (rejected) reason resp where "admit req = Rejecting reason resp" "resp_status resp \<noteq> 201"
proof -
  have "case admit req of SavingDeployment _ \<Rightarrow> True | SavingEvent _ \<Rightarrow> True
    | Rejecting reason resp \<Rightarrow> resp_status resp \<noteq> 201 | _ \<Rightarrow> False"
    by (simp add: admit_def split: sum.split read_error.split option.split)
  with that show ?thesis by (cases "admit req") simp_all
qed

section \<open>Schedules\<close>

text \<open>
  The requests in flight and the bridge they share; one turn moves one of them. \<open>ctx\<close> gives the state
  of the context of each request at this turn.
\<close>

definition turn ::
  "'s handler \<Rightarrow> (nat \<Rightarrow> ctx) \<Rightarrow> (nat \<Rightarrow> duration) \<Rightarrow> nat \<Rightarrow> post list \<times> 's bridge \<Rightarrow> post list \<times> 's bridge" where
  "turn h ctx elapsed i sys =
     (case sys of (ps, br) \<Rightarrow>
        if i < length ps
        then (case post_step h (ctx i) (elapsed i) (ps ! i, br) of (p, br') \<Rightarrow> (ps[i := p], br'))
        else (ps, br))"

text \<open>
  A schedule names the request of every turn. The context of a request is looked at again in each
  of its turns: \<open>ctx t i\<close> is what request \<open>i\<close> finds it to be in turn \<open>t\<close>, so a client may go away
  between any two accesses, in particular between the two saves.
\<close>

definition run_schedule ::
  "'s handler \<Rightarrow> (nat \<Rightarrow> nat \<Rightarrow> ctx) \<Rightarrow> (nat \<Rightarrow> duration) \<Rightarrow> request_body list \<Rightarrow> nat list \<Rightarrow> 's bridge \<Rightarrow>
   post list \<times> 's bridge" where
  "run_schedule h ctx elapsed reqs sched br =
     fold (\<lambda>(t, i). turn h (ctx t) elapsed i) (enumerate 0 sched) (map Arrived reqs, br)"

text \<open>The same requests one after the other.\<close>

definition post_in_order ::
  "'s handler \<Rightarrow> (nat \<Rightarrow> duration) \<Rightarrow> request_body list \<Rightarrow> nat list \<Rightarrow> 's bridge \<Rightarrow> 's bridge" where
  "post_in_order h elapsed reqs order br =
     fold (\<lambda>i br. snd (HandlePostEvent h None (reqs ! i) (elapsed i) br)) order br"

lemma run_nil [simp]: "run_schedule h ctx elapsed reqs [] br = (map Arrived reqs, br)"
  by (simp add: run_schedule_def)

lemma run_snoc:
  "run_schedule h ctx elapsed reqs (sched @ [i]) br =
     turn h (ctx (length sched)) elapsed i (run_schedule h ctx elapsed reqs sched br)"
  by (simp add: run_schedule_def enumerate_append_eq)

lemma run_constant:
  "run_schedule h (\<lambda>_. ctx) elapsed reqs sched br = fold (turn h ctx elapsed) sched (map Arrived reqs, br)"
  by (induction sched rule: rev_induct) (simp_all add: run_snoc)

lemma turn_length: "length (fst (turn h ctx elapsed i sys)) = length (fst sys)"
  by (simp add: turn_def split: prod.split)

lemma run_length [simp]: "length (fst (run_schedule h ctx elapsed reqs sched br)) = length reqs"
  by (induction sched rule: rev_induct) (simp_all add: run_snoc turn_length)

section \<open>Accounting\<close>

text \<open>Which requests have been counted, and as what.\<close>

definition answered :: "(int \<Rightarrow> bool) \<Rightarrow> post \<Rightarrow> bool" where
  "answered P p \<longleftrightarrow> (case p of Replied resp \<Rightarrow> P (resp_status resp) | _ \<Rightarrow> False)"

definition observing :: "post \<Rightarrow> bool" where
  "observing p \<longleftrightarrow> (case p of Observing _ \<Rightarrow> True | _ \<Rightarrow> False)"

text \<open>What a handler is about to refuse it does not answer with 201.\<close>

definition refuses_ok :: "post \<Rightarrow> bool" where
  "refuses_ok p \<longleftrightarrow> (case p of Rejecting _ resp \<Rightarrow> resp_status resp \<noteq> 201 | _ \<Rightarrow> True)"

abbreviation many :: "('a \<Rightarrow> bool) \<Rightarrow> 'a list \<Rightarrow> nat" where
  "many P xs \<equiv> length (filter P xs)"

lemma many_update:
  "i < length xs \<Longrightarrow>
     many P (xs[i := x]) + of_bool (P (xs ! i)) = many P xs + of_bool (P x)"
proof (induction xs arbitrary: i)
  case (Cons y xs)
  then show ?case
    by (cases i) (auto dest: Cons.IH [of "i - 1"] split: if_splits)
qed simp

definition counts_match :: "metrics \<Rightarrow> post list \<Rightarrow> metrics \<Rightarrow> bool" where
  "counts_match m0 ps m \<longleftrightarrow>
     gomap_ok (received m) \<and> gomap_ok (rejected m) \<and>
     total (received m) = total (received m0) + many observing ps + many (answered (\<lambda>st. st = 201)) ps \<and>
     length (durations m) = length (durations m0) + many (answered (\<lambda>st. st = 201)) ps \<and>
     total (rejected m) = total (rejected m0) + many (answered (\<lambda>st. st \<noteq> 201)) ps"

lemma accepted_status [simp]: "resp_status (accepted_response event) = 201"
  by (simp add: accepted_response_def)

lemma admit_refuses_ok: "refuses_ok (admit req) \<and> \<not> observing (admit req) \<and> \<not> answered P (admit req)"
  by (cases req rule: admit_shapes) (simp_all add: refuses_ok_def observing_def answered_def)

text \<open>What one turn adds to the metrics is what it changes of the state of its request.\<close>

lemma post_step_counts:
  assumes "post_step h ctx elapsed (q, br) = (p, br')" and "refuses_ok q"
    and "gomap_ok (received (br_metrics br))" and "gomap_ok (rejected (br_metrics br))"
  shows "refuses_ok p \<and> gomap_ok (received (br_metrics br')) \<and> gomap_ok (rejected (br_metrics br')) \<and>
    total (received (br_metrics br')) + of_bool (observing q) + of_bool (answered (\<lambda>st. st = 201) q) =
      total (received (br_metrics br)) + of_bool (observing p) + of_bool (answered (\<lambda>st. st = 201) p) \<and>
    length (durations (br_metrics br')) + of_bool (answered (\<lambda>st. st = 201) q) =
      length (durations (br_metrics br)) + of_bool (answered (\<lambda>st. st = 201) p) \<and>
    total (rejected (br_metrics br')) + of_bool (answered (\<lambda>st. st \<noteq> 201) q) =
      total (rejected (br_metrics br)) + of_bool (answered (\<lambda>st. st \<noteq> 201) p)"
proof (cases q)
  case (Arrived req)
  then have "\<not> observing q" "\<not> answered P q" for P
    by (simp_all add: observing_def answered_def)
  with Arrived assms admit_refuses_ok [of req] show ?thesis
    by auto
qed (use assms in \<open>auto simp: refuses_ok_def observing_def answered_def EventReceived_def
  EventRejected_def ObserveProcessing_def total_inc split: prod.splits sum.splits\<close>)

lemma run_counts:
  assumes "metrics_ok (br_metrics br)" and "run_schedule h ctx elapsed reqs sched br = (ps, br')"
  shows "(\<forall>p \<in> set ps. refuses_ok p) \<and> counts_match (br_metrics br) ps (br_metrics br')"
  using assms(2)
proof (induction sched arbitrary: ps br' rule: rev_induct)
  case Nil
  with assms(1) show ?case
    by (auto simp: counts_match_def metrics_ok_def refuses_ok_def observing_def answered_def
        filter_empty_conv)
next
  case (snoc i sched)
  obtain qs b where run: "run_schedule h ctx elapsed reqs sched br = (qs, b)" by fastforce
  obtain p b' where st: "post_step h (ctx (length sched) i) (elapsed i) (qs ! i, b) = (p, b')" by fastforce
  from snoc.IH [OF run] have ih: "\<forall>q \<in> set qs. refuses_ok q" "counts_match (br_metrics br) qs (br_metrics b)"
    by auto
  show ?case
  proof (cases "i < length qs")
    case True
    with ih(1) have "refuses_ok (qs ! i)" by simp
    note n = post_step_counts [OF st this] and upd = many_update [OF True, of _ p]
    from snoc.prems True have "ps = qs[i := p]" "br' = b'"
      by (auto simp: run_snoc run turn_def st)
    moreover have "counts_match (br_metrics br) (qs[i := p]) (br_metrics b')"
      using n ih(2) upd [of observing] upd [of "answered (\<lambda>st. st = 201)"] upd [of "answered (\<lambda>st. st \<noteq> 201)"]
      unfolding counts_match_def by linarith
    ultimately show ?thesis
      using n ih by (auto simp: counts_match_def dest!: subsetD [OF set_update_subset_insert])
  next
    case False
    with snoc.prems ih show ?thesis by (simp add: run_snoc run turn_def)
  qed
qed

end
