(* ===== verification/Serialisable_Ingestion.thy ===== *)
theory Serialisable_Ingestion
  imports Concurrent_Ingestion
begin

text \<open>
  Properties of concurrent ingestions. On a backend that does not fail, what a schedule leaves in
  the store is determined by the order of the first and of the second saves; for events with
  different ids that is what some sequential order leaves. The results are proved for every
  backend that meets the contract \<^theory_text>\<open>storage_live\<close> and stated for the memory backend.
\<close>

section \<open>Serialisability\<close>

text \<open>
  On a backend that does not fail a request runs through the same states whatever the others do;
  \<open>stage\<close> is its state after some turns.
\<close>

fun advance :: "post \<Rightarrow> post" where
  "advance (Arrived req) = admit req"
| "advance (SavingDeployment event) = SavingEvent event"
| "advance (SavingEvent event) = Counting event"
| "advance (Counting event) = Observing event"
| "advance (Observing event) = Replied (accepted_response event)"
| "advance (Rejecting reason resp) = Replied resp"
| "advance (Replied resp) = Replied resp"

definition stage :: "request_body \<Rightarrow> nat \<Rightarrow> post" where
  "stage req k = (advance ^^ k) (Arrived req)"

definition finished :: "post \<Rightarrow> bool" where
  "finished p \<longleftrightarrow> (\<exists>resp. p = Replied resp)"

text \<open>What a request writes, if it writes.\<close>

definition write_dep :: "request_body \<Rightarrow> deployment option" where
  "write_dep req = (case admit req of SavingDeployment event \<Rightarrow> ToDeployment (Some event) | _ \<Rightarrow> None)"

definition write_ev :: "request_body \<Rightarrow> stored_event option" where
  "write_ev req =
     (case admit req of SavingDeployment event \<Rightarrow> ToStoredEvent (Some event)
      | SavingEvent event \<Rightarrow> ToStoredEvent (Some event) | _ \<Rightarrow> None)"

definition put :: "('a \<Rightarrow> 'k) \<Rightarrow> 'a option \<Rightarrow> ('k \<Rightarrow> 'a option) \<Rightarrow> 'k \<Rightarrow> 'a option" where
  "put key w m = (case w of None \<Rightarrow> m | Some v \<Rightarrow> m(key v \<mapsto> v))"

abbreviation dep_key :: "deployment \<Rightarrow> string \<times> string" where
  "dep_key d \<equiv> (dep_Service d, dep_Environment d)"

lemma stage_0 [simp]: "stage req 0 = Arrived req"
  by (simp add: stage_def)

lemma stage_Suc [simp]: "stage req (Suc k) = advance (stage req k)"
  by (simp add: stage_def)

lemma stage_late: "finished (stage req (k + 5))"
proof (induction k)
  case 0
  then show ?case
    by (cases req rule: admit_shapes) (simp_all add: eval_nat_numeral finished_def)
next
  case (Suc k)
  moreover have "stage req (Suc k + 5) = advance (stage req (k + 5))"
    by (simp flip: stage_Suc)
  ultimately show ?case by (auto simp: finished_def)
qed

lemma stage_done: "5 \<le> k \<Longrightarrow> finished (stage req k)"
  using stage_late [of req "k - 5"] by simp

lemma stage_saving:
  "stage req k = SavingDeployment event \<longleftrightarrow> k = 1 \<and> admit req = SavingDeployment event"
  "stage req k = SavingEvent event \<longleftrightarrow>
     k = 1 \<and> admit req = SavingEvent event \<or> k = 2 \<and> admit req = SavingDeployment event"
proof -
  consider "k = 0" | "k = 1" | "k = 2" | "k = 3" | "k = 4" | "5 \<le> k" by linarith
  then have "(stage req k = SavingDeployment event \<longleftrightarrow> k = 1 \<and> admit req = SavingDeployment event) \<and>
    (stage req k = SavingEvent event \<longleftrightarrow>
      k = 1 \<and> admit req = SavingEvent event \<or> k = 2 \<and> admit req = SavingDeployment event)"
  proof cases
    case 6
    with stage_done [OF 6, of req] show ?thesis by (auto simp: finished_def)
  qed (cases req rule: admit_shapes; auto simp: eval_nat_numeral)+
  then show "stage req k = SavingDeployment event \<longleftrightarrow> k = 1 \<and> admit req = SavingDeployment event"
    "stage req k = SavingEvent event \<longleftrightarrow>
     k = 1 \<and> admit req = SavingEvent event \<or> k = 2 \<and> admit req = SavingDeployment event"
    by blast+
qed

text \<open>The requests that have taken the turn in which they write, in the order in which they took it.\<close>

primrec turns_back :: "(nat \<Rightarrow> nat option) \<Rightarrow> nat list \<Rightarrow> nat list" where
  "turns_back f [] = []"
| "turns_back f (i # sched) =
     turns_back f sched @ (if f i = Some (count_list sched i) then [i] else [])"

definition turns :: "(nat \<Rightarrow> nat option) \<Rightarrow> nat list \<Rightarrow> nat list" where
  "turns f sched = turns_back f (rev sched)"

lemma count_rev [simp]: "count_list (rev xs) x = count_list xs x"
  by (induction xs) simp_all

lemma turns_nil [simp]: "turns f [] = []"
  by (simp add: turns_def)

lemma turns_snoc: "turns f (sched @ [i]) = turns f sched @ (if f i = Some (count_list sched i) then [i] else [])"
  by (simp add: turns_def)

lemma turns_taken: "i \<in> set (turns f sched) \<longleftrightarrow> (\<exists>k. f i = Some k \<and> k < count_list sched i)"
  by (induction sched rule: rev_induct) (auto simp: turns_snoc less_Suc_eq)

lemma turns_distinct: "distinct (turns f sched)"
  by (induction sched rule: rev_induct) (auto simp: turns_snoc turns_taken)

definition dep_turn :: "request_body list \<Rightarrow> nat \<Rightarrow> nat option" where
  "dep_turn reqs i = (if i < length reqs \<and> write_dep (reqs ! i) \<noteq> None then Some 1 else None)"

definition ev_turn :: "request_body list \<Rightarrow> nat \<Rightarrow> nat option" where
  "ev_turn reqs i =
     (if i < length reqs \<and> write_ev (reqs ! i) \<noteq> None
      then Some (if write_dep (reqs ! i) \<noteq> None then 2 else 1) else None)"

lemma stage_turns:
  assumes "i < length reqs"
  shows "dep_turn reqs i = Some k \<longleftrightarrow> (\<exists>event. stage (reqs ! i) k = SavingDeployment event)"
    and "ev_turn reqs i = Some k \<longleftrightarrow> (\<exists>event. stage (reqs ! i) k = SavingEvent event)"
  using assms
  by (cases "reqs ! i" rule: admit_shapes;
      auto simp: dep_turn_def ev_turn_def write_dep_def write_ev_def stage_saving)+

lemma stage_writes:
  "stage req k = SavingDeployment event \<Longrightarrow> write_dep req = ToDeployment (Some event)"
  "stage req k = SavingEvent event \<Longrightarrow> write_ev req = ToStoredEvent (Some event)"
  by (auto simp: stage_saving write_dep_def write_ev_def)

text \<open>What the two maps of a backend hold after the writes of some requests, in their order.\<close>

definition put_deps :: "request_body list \<Rightarrow> nat list \<Rightarrow> (string \<times> string \<Rightarrow> deployment option) \<Rightarrow>
    string \<times> string \<Rightarrow> deployment option" where
  "put_deps reqs = fold (\<lambda>i. put dep_key (write_dep (reqs ! i)))"

definition put_evs :: "request_body list \<Rightarrow> nat list \<Rightarrow> (string \<Rightarrow> stored_event option) \<Rightarrow>
    string \<Rightarrow> stored_event option" where
  "put_evs reqs = fold (\<lambda>i. put ev_ID (write_ev (reqs ! i)))"

lemma put_deps_snoc: "put_deps reqs (is @ js) m = put_deps reqs js (put_deps reqs is m)"
  by (simp add: put_deps_def)

lemma put_evs_snoc: "put_evs reqs (is @ js) m = put_evs reqs js (put_evs reqs is m)"
  by (simp add: put_evs_def)

lemma put_None: "put key None = (\<lambda>m. m)"
  by (simp add: put_def fun_eq_iff)

lemma fold_skip: "(\<And>i. i \<in> set is \<Longrightarrow> \<not> P i \<Longrightarrow> f i = (\<lambda>m. m)) \<Longrightarrow> fold f is = fold f (filter P is)"
  by (induction "is") (auto simp: fun_eq_iff)

text \<open>Writes under distinct keys commute.\<close>

lemma fold_put_at:
  assumes "i \<in> set is" and "\<And>j. j \<in> set is \<Longrightarrow> w j = Some (v j)" and "inj_on (\<lambda>j. key (v j)) (set is)"
  shows "fold (\<lambda>j. put key (w j)) is m (key (v i)) = Some (v i)"
  using assms
proof (induction "is" rule: rev_induct)
  case (snoc j js)
  show ?case
  proof (cases "j = i")
    case False
    with snoc.prems have "key (v j) \<noteq> key (v i)" by (auto simp: inj_on_def)
    with False snoc show ?thesis by (simp add: put_def)
  qed (simp add: put_def snoc.prems)
qed simp

lemma fold_put_frame:
  assumes "\<And>i v. i \<in> set is \<Longrightarrow> w i = Some v \<Longrightarrow> key v \<noteq> k"
  shows "fold (\<lambda>i. put key (w i)) is m k = m k"
  using assms by (induction "is" rule: rev_induct) (auto simp: put_def split: option.split)

lemma fold_put_perm:
  assumes "set is = set js" and "\<And>i. i \<in> set is \<Longrightarrow> w i = Some (v i)"
    and "inj_on (\<lambda>i. key (v i)) (set is)"
  shows "fold (\<lambda>i. put key (w i)) is m = fold (\<lambda>i. put key (w i)) js m"
proof
  fix k
  show "fold (\<lambda>i. put key (w i)) is m k = fold (\<lambda>i. put key (w i)) js m k"
  proof (cases "\<exists>i \<in> set is. key (v i) = k")
    case True
    with fold_put_at [of _ "is" w v key] fold_put_at [of _ js w v key] assms show ?thesis by auto
  next
    case False
    then have "key u \<noteq> k" if "i \<in> set is" "w i = Some u" for i u
      using that assms(2) by auto
    then have "fold (\<lambda>i. put key (w i)) is m k = m k" "fold (\<lambda>i. put key (w i)) js m k = m k"
      using assms(1) by (auto intro!: fold_put_frame)
    then show ?thesis by simp
  qed
qed

definition keys_ok :: "(string \<Rightarrow> string \<Rightarrow> bool) \<Rightarrow> request_body list \<Rightarrow> bool" where
  "keys_ok ok reqs \<longleftrightarrow>
     (\<forall>req \<in> set reqs. \<forall>d. write_dep req = Some d \<longrightarrow> ok (dep_Service d) (dep_Environment d))"

lemma acceptable_unique: "acceptable req event \<Longrightarrow> acceptable req event' \<Longrightarrow> event' = event"
  by (auto simp: acceptable_def)

lemma write_dep_iff: "write_dep req = Some d \<longleftrightarrow>
    (\<exists>event. acceptable req event \<and> IsDeployment event \<and> ToDeployment (Some event) = Some d)"
proof (cases req rule: admit_shapes)
  case (rejected reason resp)
  then have "\<not> acceptable req event" for event
    using admit_accepts [of req event] by auto
  with rejected show ?thesis by (simp add: write_dep_def)
next
  case (deployment event)
  then have a: "acceptable req event" "IsDeployment event" by (simp_all add: admit_accepts)
  have "acceptable req e \<longleftrightarrow> e = event" for e
    using a(1) acceptable_unique [OF a(1)] by blast
  with deployment a show ?thesis by (simp add: write_dep_def)
next
  case (plain event)
  then have a: "acceptable req event" "\<not> IsDeployment event" by (simp_all add: admit_accepts)
  have "acceptable req e \<longleftrightarrow> e = event" for e
    using a(1) acceptable_unique [OF a(1)] by blast
  with plain a show ?thesis by (simp add: write_dep_def)
qed

text \<open>
  What a handler holds belongs to its request; and when a request holds back the event of a
  deployment it has saved: it is about to save the event, or it could not because its client was
  gone, and then it refuses the request with status 500.
\<close>

definition from_request :: "request_body \<Rightarrow> post \<Rightarrow> bool" where
  "from_request req p \<longleftrightarrow>
     (case p of Arrived r \<Rightarrow> r = req | SavingDeployment event \<Rightarrow> acceptable req event \<and> IsDeployment event
      | SavingEvent event \<Rightarrow> acceptable req event | _ \<Rightarrow> True)"

definition holds_back :: "request_body \<Rightarrow> post \<Rightarrow> bool \<Rightarrow> deployment \<Rightarrow> bool" where
  "holds_back req p gone d \<longleftrightarrow>
     (\<exists>event. acceptable req event \<and> IsDeployment event \<and> ToDeployment (Some event) = Some d \<and>
        (p = SavingEvent event \<or>
         gone \<and> (\<exists>resp. resp_status resp = 500 \<and> p \<in> {Rejecting rejectStorage resp, Replied resp})))"

text \<open>In one of its turns a request found its client gone.\<close>

definition client_gone :: "(nat \<Rightarrow> nat \<Rightarrow> ctx) \<Rightarrow> nat list \<Rightarrow> nat \<Rightarrow> bool" where
  "client_gone ctx sched i \<longleftrightarrow> (\<exists>t < length sched. sched ! t = i \<and> ctx t i \<noteq> None)"

lemma client_gone_snoc:
  "client_gone ctx (sched @ [i]) j \<longleftrightarrow> client_gone ctx sched j \<or> i = j \<and> ctx (length sched) j \<noteq> None"
  by (simp add: client_gone_def nth_append less_Suc_eq conj_disj_distribR ex_disj_distrib disj_commute
      cong: conj_cong)

lemma holds_back_mono: "holds_back req p gone d \<Longrightarrow> (gone \<Longrightarrow> gone') \<Longrightarrow> holds_back req p gone' d"
  by (auto simp: holds_back_def)

lemma admit_from: "from_request req (admit req)"
proof (cases req rule: admit_shapes)
  case (deployment event)
  with admit_accepts(1) [of req event] show ?thesis by (simp add: from_request_def)
next
  case (plain event)
  with admit_accepts(2) [of req event] show ?thesis by (simp add: from_request_def)
qed (simp add: from_request_def)

context storage_live
begin

lemma live_step:
  assumes "h_storage h = S" and "inv (br_store br)"
    and "post_step h None t (p, br) = (p', br')"
    and "\<And>event d. p = SavingDeployment event \<Longrightarrow> ToDeployment (Some event) = Some d \<Longrightarrow>
      key_ok (dep_Service d) (dep_Environment d)"
  shows "p' = advance p \<and> inv (br_store br') \<and>
    deps (br_store br') =
      put dep_key (case p of SavingDeployment event \<Rightarrow> ToDeployment (Some event) | _ \<Rightarrow> None) (deps (br_store br)) \<and>
    evs (br_store br') =
      put ev_ID (case p of SavingEvent event \<Rightarrow> ToStoredEvent (Some event) | _ \<Rightarrow> None) (evs (br_store br))"
proof (cases p)
  case (SavingDeployment event)
  obtain d where d: "ToDeployment (Some event) = Some d" using ToDeployment_Some by blast
  obtain s where s: "SaveDeployment S None (Some d) (br_store br) = (Inr (), s)" using live_save_dep by blast
  with save_dep [OF assms(2) assms(4) [OF SavingDeployment d] s] assms(1,3) SavingDeployment d show ?thesis
    by (auto simp: put_def)
next
  case (SavingEvent event)
  obtain e where e: "ToStoredEvent (Some event) = Some e" using ToStoredEvent_Some by blast
  obtain s where s: "SaveEvent S None (Some e) (br_store br) = (Inr (), s)" using live_save_ev by blast
  with save_ev [OF assms(2) s] assms(1,3) SavingEvent e show ?thesis
    by (auto simp: put_def)
qed (use assms(2,3) in \<open>auto simp: put_def\<close>)

text \<open>
  After any schedule every request stands where its own turns have taken it, and the backend holds
  what the requests that took their writing turns wrote, in the order of those turns.
\<close>

lemma run_live:
  assumes "h_storage h = S" and "inv (br_store br)" and "keys_ok key_ok reqs"
    and "run_schedule h (\<lambda>_ _. None) elapsed reqs sched br = (ps, br')"
  shows "ps = map (\<lambda>i. stage (reqs ! i) (count_list sched i)) [0..<length reqs] \<and> inv (br_store br') \<and>
    deps (br_store br') = put_deps reqs (turns (dep_turn reqs) sched) (deps (br_store br)) \<and>
    evs (br_store br') = put_evs reqs (turns (ev_turn reqs) sched) (evs (br_store br))"
  using assms(4)
proof (induction sched arbitrary: ps br' rule: rev_induct)
  case Nil
  with assms(2) show ?case
    by (auto simp: put_deps_def put_evs_def intro: nth_equalityI)
next
  case (snoc i sched)
  obtain qs b where run: "run_schedule h (\<lambda>_ _. None) elapsed reqs sched br = (qs, b)" by fastforce
  note ih = snoc.IH [OF run]
  show ?case
  proof (cases "i < length reqs")
    case False
    then have "dep_turn reqs i = None" "ev_turn reqs i = None"
      by (simp_all add: dep_turn_def ev_turn_def)
    with ih snoc.prems False show ?thesis
      by (auto simp: run_snoc run turn_def turns_snoc)
  next
    case True
    let ?k = "count_list sched i"
    let ?p = "stage (reqs ! i) ?k"
    obtain p' b' where st: "post_step h None (elapsed i) (?p, b) = (p', b')" by fastforce
    have "key_ok (dep_Service d) (dep_Environment d)"
      if "?p = SavingDeployment event" "ToDeployment (Some event) = Some d" for event d
      using that stage_writes(1) [OF that(1)] assms(3) True by (auto simp: keys_ok_def)
    from live_step [OF assms(1) _ st this] ih
    have l: "p' = stage (reqs ! i) (Suc ?k)" "inv (br_store b')"
      "deps (br_store b') =
        put dep_key (case ?p of SavingDeployment event \<Rightarrow> ToDeployment (Some event) | _ \<Rightarrow> None) (deps (br_store b))"
      "evs (br_store b') =
        put ev_ID (case ?p of SavingEvent event \<Rightarrow> ToStoredEvent (Some event) | _ \<Rightarrow> None) (evs (br_store b))"
      by auto
    have "put dep_key (case ?p of SavingDeployment event \<Rightarrow> ToDeployment (Some event) | _ \<Rightarrow> None) m =
        put_deps reqs (if dep_turn reqs i = Some ?k then [i] else []) m" for m
      using stage_turns(1) [OF True, of ?k] stage_writes(1) [of "reqs ! i" ?k]
      by (cases ?p) (auto simp: put_deps_def put_None)
    moreover have "put ev_ID (case ?p of SavingEvent event \<Rightarrow> ToStoredEvent (Some event) | _ \<Rightarrow> None) m =
        put_evs reqs (if ev_turn reqs i = Some ?k then [i] else []) m" for m
      using stage_turns(2) [OF True, of ?k] stage_writes(2) [of "reqs ! i" ?k]
      by (cases ?p) (auto simp: put_evs_def put_None)
    moreover from snoc.prems ih True have "ps = qs[i := p']" "br' = b'"
      by (auto simp: run_snoc run turn_def st)
    moreover have "qs[i := p'] =
        map (\<lambda>j. stage (reqs ! j) (count_list (sched @ [i]) j)) [0..<length reqs]"
      using ih True l(1) by (auto intro!: nth_equalityI simp: nth_list_update)
    ultimately show ?thesis
      using l ih by (simp add: turns_snoc put_deps_snoc put_evs_snoc)
  qed
qed

text \<open>One request alone is a schedule of five turns.\<close>

lemma post_live:
  assumes "h_storage h = S" and "inv (br_store br)" and "keys_ok key_ok [req]"
  shows "inv (br_store (snd (HandlePostEvent h None req elapsed br))) \<and>
    deps (br_store (snd (HandlePostEvent h None req elapsed br))) =
      put dep_key (write_dep req) (deps (br_store br)) \<and>
    evs (br_store (snd (HandlePostEvent h None req elapsed br))) =
      put ev_ID (write_ev req) (evs (br_store br))"
proof -
  let ?step = "turn h (\<lambda>_. None) (\<lambda>_. elapsed) 0" and ?post = "post_step h None elapsed"
  have step: "?step ([p], b) = (case ?post (p, b) of (p', b') \<Rightarrow> ([p'], b'))" for p b
    by (simp add: turn_def)
  have steps: "(?step ^^ n) ([p], b) = (case (?post ^^ n) (p, b) of (p', b') \<Rightarrow> ([p'], b'))" for n p b
    by (induction n) (auto simp: step split: prod.splits)
  obtain resp br' where hp: "HandlePostEvent h None req elapsed br = (resp, br')" by fastforce
  have "run_schedule h (\<lambda>_ _. None) (\<lambda>_. elapsed) [req] (replicate 5 0) br = ([Replied resp], br')"
    using steps [of 5 "Arrived req" br]
    by (simp add: run_constant fold_replicate post_steps_alone hp)
  note r = run_live [OF assms(1,2,3) this]
  have "turns f (replicate 5 0) = (case f 0 of None \<Rightarrow> [] | Some k \<Rightarrow> if k < 5 then [0] else [])" for f
    by (auto simp: turns_def eval_nat_numeral less_Suc_eq split: option.split)
  with r hp show ?thesis
    by (auto simp: put_deps_def put_evs_def dep_turn_def ev_turn_def put_None split: if_splits)
qed

lemma in_order_live:
  assumes "h_storage h = S" and "inv (br_store br)" and "keys_ok key_ok reqs" and "set order \<subseteq> {..<length reqs}"
  shows "inv (br_store (post_in_order h elapsed reqs order br)) \<and>
    deps (br_store (post_in_order h elapsed reqs order br)) = put_deps reqs order (deps (br_store br)) \<and>
    evs (br_store (post_in_order h elapsed reqs order br)) = put_evs reqs order (evs (br_store br))"
  using assms(4)
proof (induction order rule: rev_induct)
  case Nil
  with assms(2) show ?case by (simp add: post_in_order_def put_deps_def put_evs_def)
next
  case (snoc i order)
  let ?b = "post_in_order h elapsed reqs order br"
  have k: "keys_ok key_ok [reqs ! i]"
    using assms(3) snoc.prems by (auto simp: keys_ok_def)
  have "post_in_order h elapsed reqs (order @ [i]) br = snd (HandlePostEvent h None (reqs ! i) (elapsed i) ?b)"
    by (simp add: post_in_order_def)
  with post_live [OF assms(1) _ k, of ?b "elapsed i"] snoc show ?case
    by (simp add: put_deps_snoc put_evs_snoc) (simp add: put_deps_def put_evs_def)
qed

text \<open>
  When every request has had its turns and no two accepted events share an id, the backend holds
  what the same requests leave behind one after the other, in the order in which they saved their
  deployments.
\<close>

lemma serialisable_live:
  assumes "h_storage h = S" and "inv (br_store br)" and "keys_ok key_ok reqs"
    and "run_schedule h (\<lambda>_ _. None) elapsed reqs sched br = (ps, br')"
    and turns_given: "\<And>i. i < length reqs \<Longrightarrow> 5 \<le> count_list sched i"
    and ids: "\<And>i j e e'. i < length reqs \<Longrightarrow> j < length reqs \<Longrightarrow> write_ev (reqs ! i) = Some e \<Longrightarrow>
      write_ev (reqs ! j) = Some e' \<Longrightarrow> ev_ID e = ev_ID e' \<Longrightarrow> i = j"
  shows "(\<forall>p \<in> set ps. finished p) \<and>
    (\<exists>order. distinct order \<and> set order = {..<length reqs} \<and>
       deps (br_store br') = deps (br_store (post_in_order h elapsed reqs order br)) \<and>
       evs (br_store br') = evs (br_store (post_in_order h elapsed reqs order br)))"
proof -
  let ?n = "length reqs" and ?D = "turns (dep_turn reqs) sched" and ?V = "turns (ev_turn reqs) sched"
  note r = run_live [OF assms(1-4)]
  define order where "order = ?D @ filter (\<lambda>i. i \<notin> set ?D) [0..<?n]"
  have "i \<in> set ?D \<longleftrightarrow> i < ?n \<and> write_dep (reqs ! i) \<noteq> None" for i
    using turns_given [of i] by (auto simp: turns_taken dep_turn_def)
  then have D: "set ?D = {i. i < ?n \<and> write_dep (reqs ! i) \<noteq> None}" by auto
  have "i \<in> set ?V \<longleftrightarrow> i < ?n \<and> write_ev (reqs ! i) \<noteq> None" for i
    using turns_given [of i] by (auto simp: turns_taken ev_turn_def)
  then have V: "set ?V = {i. i < ?n \<and> write_ev (reqs ! i) \<noteq> None}" by auto
  have "set ?D \<subseteq> {..<?n}" unfolding D by blast
  then have o: "distinct order" "set order = {..<?n}"
    unfolding order_def by (auto simp: turns_distinct)
  note seq = in_order_live [OF assms(1-3), of order elapsed]
  have "put_deps reqs order m = put_deps reqs ?D m" for m
  proof -
    have "put_deps reqs (filter (\<lambda>i. i \<notin> set ?D) [0..<?n]) = fold (\<lambda>i m. m) []"
      unfolding put_deps_def
      by (subst fold_skip [where P = "\<lambda>_. False"]) (use D in \<open>auto simp: put_None\<close>)
    then show ?thesis by (simp add: order_def put_deps_snoc)
  qed
  moreover have "put_evs reqs order m = put_evs reqs ?V m" for m
  proof -
    let ?W = "filter (\<lambda>i. write_ev (reqs ! i) \<noteq> None) order"
    have "put_evs reqs order m = put_evs reqs ?W m"
      unfolding put_evs_def
      by (subst fold_skip [where P = "\<lambda>i. write_ev (reqs ! i) \<noteq> None"]) (simp_all add: put_None)
    also have "\<dots> = put_evs reqs ?V m"
      unfolding put_evs_def
      by (rule fold_put_perm [where v = "\<lambda>i. the (write_ev (reqs ! i))"])
        (use V o ids in \<open>auto simp: inj_on_def\<close>)
    finally show ?thesis .
  qed
  moreover have "\<forall>p \<in> set ps. finished p"
    using r turns_given by (auto simp: stage_done)
  ultimately show ?thesis
    using r seq o by auto
qed

text \<open>
  The links of a deployment, whatever happens to the clients. A turn loses no event; a deployment
  that becomes visible is in the hands of the request whose turn it is; and a request lets go of
  one only by storing its event, or by a refusal after its context was found gone.
\<close>

lemma links_step:
  assumes "h_storage h = S" and "inv (br_store br)" and "from_request req p"
    and "post_step h ctx t (p, br) = (p', br')"
    and key: "\<forall>event d. p = SavingDeployment event \<and> ToDeployment (Some event) = Some d \<longrightarrow>
      key_ok (dep_Service d) (dep_Environment d)"
  shows "from_request req p' \<and> inv (br_store br') \<and>
    (\<forall>k. evs (br_store br) k \<noteq> None \<longrightarrow> evs (br_store br') k \<noteq> None) \<and>
    (\<forall>d \<in> ran (deps (br_store br')). d \<in> ran (deps (br_store br)) \<or> holds_back req p' False d) \<and>
    (\<forall>d gone. holds_back req p gone d \<longrightarrow>
       evs (br_store br') (dep_EventID d) \<noteq> None \<or> holds_back req p' (gone \<or> ctx \<noteq> None) d)"
proof (cases p)
  case (Arrived r)
  with assms(3) have r: "r = req" by (simp add: from_request_def)
  with Arrived assms(2,4) admit_from [of req] show ?thesis by (auto simp: holds_back_def)
next
  case (SavingDeployment event)
  obtain d where d: "ToDeployment (Some event) = Some d" using ToDeployment_Some by blast
  obtain r s where s: "SaveDeployment S ctx (Some d) (br_store br) = (r, s)" by fastforce
  show ?thesis
  proof (cases r)
    case (Inl err)
    with s save_dep_fail have "s = br_store br" by blast
    with SavingDeployment Inl s d assms(1-4) show ?thesis
      by (auto simp: from_request_def holds_back_def)
  next
    case (Inr u)
    with s have s: "SaveDeployment S ctx (Some d) (br_store br) = (Inr (), s)" by simp
    have "key_ok (dep_Service d) (dep_Environment d)" using key SavingDeployment d by blast
    from save_dep [OF assms(2) this s] SavingDeployment s d assms(1,3,4)
    show ?thesis by (auto simp: from_request_def holds_back_def ran_def split: if_splits)
  qed
next
  case (SavingEvent event)
  obtain e where e: "ToStoredEvent (Some event) = Some e" using ToStoredEvent_Some by blast
  obtain r s where s: "SaveEvent S ctx (Some e) (br_store br) = (r, s)" by fastforce
  show ?thesis
  proof (cases r)
    case (Inl err)
    with s save_ev_fail have "s = br_store br" by blast
    moreover have "ctx \<noteq> None" using live_save_ev [of e "br_store br"] s Inl by (cases ctx) auto
    ultimately show ?thesis
      using SavingEvent Inl s e assms(1-4) by (auto simp: from_request_def holds_back_def)
  next
    case (Inr u)
    with s have s: "SaveEvent S ctx (Some e) (br_store br) = (Inr (), s)" by simp
    have "ev_ID e = dep_EventID d" if "ToDeployment (Some event) = Some d" for d
      using that stored_event_fields(1) [OF e] by (simp add: deployment_fields)
    with save_ev [OF assms(2) s] SavingEvent s e assms(1,3,4)
    show ?thesis by (auto simp: from_request_def holds_back_def)
  qed
qed (use assms in \<open>auto simp: from_request_def holds_back_def\<close>)

lemma links_live:
  assumes "h_storage h = S" and "inv (br_store br)" and "keys_ok key_ok reqs"
    and start: "\<And>d. d \<in> ran (deps (br_store br)) \<Longrightarrow> evs (br_store br) (dep_EventID d) \<noteq> None"
    and "run_schedule h ctx elapsed reqs sched br = (ps, br')"
  shows "inv (br_store br') \<and> (\<forall>i < length reqs. from_request (reqs ! i) (ps ! i)) \<and>
    (\<forall>d \<in> ran (deps (br_store br')). evs (br_store br') (dep_EventID d) \<noteq> None \<or>
      (\<exists>i < length reqs. holds_back (reqs ! i) (ps ! i) (client_gone ctx sched i) d))"
  using assms(5)
proof (induction sched arbitrary: ps br' rule: rev_induct)
  case Nil
  with assms(2) start show ?case by (auto simp: from_request_def)
next
  case (snoc i sched)
  obtain qs b where run: "run_schedule h ctx elapsed reqs sched br = (qs, b)" by fastforce
  note ih = snoc.IH [OF run]
  have len: "length qs = length reqs" using run run_length [of h ctx elapsed reqs sched br] by simp
  show ?case
  proof (cases "i < length reqs")
    case False
    with ih snoc.prems len show ?thesis by (auto simp: run_snoc run turn_def client_gone_snoc)
  next
    case True
    obtain p b' where st: "post_step h (ctx (length sched) i) (elapsed i) (qs ! i, b) = (p, b')" by fastforce
    from ih True have from_i: "from_request (reqs ! i) (qs ! i)" "inv (br_store b)" by auto
    have "\<forall>event d. qs ! i = SavingDeployment event \<and> ToDeployment (Some event) = Some d \<longrightarrow>
        key_ok (dep_Service d) (dep_Environment d)"
    proof (intro allI impI, elim conjE)
      fix event d assume "qs ! i = SavingDeployment event" "ToDeployment (Some event) = Some d"
      with from_i have "write_dep (reqs ! i) = Some d" by (auto simp: from_request_def write_dep_iff)
      with assms(3) True show "key_ok (dep_Service d) (dep_Environment d)" by (auto simp: keys_ok_def)
    qed
    note l = links_step [OF assms(1) from_i(2,1) st this]
    from snoc.prems True len have new: "ps = qs[i := p]" "br' = b'"
      by (auto simp: run_snoc run turn_def st)
    let ?gone = "client_gone ctx (sched @ [i])"
    have kept: "evs (br_store b') (dep_EventID d) \<noteq> None \<or> holds_back (reqs ! j) (ps ! j) (?gone j) d"
      if "j < length reqs" "holds_back (reqs ! j) (qs ! j) (client_gone ctx sched j) d" for j d
      using that l True len
      by (cases "j = i") (auto simp: new client_gone_snoc intro: holds_back_mono)
    have "evs (br_store b') (dep_EventID d) \<noteq> None \<or>
        (\<exists>j < length reqs. holds_back (reqs ! j) (ps ! j) (?gone j) d)"
      if d: "d \<in> ran (deps (br_store b'))" for d
    proof (cases "d \<in> ran (deps (br_store b))")
      case True
      with ih l kept show ?thesis by blast
    next
      case False
      with l d have "holds_back (reqs ! i) (ps ! i) (?gone i) d"
        using True len by (auto simp: new intro: holds_back_mono)
      with True show ?thesis by blast
    qed
    with ih l True len show ?thesis by (auto simp: new nth_list_update)
  qed
qed

end

section \<open>Properties\<close>

lemma write_ev_iff: "write_ev req = Some e \<longleftrightarrow>
    (\<exists>event. acceptable req event \<and> ToStoredEvent (Some event) = Some e)"
proof (cases req rule: admit_shapes)
  case (rejected reason resp)
  then have "\<not> acceptable req event" for event
    using admit_accepts [of req event] by auto
  with rejected show ?thesis by (simp add: write_ev_def)
next
  case (deployment event)
  then have a: "acceptable req event" "IsDeployment event" by (simp_all add: admit_accepts)
  have "acceptable req e \<longleftrightarrow> e = event" for e
    using a(1) acceptable_unique [OF a(1)] by blast
  with deployment a show ?thesis by (simp add: write_ev_def)
next
  case (plain event)
  then have a: "acceptable req event" "\<not> IsDeployment event" by (simp_all add: admit_accepts)
  have "acceptable req e \<longleftrightarrow> e = event" for e
    using a(1) acceptable_unique [OF a(1)] by blast
  with plain a show ?thesis by (simp add: write_ev_def)
qed

text \<open>No accepted deployment among the requests names a service with a NUL.\<close>

definition plain_requests :: "request_body list \<Rightarrow> bool" where
  "plain_requests reqs \<longleftrightarrow>
     (\<forall>req \<in> set reqs. \<forall>event d. acceptable req event \<and> IsDeployment event \<and>
        ToDeployment (Some event) = Some d \<longrightarrow> CHR 0x00 \<notin> set (dep_Service d))"

text \<open>No two accepted requests carry the same event id.\<close>

definition distinct_requests :: "request_body list \<Rightarrow> bool" where
  "distinct_requests reqs \<longleftrightarrow>
     (\<forall>i < length reqs. \<forall>j < length reqs. \<forall>e e'. acceptable (reqs ! i) e \<and> acceptable (reqs ! j) e' \<and>
        ctx_ID (Context e) = ctx_ID (Context e') \<longrightarrow> i = j)"

lemma plain_requests_keys: "plain_requests reqs \<Longrightarrow> keys_ok plain_service reqs"
  by (auto simp: plain_requests_def keys_ok_def plain_service_def write_dep_iff)

lemma distinct_requests_ids:
  assumes "distinct_requests reqs" and "i < length reqs" "j < length reqs"
    and "write_ev (reqs ! i) = Some e" "write_ev (reqs ! j) = Some e'" "ev_ID e = ev_ID e'"
  shows "i = j"
  using assms unfolding distinct_requests_def write_ev_iff by (metis stored_event_fields(1))

text \<open>A deployment, and two requests that are refused.\<close>

definition sample_requests :: "request_body list" where
  "sample_requests = [FullBody ''nope'', FullBody sample_post, BrokenBody [] (ErrLib ''reset'')]"

definition empty_bridge :: "memory bridge" where
  "empty_bridge = \<lparr>br_metrics = New_metrics, br_store = NewMemoryStorage\<rparr>"

lemma empty_bridge_plain: "memory_plain (br_store empty_bridge)"
  by (simp add: empty_bridge_def)

lemma empty_bridge_maps:
  "memory_deps (br_store empty_bridge) = Map.empty" "memory_evs (br_store empty_bridge) = Map.empty"
  by (simp_all add: empty_bridge_def memory_deps_def memory_evs_def NewMemoryStorage_def fun_eq_iff split: if_splits)

lemma nope_refused: "\<not> acceptable (FullBody ''nope'') e"
proof -
  have "case Parse ''nope'' of Inl _ \<Rightarrow> True | Inr _ \<Rightarrow> False" by code_simp
  then show ?thesis by (auto simp: acceptable_def split: sum.splits)
qed

lemma sample_requests_accept:
  assumes "req \<in> set sample_requests" and "acceptable req e"
  shows "req = FullBody sample_post"
proof -
  have "\<not> acceptable (BrokenBody [] err) e" for err by (simp add: acceptable_def)
  with assms nope_refused show ?thesis by (auto simp: sample_requests_def)
qed

lemma sample_requests_ok: "plain_requests sample_requests \<and> distinct_requests sample_requests"
proof -
  obtain e d where e: "acceptable (FullBody sample_post) e" "ToDeployment (Some e) = Some d"
    "dep_Service d = ''api''" by (rule sample_post_parses)
  have "req = FullBody sample_post \<and> e' = e" if "req \<in> set sample_requests" "acceptable req e'" for req e'
    using sample_requests_accept [OF that] that(2) acceptable_unique [OF e(1)] by auto
  then have "plain_requests sample_requests"
    using e by (fastforce simp: plain_requests_def)
  moreover have "i = 1" if "i < length sample_requests" "acceptable (sample_requests ! i) e'" for i e'
    using sample_requests_accept [of "sample_requests ! i" e'] that
    by (auto simp: sample_requests_def sample_post_def less_Suc_eq)
  then have "distinct_requests sample_requests"
    unfolding distinct_requests_def by blast
  ultimately show ?thesis by blast
qed

text \<open>
  C6. Concurrent ingestions into the memory backend are serialisable when their events have
  different ids: under every schedule in which each request gets its five turns, all of them are
  answered, and the backend holds the deployments and events that the same requests leave behind
  when they are handled one after the other in some order. The clients stay until they are
  answered, and no service name holds a NUL.
\<close>

theorem ingestion_serialisable:
  assumes "memory_plain (br_store br)" and "h_storage h = MemoryStorage stored_order"
    and "plain_requests reqs" and "distinct_requests reqs"
    and "\<forall>i < length reqs. 5 \<le> count_list sched i"
    and "run_schedule h (\<lambda>_ _. None) elapsed reqs sched br = (ps, br')"
  shows "(\<forall>p \<in> set ps. finished p) \<and>
    (\<exists>order. distinct order \<and> set order = {..<length reqs} \<and>
       memory_deps (br_store br') = memory_deps (br_store (post_in_order h elapsed reqs order br)) \<and>
       memory_evs (br_store br') = memory_evs (br_store (post_in_order h elapsed reqs order br)))"
  by (rule mem.serialisable_live [OF assms(2,1) plain_requests_keys [OF assms(3)] assms(6)])
    (use assms(5) distinct_requests_ids [OF assms(4)] in auto)

theorem ingestion_serialisable_witness:
  "\<exists>order. set order = {..<3} \<and>
     memory_deps (br_store (snd (run_schedule sample_handler (\<lambda>_ _. None) (\<lambda>_. 5) sample_requests
       [1, 0, 1, 2, 1, 0, 0, 2, 1, 2, 0, 0, 1, 2, 2] empty_bridge))) =
     memory_deps (br_store (post_in_order sample_handler (\<lambda>_. 5) sample_requests order empty_bridge))"
proof -
  let ?sched = "[1, 0, 1, 2, 1, 0, 0, 2, 1, 2, 0, 0, 1, 2, 2] :: nat list"
  have "\<forall>i < length sample_requests. 5 \<le> count_list ?sched i"
    by (simp add: sample_requests_def less_Suc_eq eval_nat_numeral)
  moreover have "h_storage sample_handler = MemoryStorage stored_order" by (simp add: sample_handler_def)
  moreover have "length sample_requests = 3" by (simp add: sample_requests_def)
  ultimately show ?thesis
    using ingestion_serialisable [of empty_bridge sample_handler sample_requests ?sched "\<lambda>_. 5"]
      sample_requests_ok empty_bridge_plain by (metis prod.collapse)
qed

text \<open>
  The ids have to differ. Two deployments of the same service and environment that carry the same
  event id but different contents, sent at the same time, can leave the deployment of one beside
  the event of the other, which no order of the two leaves: the two saves are not one transaction.
\<close>

theorem ingestion_race:
  fixes elapsed :: "nat \<Rightarrow> duration"
  assumes "memory_plain (br_store br)" and "h_storage h = MemoryStorage stored_order"
    and "plain_requests [req, req']"
    and "acceptable req e" "IsDeployment e" "ToDeployment (Some e) = Some d" "ToStoredEvent (Some e) = Some ev"
    and "acceptable req' e'" "IsDeployment e'" "ToDeployment (Some e') = Some d'" "ToStoredEvent (Some e') = Some ev'"
    and "dep_key d = dep_key d'" "ev_ID ev = ev_ID ev'" "d \<noteq> d'" "ev \<noteq> ev'" and "order \<in> {[0, 1], [1, 0]}"
  defines "left \<equiv> br_store (snd (run_schedule h (\<lambda>_ _. None) elapsed [req, req'] [0, 0, 1, 1, 1, 0, 0, 0, 1, 1] br))"
    and "serial \<equiv> br_store (post_in_order h elapsed [req, req'] order br)"
  shows "memory_deps left (dep_key d) = Some d' \<and> memory_evs left (ev_ID ev) = Some ev \<and>
    (memory_deps left \<noteq> memory_deps serial \<or> memory_evs left \<noteq> memory_evs serial)"
proof -
  let ?reqs = "[req, req']" and ?sched = "[0, 0, 1, 1, 1, 0, 0, 0, 1, 1] :: nat list"
  have w: "write_dep req = Some d" "write_dep req' = Some d'" "write_ev req = Some ev" "write_ev req' = Some ev'"
    using assms(4-11) by (auto simp: write_dep_iff write_ev_iff)
  obtain ps br' where run: "run_schedule h (\<lambda>_ _. None) elapsed ?reqs ?sched br = (ps, br')" by fastforce
  have "turns (dep_turn ?reqs) ?sched = [0, 1]" "turns (ev_turn ?reqs) ?sched = [1, 0]"
    by (simp_all add: turns_def dep_turn_def ev_turn_def w)
  with mem.run_live [OF assms(2,1) plain_requests_keys [OF assms(3)] run] run
  have l: "memory_deps left = put_deps ?reqs [0, 1] (memory_deps (br_store br))"
    "memory_evs left = put_evs ?reqs [1, 0] (memory_evs (br_store br))"
    by (simp_all add: left_def)
  from assms(16) have "set order \<subseteq> {..<length ?reqs}" by auto
  note s = mem.in_order_live [OF assms(2,1) plain_requests_keys [OF assms(3)] this, of elapsed]
  have left: "memory_deps left (dep_key d) = Some d'" "memory_evs left (ev_ID ev) = Some ev"
    by (simp_all add: l put_deps_def put_evs_def put_def w assms(12,13))
  have "memory_deps serial (dep_key d) = Some d \<or> memory_evs serial (ev_ID ev) = Some ev'"
    using assms(16) s
    by (elim insertE) (simp_all add: serial_def put_deps_def put_evs_def put_def w assms(12,13))
  with left assms(14,15) show ?thesis by auto
qed

text \<open>
  C19. At every moment of any interleaving, over any backend and with any of the clients gone, the
  metrics agree with the requests: those received are those answered with 201 and those about to
  be, those observed are those answered with 201, and those rejected are all others answered.
\<close>

theorem ingestion_accounting:
  assumes "metrics_ok (br_metrics br)" and "run_schedule h ctx elapsed reqs sched br = (ps, br')"
  shows "total (received (br_metrics br')) = total (received (br_metrics br)) +
      many observing ps + many (answered (\<lambda>st. st = 201)) ps \<and>
    length (durations (br_metrics br')) = length (durations (br_metrics br)) +
      many (answered (\<lambda>st. st = 201)) ps \<and>
    total (rejected (br_metrics br')) = total (rejected (br_metrics br)) +
      many (answered (\<lambda>st. st \<noteq> 201)) ps"
  using run_counts [OF assms] by (simp add: counts_match_def)

theorem ingestion_accounting_witness:
  "total (rejected (br_metrics (snd (run_schedule sample_handler (\<lambda>_ _. None) (\<lambda>_. 5) sample_requests
     [0, 2, 2, 0] empty_bridge)))) = 2"
proof -
  obtain ps br' where run: "run_schedule sample_handler (\<lambda>_ _. None) (\<lambda>_. 5) sample_requests [0, 2, 2, 0] empty_bridge =
      (ps, br')" by fastforce
  have h: "h_storage sample_handler = MemoryStorage stored_order" by (simp add: sample_handler_def)
  have refused: "answered (\<lambda>st. st \<noteq> 201) (advance (admit req))" if "\<And>e. \<not> acceptable req e" for req
    using that by (cases req rule: admit_shapes) (auto simp: admit_accepts answered_def)
  have bad: "\<not> acceptable (BrokenBody [] err) e" for err e by (simp add: acceptable_def)
  from mem.run_live [OF h empty_bridge_plain plain_requests_keys run] sample_requests_ok
  have "ps = [advance (admit (FullBody ''nope'')), Arrived (FullBody sample_post),
      advance (admit (BrokenBody [] (ErrLib ''reset'')))]"
    by (simp add: sample_requests_def upt_rec numeral_2_eq_2)
  then have "many (answered (\<lambda>st. st \<noteq> 201)) ps = 2"
    using refused [OF nope_refused] refused [OF bad] by (simp add: answered_def)
  moreover have "metrics_ok (br_metrics empty_bridge)" "total (rejected (br_metrics empty_bridge)) = 0"
    using metrics_ok_new by (simp_all add: empty_bridge_def New_metrics_def total_def)
  ultimately show ?thesis
    using ingestion_accounting [OF _ run] run by simp
qed

text \<open>
  C20. The event link of a deployment in the memory backend. Under any interleaving, and with
  clients that may go away between any two accesses, the event of every deployment a lookup can
  see is stored, unless a request that posted this deployment is about to save its event, or found
  its client gone and is or was refused with status 500, so that the poster knows to repeat it. As
  long as no client goes away a link therefore dangles only between the two saves of a request.
\<close>

theorem ingestion_links:
  assumes "memory_plain (br_store br)" and "h_storage h = MemoryStorage stored_order"
    and "plain_requests reqs"
    and "\<forall>d \<in> ran (memory_deps (br_store br)). memory_evs (br_store br) (dep_EventID d) \<noteq> None"
    and "run_schedule h ctx elapsed reqs sched br = (ps, br')"
    and "d \<in> ran (memory_deps (br_store br'))"
  shows "memory_evs (br_store br') (dep_EventID d) \<noteq> None \<or>
    (\<exists>i < length reqs. \<exists>event. acceptable (reqs ! i) event \<and> IsDeployment event \<and>
       ToDeployment (Some event) = Some d \<and>
       (ps ! i = SavingEvent event \<or>
        (\<exists>t < length sched. sched ! t = i \<and> ctx t i \<noteq> None) \<and>
        (\<exists>resp. resp_status resp = 500 \<and> ps ! i \<in> {Rejecting rejectStorage resp, Replied resp})))"
proof -
  have "memory_evs (br_store br) (dep_EventID u) \<noteq> None" if "u \<in> ran (memory_deps (br_store br))" for u
    using assms(4) that by blast
  with mem.links_live [OF assms(2,1) plain_requests_keys [OF assms(3)] _ assms(5)] assms(6)
  show ?thesis unfolding holds_back_def client_gone_def by blast
qed

text \<open>
  A client that goes away between the two saves of its request leaves a deployment that every
  lookup sees and whose event nobody holds; it is answered with 500.
\<close>

definition leaves_at :: "nat \<Rightarrow> nat \<Rightarrow> nat \<Rightarrow> nat \<Rightarrow> ctx" where
  "leaves_at t i t' i' = (if i' = i \<and> t \<le> t' then Some ''context canceled'' else None)"

lemma ingestion_abandoned:
  assumes "memory_plain (br_store br)" and "h_storage h = MemoryStorage stored_order"
    and "acceptable req e" "IsDeployment e" "ToDeployment (Some e) = Some d"
    and "CHR 0x00 \<notin> set (dep_Service d)" and "memory_evs (br_store br) (dep_EventID d) = None"
    and "run_schedule h (leaves_at 2 0) elapsed [req] [0, 0, 0, 0] br = (ps, br')"
  shows "ps = [Replied (respondError 500 errStorage ''Failed to save event'')] \<and>
    memory_deps (br_store br') (dep_key d) = Some d \<and> memory_evs (br_store br') (dep_EventID d) = None"
proof -
  obtain s where s: "SaveDeployment (MemoryStorage stored_order) None (Some d) (br_store br) = (Inr (), s)"
    using mem.live_save_dep by blast
  have "plain_service (dep_Service d) (dep_Environment d)" using assms(6) by (simp add: plain_service_def)
  note saved = mem.save_dep [OF assms(1) this s]
  obtain ev where ev: "ToStoredEvent (Some e) = Some ev" using ToStoredEvent_Some by blast
  have "SaveEvent (MemoryStorage stored_order) (Some err) oe m = (Inl (ErrCtx err), m)" for err oe m
    by (simp add: mem_SaveEvent_def)
  then have "ps = [Replied (respondError 500 errStorage ''Failed to save event'')] \<and> br_store br' = s"
    using assms(2-5,8) s ev admit_accepts(1) [of req e]
    by (auto simp: run_schedule_def turn_def leaves_at_def numeral_2_eq_2)
  with saved assms(7) show ?thesis by simp
qed

theorem ingestion_links_witness:
  "\<exists>d ps br'. run_schedule sample_handler (leaves_at 2 0) (\<lambda>_. 5) [FullBody sample_post] [0, 0, 0, 0] empty_bridge =
       (ps, br') \<and>
     memory_deps (br_store br') (''api'', ''prod'') = Some d \<and>
     (\<exists>resp. resp_status resp = 500 \<and> ps ! 0 \<in> {Rejecting rejectStorage resp, Replied resp})"
proof -
  let ?reqs = "[FullBody sample_post]"
  obtain e d where e: "acceptable (FullBody sample_post) e" "ToDeployment (Some e) = Some d"
    "dep_Service d = ''api''" "dep_Environment d = ''prod''" "IsDeployment e" by (rule sample_post_parses)
  obtain ps br' where run: "run_schedule sample_handler (leaves_at 2 0) (\<lambda>_. 5) ?reqs [0, 0, 0, 0] empty_bridge =
      (ps, br')" by fastforce
  have h: "h_storage sample_handler = MemoryStorage stored_order" by (simp add: sample_handler_def)
  have "CHR 0x00 \<notin> set (dep_Service d)" by (simp add: e(3))
  note left = ingestion_abandoned [OF empty_bridge_plain h e(1,5,2) this _ run]
  have m: "memory_deps (br_store br') (''api'', ''prod'') = Some d" "memory_evs (br_store br') (dep_EventID d) = None"
    "ps ! 0 \<noteq> SavingEvent event" for event
    using left e(3,4) by (simp_all add: empty_bridge_maps)
  have "plain_requests ?reqs"
    using sample_requests_ok by (auto simp: plain_requests_def sample_requests_def)
  moreover from m(1) have "d \<in> ran (memory_deps (br_store br'))" by (rule ranI)
  moreover have "\<forall>d \<in> ran (memory_deps (br_store empty_bridge)). memory_evs (br_store empty_bridge) (dep_EventID d) \<noteq> None"
    by (simp add: empty_bridge_maps)
  ultimately have "\<exists>resp. resp_status resp = 500 \<and> ps ! 0 \<in> {Rejecting rejectStorage resp, Replied resp}"
    using ingestion_links [OF empty_bridge_plain h _ _ run] m by fastforce
  with run m(1) show ?thesis by blast
qed

end
