(* ===== verification/Ingestion_Log.thy ===== *)
theory Ingestion_Log
  imports Handler_Facts
begin

text \<open>
  The log lines of an ingestion, from \<open>internal/api/handlers.go\<close>: level, message and attributes, in
  the order in which the handler writes them. What a logging backend makes of a line is left out.
\<close>

datatype severity = Info | Warn | Error

record log_line =
  ll_level :: severity
  ll_message :: string
  ll_attrs :: "(string \<times> string) list"

definition log_event_attrs :: "cdevent \<Rightarrow> (string \<times> string) list" where
  "log_event_attrs event =
     [(''event_id'', ctx_ID (Context event)), (''event_type'', event_ShortType event),
      (''subject'', subj_ID (Subject event))]"

definition logEventDetails :: "(string \<times> string) list \<Rightarrow> cdevent \<Rightarrow> string \<Rightarrow> log_line" where
  "logEventDetails attrs event kind =
     (if has_prefix ''pipelinerun.'' kind then
        (let run = the (ToPipelineRun (Some event)) in \<lparr>ll_level = Info, ll_message = ''pipeline run event received'',
             ll_attrs = attrs @ [(''pipeline'', run_PipelineName run), (''status'', run_Status run),
               (''outcome'', run_Outcome run)]\<rparr>)
      else if has_prefix ''incident.'' kind then
        (let incident = the (ToIncident (Some event)) in \<lparr>ll_level = Info, ll_message = ''incident event received'',
             ll_attrs = attrs @ [(''service'', inc_Service incident), (''severity'', inc_Severity incident),
               (''status'', inc_Status incident)]\<rparr>)
      else \<lparr>ll_level = Info, ll_message = ''event received'', ll_attrs = attrs\<rparr>)"

definition error_line :: "(string \<times> string) list \<Rightarrow> string \<Rightarrow> gerror \<Rightarrow> log_line" where
  "error_line attrs message err =
     \<lparr>ll_level = Error, ll_message = message, ll_attrs = attrs @ [(''error'', err_text err)]\<rparr>"

definition recorded_line :: "(string \<times> string) list \<Rightarrow> deployment \<Rightarrow> log_line" where
  "recorded_line attrs d =
     \<lparr>ll_level = Info, ll_message = ''deployment recorded'',
      ll_attrs = attrs @ [(''service'', dep_Service d), (''environment'', dep_Environment d),
        (''version'', dep_Version d), (''commit'', dep_CommitSha d)]\<rparr>"

text \<open>The lines written while a validated event is stored, with the state of the store after it.\<close>

definition store_log :: "'s storage \<Rightarrow> ctx \<Rightarrow> cdevent \<Rightarrow> 's \<Rightarrow> log_line list" where
  "store_log S ctx event s =
     (let attrs = log_event_attrs event;
          save_event = (\<lambda>s. case SaveEvent S ctx (ToStoredEvent (Some event)) s of
             (Inl err, s) \<Rightarrow> [error_line attrs ''failed to save event'' err]
           | (Inr _, s) \<Rightarrow> [])
      in if IsDeployment event then
           (case SaveDeployment S ctx (ToDeployment (Some event)) s of
              (Inl err, s) \<Rightarrow> [error_line attrs ''failed to save deployment'' err]
            | (Inr _, s) \<Rightarrow> recorded_line attrs (the (ToDeployment (Some event))) # save_event s)
         else logEventDetails attrs event (event_ShortType event) # save_event s)"

definition post_log :: "'s handler \<Rightarrow> ctx \<Rightarrow> request_body \<Rightarrow> 's bridge \<Rightarrow> log_line list" where
  "post_log h ctx req br =
     (case read_all req of
        Inl _ \<Rightarrow> []
      | Inr body \<Rightarrow>
     (case Parse body of
        Inl err \<Rightarrow> [\<lparr>ll_level = Warn, ll_message = ''rejected CDEvent: parse failure'',
          ll_attrs = [(''error'', err_text err)]\<rparr>]
      | Inr event \<Rightarrow>
     (case Validate (Some event) of
        Some err \<Rightarrow> [\<lparr>ll_level = Warn, ll_message = ''rejected CDEvent: validation failure'',
          ll_attrs = [(''error'', err_text err), (''id'', ctx_ID (Context event))]\<rparr>]
      | None \<Rightarrow> store_log (h_storage h) ctx event (br_store br))))"

lemma logEventDetails_level [simp]: "ll_level (logEventDetails attrs event kind) = Info"
  by (simp add: logEventDetails_def Let_def)

text \<open>
  The severe lines agree with the answer: none for an event that is accepted, one for an event that
  is refused or cannot be stored; but a body that is too large or cannot be read is refused without
  a line.
\<close>

theorem post_log_severe:
  assumes "HandlePostEvent h ctx req elapsed br = (resp, br')"
  shows "length (filter (\<lambda>l. ll_level l \<noteq> Info) (post_log h ctx req br)) =
    (if resp_status resp = 201 \<or> (\<exists>e. read_all req = Inl e) then 0 else 1)"
  using post_outcome [OF assms]
proof cases
  case (no_event body event s1 err s)
  then show ?thesis
    by (cases "IsDeployment event")
      (auto simp: post_log_def store_log_def error_line_def recorded_line_def after_deployment_def Let_def)
next
  case (accepted body event s1 s)
  then show ?thesis
    by (cases "IsDeployment event")
      (auto simp: post_log_def store_log_def recorded_line_def after_deployment_def Let_def)
qed (auto simp: post_log_def store_log_def error_line_def Let_def)

text \<open>A deployment is recorded in the log exactly when the backend took it.\<close>

theorem post_log_recorded:
  assumes "acceptable req event" "IsDeployment event" "ToDeployment (Some event) = Some d"
  shows "recorded_line (log_event_attrs event) d \<in> set (post_log h ctx req br) \<longleftrightarrow>
    fst (SaveDeployment (h_storage h) ctx (Some d) (br_store br)) = Inr ()"
proof -
  from assms(1) obtain body where "read_all req = Inr body" "Parse body = Inr event" "Validate (Some event) = None"
    by (auto simp: acceptable_def)
  then have "post_log h ctx req br = store_log (h_storage h) ctx event (br_store br)"
    by (simp add: post_log_def)
  then show ?thesis
    using assms(2,3)
    by (auto simp: store_log_def error_line_def recorded_line_def Let_def split: prod.splits sum.splits)
qed

end
