(* ===== verification/Spec2Isabelle.thy ===== *)
theory Spec2Isabelle
  imports Replay Sample_Server Redis_Keyspace Bridge_Command Trace_Enrichment Client_Options
    Serialisable_Ingestion Ingestion_Log
begin

text \<open>
  Verification of the CDEvents to OpenTelemetry bridge, a Go service. Build systems post CDEvents
  over HTTP; the bridge keeps the events and the current deployment of every service and
  environment; a span processor inside the observed services asks it for their deployment; and the
  chain of events behind an incident can be walked back to a commit.

  How the program's parts interact. A request passes recovery, logging and CORS middleware, is
  routed to a handler, and the handler parses, validates and converts the event and calls the
  storage interface, in memory or over Redis. The correlator walks the links between stored
  events. The client library, its cache and the span processor use the deployments endpoint; the
  bridge's own spans use the same processor over its storage. The entry point loads a
  configuration and wires the parts together.

  Conventions. A Go struct is a record, a tagged value a datatype, an error a value of
  \<^typ>\<open>gerror\<close> in the left summand of a result, a pointer that may be \<open>nil\<close> an option. A Go
  string is its list of bytes. A Go map is an association list with distinct keys; where the
  program ranges over one, the visiting order is an argument. State is passed explicitly: every
  operation returns the new state with its result. Durations are integers in the range of 64
  bits, with saturation and wrap-around where the source can meet them.

  The standard library as far as it is used:
  \<^item> Prelude, Go_Strings, Go_Time, Go_RFC3339, Go_Regexp, Go_Format: errors, maps, the stable
    sort, strings, instants, the calendar and the RFC 3339 layout both ways, the fragment of
    regular expressions in use, \<open>strconv\<close> and the formatting verbs.
  \<^item> Go_Json_Text, Go_Json, Go_Json_Encode: the lexer and grammar of JSON, decoding into structs
    and dynamic values, and encoding. Parsing has fuel for twice the length of the text and one, which
    parse_value_fuel shows to be enough; parse_print is the round trip.
  \<^item> Url_Escape: percent encoding of paths and queries, with its inverse.

  The components, with their source under \<open>src/\<close>:
  \<^item> Models, Model_Codec (\<open>pkg/models\<close>): the domain structs, the lenient decoding of links and the
    JSON round trip of a deployment.
  \<^item> Event_Types, Event_Fields, Event_Links, Event_Validator, Event_Parser, Event_Decode, Event_Codec
    (\<open>internal/cdevents\<close>): the event types, the ordered lookups in dynamic data, link
    normalization, validation, the conversions, \<open>Parse\<close>, and the round trip of a stored event.
  \<^item> Storage, Memory_Storage (\<open>internal/storage/interface.go, memory.go\<close>): the interface as a
    record of operations, the contract of a backend as the locale storage_contract, and the memory
    backend that meets it, refined against two abstract maps.
  \<^item> Redis_Storage, Redis_Facts, Redis_Keyspace (\<open>internal/storage/redis.go\<close>): the backend over a
    client that is a parameter, the documented contract of a server as the locale redis_server,
    and a keyspace with a clock and expiry that meets it. The scan loop may not end by itself; it
    is an option-valued recursion, and its termination is proved from the contract.
  \<^item> Event_Graph, Correlator (\<open>internal/correlator\<close>): the bounded breadth-first walk, whose loop
    ends by a measure on the events left to visit and the queue, and the reconstruction of chains
    and root causes.
  \<^item> Metrics, Handlers, Handler_Facts, Api_Json, Api_Server, Server_Facts (\<open>internal/metrics,
    internal/api\<close>): the counters, the handlers, the bytes of the responses, the route table, the
    middlewares and the dispatch. The chi router is a parameter with the locale router_contract,
    and a segment router meets it.
  \<^item> Concurrent_Ingestion, Serialisable_Ingestion, Ingestion_Log (\<open>internal/api/handlers.go\<close> again): the
    posting handler cut at its accesses to shared state, five turns at most for a request, and
    explicit schedules of any number of requests; and the log lines of an ingestion.
  \<^item> Deployment_Resolver, Cached_Resolver, Span_Processor, Bridge_Client (\<open>pkg/otelbridge\<close> and
    \<open>internal/otel/resolver.go\<close>): the resolver interface, the cache, alone and as a step relation
    under interleaved lookups and invalidations, the processor and the HTTP client.
  \<^item> Client_Options (\<open>pkg/otelbridge/client.go\<close>): the construction of the client over a heap of
    \<open>http.Client\<close> objects, because its options write through a pointer the caller may share.
  \<^item> Otel_Provider (\<open>internal/otel/provider.go\<close>), Bridge_Config (\<open>internal/config\<close>),
    Bridge_Main, Bridge_Command (\<open>cmd/bridge\<close>): the exporter options and the provider, the three layers of the
    configuration, the choice of backend and logger, and the life of the process as a state
    machine over its acquisitions and releases, the flags and the exit status.
  \<^item> Mock_Deployer, Sample_App, Sample_Server (\<open>examples\<close>): the event replayer, and the sample
    application with its mux, its answers and the life of its process.
  \<^item> End_To_End, Trace_Enrichment, Replay: compositions. The HTTP client over a bridge with the
    memory backend answers as a direct lookup in its store; a deployment that is posted is on the
    next span of its service; a replay against such a bridge succeeds exactly when every event is
    acceptable, and is counted in full.

  What the lemmas show, by group: well-formedness (canonical links and maps of parsed events, the
  invariant of the memory backend and of the metrics, validated configurations); functional
  behaviour of every operation, errors included; refinement of the backends to abstract maps;
  serialisability and accounting of ingestions under every interleaving;
  independence of map orders; round trips of JSON, instants and URLs; bounds of walks, listings
  and times to live; termination of the walk, the scan and the wait for the bridge; safety of the
  server, the processor and the process. Where the code departs from its documents, or
  misbehaves at a boundary, a theorem shows the case: colliding storage keys, stale members of a
  Redis chain, instants that are accepted but cannot be encoded, an invalidation that is undone by
  a lookup in flight, a time to live that wraps, two posts of one event id that mix, a timeout that
  is written into an object of the caller.

  Bounds. Sizes and limits are the constants of the source: 1 MiB bodies and responses, 32 hops
  and 256 events of a walk, listings of at most 100, scans in pages of 100.

  Not modelled. Log lines other than those of an ingestion and the access log (whose absence after a
  panic is a theorem), the text exposition of metrics, stack traces, the listener of \<open>net/http\<close>, the
  usage text of the flags, the spans and exporters of the OpenTelemetry SDK, the YAML decoder and
  the Redis server: they are libraries or pure output, and appear as parameters where a result
  depends on them. Concurrency is modelled where requests meet, in the cache and in the ingestion;
  the memory backend holds its lock for a whole operation and each operation is one step.
  Floating-point numbers keep the decimal text they were read from, and their shortest form is an
  argument. Which code points beyond ASCII are printable is an argument as well.
\<close>

end
